(* ===== verification/Go_Prelude.thy ===== *)
theory Go_Prelude
  imports Main "HOL-Library.Word"
begin

text \<open>
  The vocabulary the component theories share.

  A Go \<open>byte\<close> is HOL's 8-bit \<^typ>\<open>char\<close>, so Go's \<open>[]byte\<close> and \<open>string\<close> are both
  \<^typ>\<open>char list\<close> and the conversions \<open>string(b)\<close> and \<open>[]byte(s)\<close> are the identity.
  Go's \<open>uint16\<close>, \<open>uint32\<close> and \<open>uint64\<close> are words of that width where the code's
  arithmetic can wrap.  A function that returns \<open>(T, error)\<close> returns a sum: \<^const>\<open>Inl\<close>
  carries the error, \<^const>\<open>Inr\<close> the value; \<open>bindE\<close> is the
  \<open>if err != nil { return err }\<close> that follows a call.
\<close>

type_synonym byte = char
type_synonym bytes = "char list"
type_synonym u16 = "16 word"
type_synonym u32 = "32 word"
type_synonym u64 = "64 word"

named_theorems go_simps \<open>evaluation rules of the Go operations the components use\<close>


section \<open>Results\<close>

definition bindE :: "'e + 'a \<Rightarrow> ('a \<Rightarrow> 'e + 'b) \<Rightarrow> 'e + 'b" where
  "bindE m f = (case m of Inl e \<Rightarrow> Inl e | Inr x \<Rightarrow> f x)"

definition mapErr :: "('e \<Rightarrow> 'f) \<Rightarrow> 'e + 'a \<Rightarrow> 'f + 'a" where
  "mapErr g m = (case m of Inl e \<Rightarrow> Inl (g e) | Inr x \<Rightarrow> Inr x)"

definition isOk :: "'e + 'a \<Rightarrow> bool" where
  "isOk m = (case m of Inl _ \<Rightarrow> False | Inr _ \<Rightarrow> True)"

lemma bindE_simps [simp]:
  "bindE (Inl e) f = Inl e"
  "bindE (Inr x) f = f x"
  by (simp_all add: bindE_def)

lemma bindE_eq_Inr [simp]: "bindE m f = Inr y \<longleftrightarrow> (\<exists>x. m = Inr x \<and> f x = Inr y)"
  by (cases m) simp_all

text \<open>Two runs that fail alike or succeed with related results.\<close>

lemma rel_bindE:
  "rel_sum (=) R m m' \<Longrightarrow> (\<And>x x'. R x x' \<Longrightarrow> rel_sum (=) S (f x) (f' x')) \<Longrightarrow> rel_sum (=) S (bindE m f) (bindE m' f')"
  by (cases m; cases m') auto

lemma rel_bindE_same:
  "(\<And>x. rel_sum (=) S (f x) (f' x)) \<Longrightarrow> rel_sum (=) S (bindE m f) (bindE m f')"
  by (cases m) auto

lemma mapErr_simps [simp]:
  "mapErr g (Inl e) = Inl (g e)"
  "mapErr g (Inr x) = Inr x"
  by (simp_all add: mapErr_def)

lemma mapErr_eq_Inr [simp]: "mapErr g m = Inr y \<longleftrightarrow> m = Inr y"
  by (cases m) simp_all

lemma isOk_simps [simp]: "isOk (Inr x)" "\<not> isOk (Inl e)"
  by (simp_all add: isOk_def)

lemma isOk_iff: "isOk m \<longleftrightarrow> (\<exists>x. m = Inr x)"
  by (cases m) simp_all


section \<open>Codecs\<close>

text \<open>An on-disk format: every well-formed value is read back from what is written for it.\<close>

locale codec =
  fixes wf :: "'a \<Rightarrow> bool"
    and enc :: "'a \<Rightarrow> bytes"
    and decd :: "bytes \<Rightarrow> 'e + 'a"
  assumes round_trip: "wf a \<Longrightarrow> decd (enc a) = Inr a"
begin

lemma enc_inj: "wf a \<Longrightarrow> wf b \<Longrightarrow> enc a = enc b \<Longrightarrow> a = b"
  by (metis round_trip sum.inject(2))

lemma decd_ok: "wf a \<Longrightarrow> isOk (decd (enc a))"
  by (simp add: round_trip)

end


section \<open>Slices\<close>

definition sl :: "'a list \<Rightarrow> nat \<Rightarrow> nat \<Rightarrow> 'a list" where
  "sl xs a b = take (b - a) (drop a xs)"

lemma length_sl [simp]: "b \<le> length xs \<Longrightarrow> length (sl xs a b) = b - a"
  by (simp add: sl_def)

lemma sl_append_left: "b \<le> length xs \<Longrightarrow> sl (xs @ ys) a b = sl xs a b"
  by (cases "a \<le> length xs") (simp_all add: sl_def)

lemma sl_full [simp]: "sl xs 0 (length xs) = xs"
  by (simp add: sl_def)

lemma sl_sl:
  assumes "c \<le> d" "a + d \<le> b"
  shows "sl (sl xs a b) c d = sl xs (a + c) (a + d)"
proof -
  have m: "min (d - c) (b - a - c) = d - c" and n: "a + d - (a + c) = d - c"
    using assms by simp_all
  show ?thesis
    unfolding sl_def drop_take take_take m n drop_drop by (simp only: add.commute)
qed

lemma take_sl: "a + k \<le> b \<Longrightarrow> take k (sl xs a b) = sl xs a (a + k)"
  by (simp add: sl_def)

lemma drop_sl: "drop k (sl xs a b) = sl xs (a + k) b"
  by (simp add: sl_def drop_take add.commute)

lemma nth_sl: "i < length (sl xs a e) \<Longrightarrow> sl xs a e ! i = xs ! (a + i)"
  by (cases "a \<le> length xs") (simp_all add: sl_def)

text \<open>Writing over part of a buffer, and a sequence of such writes (\<open>copy(out[off:], b)\<close> where it fits).\<close>

definition overwrite :: "bytes \<Rightarrow> nat \<Rightarrow> bytes \<Rightarrow> bytes" where
  "overwrite c off b = take off c @ b @ drop (off + length b) c"

lemma overwrite_nil [simp]: "overwrite c off [] = c"
  by (simp add: overwrite_def)

lemma length_overwrite [simp]: "off + length b \<le> length c \<Longrightarrow> length (overwrite c off b) = length c"
  by (simp add: overwrite_def)

lemma nth_overwrite:
  "off + length b \<le> length c \<Longrightarrow> i < length c \<Longrightarrow>
     overwrite c off b ! i = (if off \<le> i \<and> i < off + length b then b ! (i - off) else c ! i)"
  by (auto simp: overwrite_def nth_append)

lemma sl_overwrite_same:
  "off + length b \<le> length c \<Longrightarrow> e = off + length b \<Longrightarrow> sl (overwrite c off b) off e = b"
  by (simp add: sl_def overwrite_def)

lemma sl_overwrite_other:
  assumes "off + length b \<le> length c" "e \<le> off \<or> off + length b \<le> a"
  shows "sl (overwrite c off b) a e = sl c a e"
proof (rule nth_equalityI)
  show "length (sl (overwrite c off b) a e) = length (sl c a e)"
    using assms by (simp add: sl_def)
  show "sl (overwrite c off b) a e ! i = sl c a e ! i" if "i < length (sl (overwrite c off b) a e)" for i
  proof -
    have "i < e - a" "a + i < length c" using that assms by (auto simp: sl_def)
    then show ?thesis using that assms by (auto simp: nth_sl nth_overwrite sl_def)
  qed
qed

definition writes :: "bytes \<Rightarrow> (nat \<times> bytes) list \<Rightarrow> bytes" where
  "writes out ws = foldl (\<lambda>c (off, b). overwrite c off b) out ws"

fun ascending :: "nat \<Rightarrow> (nat \<times> bytes) list \<Rightarrow> nat \<Rightarrow> bool" where
  "ascending lo [] hi \<longleftrightarrow> lo \<le> hi"
| "ascending lo ((off, b) # ws) hi \<longleftrightarrow> lo \<le> off \<and> ascending (off + length b) ws hi"

lemma ascending_le: "ascending lo ws hi \<Longrightarrow> lo \<le> hi"
  by (induction lo ws hi rule: ascending.induct) auto

lemma ascending_append: "ascending lo ws m \<Longrightarrow> ascending m ws' hi \<Longrightarrow> ascending lo (ws @ ws') hi"
proof (induction lo ws m rule: ascending.induct)
  case (1 lo m)
  then show ?case by (cases ws') auto
qed simp

lemma writes_simps [simp]:
  "writes out [] = out"
  "writes out ((off, b) # ws) = writes (overwrite out off b) ws"
  by (simp_all add: writes_def)

lemma writes_append: "writes out (ws @ ws') = writes (writes out ws) ws'"
  by (simp add: writes_def)

lemma length_writes: "ascending lo ws hi \<Longrightarrow> hi \<le> length out \<Longrightarrow> length (writes out ws) = length out"
proof (induction lo ws hi arbitrary: out rule: ascending.induct)
  case (2 lo off b ws hi)
  then show ?case using ascending_le [of "off + length b" ws hi] by simp
qed simp

lemma writes_below:
  "ascending lo ws hi \<Longrightarrow> hi \<le> length out \<Longrightarrow> e \<le> lo \<Longrightarrow> sl (writes out ws) a e = sl out a e"
proof (induction lo ws hi arbitrary: out rule: ascending.induct)
  case (2 lo off b ws hi)
  then show ?case using ascending_le [of "off + length b" ws hi] by (simp add: sl_overwrite_other)
qed simp

lemma writes_read:
  "ascending lo ws hi \<Longrightarrow> hi \<le> length out \<Longrightarrow> (off, b) \<in> set ws \<Longrightarrow>
     sl (writes out ws) off (off + length b) = b"
proof (induction lo ws hi arbitrary: out rule: ascending.induct)
  case (2 lo off' b' ws hi)
  note le = ascending_le [of "off' + length b'" ws hi]
  show ?case
  proof (cases "(off, b) \<in> set ws")
    case True
    then show ?thesis using 2 le by simp
  next
    case False
    with 2 le show ?thesis by (auto simp: writes_below sl_overwrite_same)
  qed
qed simp


lemma take_before: "take (length (takeWhile P xs)) xs = takeWhile P xs"
  by (rule takeWhile_eq_take [symmetric])

lemma takeWhile_upto: "c \<notin> set v \<Longrightarrow> takeWhile (\<lambda>x. x \<noteq> c) (v @ c # r) = v"
  by (induction v) auto

lemma length_takeWhile_inside: "x \<in> set xs \<Longrightarrow> \<not> P x \<Longrightarrow> length (takeWhile P xs) < length xs"
  by (induction xs) auto

lemma upt_split: "\<lbrakk> i \<le> j; j \<le> k \<rbrakk> \<Longrightarrow> [i..<k] = [i..<j] @ [j..<k]"
  using upt_add_eq_append [of i j "k - j"] by simp


lemma ceil_div_bounds:
  assumes "0 < (d :: nat)"
  shows "n \<le> (n + d - 1) div d * d" and "s < (n + d - 1) div d \<Longrightarrow> s * d < n"
proof -
  define q where "q = (n + d - 1) div d"
  have "(n + d - 1) mod d < d" using assms by simp
  moreover have "n + d - 1 = q * d + (n + d - 1) mod d" by (simp add: q_def)
  ultimately have "n + d - 1 < q * d + d" and le: "q * d \<le> n + d - 1" by linarith+
  then show "n \<le> (n + d - 1) div d * d" using assms by (simp add: q_def)
  assume "s < (n + d - 1) div d"
  then have "Suc s * d \<le> q * d" unfolding q_def by (intro mult_le_mono1) simp
  then show "s * d < n" using le assms by simp
qed


section \<open>Fixed-width integers in byte order\<close>

text \<open>\<open>encoding/binary\<close>: the value of a run of bytes, and the bytes of a value.\<close>

primrec le_val :: "bytes \<Rightarrow> nat" where
  "le_val [] = 0"
| "le_val (c # cs) = of_char c + 256 * le_val cs"

primrec le_bytes :: "nat \<Rightarrow> nat \<Rightarrow> bytes" where
  "le_bytes 0 v = []"
| "le_bytes (Suc n) v = char_of (v mod 256) # le_bytes n (v div 256)"

definition be_val :: "bytes \<Rightarrow> nat" where
  "be_val b = le_val (rev b)"

definition be_bytes :: "nat \<Rightarrow> nat \<Rightarrow> bytes" where
  "be_bytes n v = rev (le_bytes n v)"

lemma of_char_less_256 [simp]: "of_char c < (256 :: nat)"
  using of_char_mod_256 [of c] by (metis mod_less_divisor zero_less_numeral)

lemma length_le_bytes [simp]: "length (le_bytes n v) = n"
  by (induction n arbitrary: v) simp_all

lemma length_be_bytes [simp]: "length (be_bytes n v) = n"
  by (simp add: be_bytes_def)

lemma le_val_less: "le_val b < 256 ^ length b"
proof (induction b)
  case (Cons c cs)
  have "of_char c < (256 :: nat)" by simp
  then have "of_char c + 256 * le_val cs < 256 * 256 ^ length cs"
    using Cons.IH by linarith
  then show ?case by simp
qed simp

lemma le_val_le_bytes: "le_val (le_bytes n v) = v mod 256 ^ n"
proof (induction n arbitrary: v)
  case (Suc n)
  have "le_val (le_bytes (Suc n) v) = v mod 256 + 256 * (v div 256 mod 256 ^ n)"
    by (simp add: Suc)
  also have "\<dots> = v mod (256 * 256 ^ n)"
    by (simp add: mod_mult2_eq)
  finally show ?case by simp
qed simp

lemma le_bytes_le_val: "length b = n \<Longrightarrow> le_bytes n (le_val b) = b"
proof (induction n arbitrary: b)
  case (Suc n)
  then obtain c cs where b: "b = c # cs" "length cs = n"
    by (cases b) auto
  have "of_char c < (256 :: nat)" by simp
  then show ?case using Suc.IH [OF b(2)] b by simp
qed simp

lemma be_val_be_bytes [simp]: "be_val (be_bytes n v) = v mod 256 ^ n"
  by (simp add: be_val_def be_bytes_def le_val_le_bytes)

lemma be_val_less: "be_val b < 256 ^ length b"
  using le_val_less [of "rev b"] by (simp add: be_val_def)

definition le16 :: "bytes \<Rightarrow> u16" where "le16 b = word_of_nat (le_val (take 2 b))"
definition le32 :: "bytes \<Rightarrow> u32" where "le32 b = word_of_nat (le_val (take 4 b))"
definition le64 :: "bytes \<Rightarrow> u64" where "le64 b = word_of_nat (le_val (take 8 b))"

lemma le_val_take_less: "le_val (take n b) < 256 ^ n"
proof -
  have "le_val (take n b) < 256 ^ length (take n b)" by (rule le_val_less)
  also have "\<dots> \<le> 256 ^ n" by (rule power_increasing) simp_all
  finally show ?thesis .
qed

lemma unat_word_of_nat_less:
  "n < 2 ^ LENGTH('a) \<Longrightarrow> unat (word_of_nat n :: 'a::len word) = n"
  by (simp add: unat_of_nat take_bit_nat_eq_self)

lemma unat_of_nat_u32: "unat (of_nat n :: u32) = n mod 2 ^ 32"
  by (simp add: unat_of_nat take_bit_eq_mod)

lemma of_nat_mod_word32: "(of_nat (v mod 256 ^ 4) :: u32) = of_nat v"
  by (simp add: word_unat_eq_iff unat_of_nat take_bit_eq_mod)

lemma unat_u32_less: "unat (x :: u32) < 2 ^ 32"
  using unsigned_less [where 'a = nat, of x] by simp

lemma unat_u64_less: "unat (x :: u64) < 2 ^ 64"
  using unsigned_less [where 'a = nat, of x] by simp

lemma unat_ucast_u64 [simp]: "unat (ucast (x :: u32) :: u64) = unat x"
proof -
  have "unat x < 2 ^ 64" using unat_u32_less [of x] by (rule less_le_trans) simp
  then have "take_bit 64 (unat x) = unat x" by (rule take_bit_nat_eq_self)
  then show ?thesis by (simp add: unsigned_ucast_eq)
qed

lemma sint_eq_uint64:
  assumes "uint (x :: u64) < 2 ^ 63"
  shows "sint x = uint x"
proof -
  have "- (2 ^ 63) \<le> uint x"
    by (rule order_trans [of _ 0]) simp_all
  then have "signed_take_bit 63 (uint x) = uint x"
    using assms by (intro signed_take_bit_int_eq_self) simp_all
  then show ?thesis by (simp add: sint_uint)
qed

lemma unat_le16: "unat (le16 b) = le_val (take 2 b)"
  unfolding le16_def
  by (rule unat_word_of_nat_less) (rule less_le_trans [OF le_val_take_less], simp)

lemma unat_le32: "unat (le32 b) = le_val (take 4 b)"
  unfolding le32_def
  by (rule unat_word_of_nat_less) (rule less_le_trans [OF le_val_take_less], simp)

lemma unat_le64: "unat (le64 b) = le_val (take 8 b)"
  unfolding le64_def
  by (rule unat_word_of_nat_less) (rule less_le_trans [OF le_val_take_less], simp)


section \<open>Positional readers\<close>

text \<open>
  \<open>io.ReaderAt\<close> as the code uses it: \<open>f.ReadAt(buf, off)\<close> with \<open>len(buf) = n\<close> either fills
  the buffer or reports an error (a negative offset, a read past the end, an I/O error).
  The locale is that contract; \<open>file_reader\<close> is the reader of a file with given content.
\<close>

type_synonym reader = "int \<Rightarrow> nat \<Rightarrow> bytes option"

locale reader_at =
  fixes r :: reader
  assumes read_full: "r off n = Some b \<Longrightarrow> length b = n"
    and read_neg: "off < 0 \<Longrightarrow> r off n = None"
begin

lemma read_nonneg: "r off n = Some b \<Longrightarrow> 0 \<le> off"
  using read_neg [of off n] by (cases "off < 0") auto

end

definition file_reader :: "bytes \<Rightarrow> reader" where
  "file_reader content off n =
     (if off < 0 \<or> nat off + n > length content then None
      else Some (sl content (nat off) (nat off + n)))"

lemma file_reader_eq_Some:
  "file_reader content off n = Some b \<longleftrightarrow>
     0 \<le> off \<and> nat off + n \<le> length content \<and> b = sl content (nat off) (nat off + n)"
  by (cases "off < 0 \<or> nat off + n > length content") (auto simp: file_reader_def)

interpretation rd: reader_at "file_reader content"
proof
  show "length b = n" if "file_reader content off n = Some b" for off n b
    using that by (simp add: file_reader_eq_Some)
  show "file_reader content off n = None" if "off < 0" for off n
    using that by (simp add: file_reader_def)
qed

text \<open>Folds that ignore some elements.\<close>

lemma foldl_filter: "(\<And>a w. w \<in> set ws \<Longrightarrow> \<not> P w \<Longrightarrow> f a w = a) \<Longrightarrow> foldl f a (filter P ws) = foldl f a ws"
  by (induction ws arbitrary: a) auto

lemma foldl_ignore: "(\<And>a w. w \<in> set ws \<Longrightarrow> f a w = a) \<Longrightarrow> foldl f a ws = a"
  by (induction ws) auto

end
