(* ===== verification/Layout.thy ===== *)
theory Layout
  imports Go_Prelude
begin

text \<open>
  \<open>src/internal/layout/layout.go\<close>: the on-disk constants every component agrees on.
\<close>

definition SectorSize :: nat where "SectorSize = 512"
definition Stage1Bytes :: nat where "Stage1Bytes = 440"
definition Stage2LBA :: nat where "Stage2LBA = 34"
definition Stage2Sectors :: nat where "Stage2Sectors = 64"
definition Stage2Bytes :: nat where "Stage2Bytes = Stage2Sectors * SectorSize"

definition ESPDir :: string where "ESPDir = ''EFI/ALPINE''"
definition KernelFile :: string where "KernelFile = ESPDir @ ''/KERNEL''"
definition InitrdFile :: string where "InitrdFile = ESPDir @ ''/INITRD''"
definition CmdlineFile :: string where "CmdlineFile = ESPDir @ ''/CMDLINE''"
definition ConfigFile :: string where "ConfigFile = ESPDir @ ''/config''"
definition AuthorizedKeysFile :: string where "AuthorizedKeysFile = ESPDir @ ''/authorized_keys''"
definition SSHHostEd25519KeyFile :: string where
  "SSHHostEd25519KeyFile = ESPDir @ ''/ssh_host_ed25519_key''"
definition MetadataFile :: string where "MetadataFile = ESPDir @ ''/metadata''"
definition PayloadSumFile :: string where "PayloadSumFile = ESPDir @ ''/CHECKSUM''"
definition BlkSumFile :: string where "BlkSumFile = ESPDir @ ''/BLKSUM''"
definition MemberFile :: string where "MemberFile = ESPDir @ ''/MEMBER''"
definition EFIBootDir :: string where "EFIBootDir = ''EFI/BOOT''"

definition Int13ChunkKey :: string where "Int13ChunkKey = ''alpine-zfsboot.int13chunk''"
definition Int13ChunkDefault :: nat where "Int13ChunkDefault = 16"
definition Int13ChunkMax :: nat where "Int13ChunkMax = 127"
definition CmdlineMaxBytes :: nat where "CmdlineMaxBytes = 511"
definition ESPUUIDsKey :: string where "ESPUUIDsKey = ''alpine-zfsboot.esp-uuids''"
definition ESPSelfKey :: string where "ESPSelfKey = ''alpine-zfsboot.esp-self''"
definition NetMACKey :: string where "NetMACKey = ''alpine-zfsboot.net.mac''"

definition EFILoaderName :: "string \<Rightarrow> string" where
  "EFILoaderName arch =
     (if arch = ''x86_64'' then ''BOOTX64.EFI''
      else if arch = ''aarch64'' then ''BOOTAA64.EFI''
      else '''')"

lemmas layout_defs =
  SectorSize_def Stage1Bytes_def Stage2LBA_def Stage2Sectors_def Stage2Bytes_def

lemmas file_defs =
  ESPDir_def KernelFile_def InitrdFile_def CmdlineFile_def ConfigFile_def AuthorizedKeysFile_def
  SSHHostEd25519KeyFile_def MetadataFile_def PayloadSumFile_def BlkSumFile_def MemberFile_def

text \<open>The names of the files a generation consists of are pairwise different.\<close>

lemma payload_files_distinct:
  "distinct [KernelFile, InitrdFile, CmdlineFile, PayloadSumFile, BlkSumFile, MetadataFile,
     MemberFile, ConfigFile, AuthorizedKeysFile, SSHHostEd25519KeyFile]"
  by (simp add: file_defs)

lemma file_neq:
  "KernelFile \<noteq> InitrdFile" "KernelFile \<noteq> CmdlineFile" "KernelFile \<noteq> PayloadSumFile" "KernelFile \<noteq> BlkSumFile"
  "KernelFile \<noteq> MetadataFile" "InitrdFile \<noteq> CmdlineFile" "InitrdFile \<noteq> PayloadSumFile" "InitrdFile \<noteq> BlkSumFile"
  "InitrdFile \<noteq> MetadataFile" "CmdlineFile \<noteq> PayloadSumFile" "CmdlineFile \<noteq> BlkSumFile" "CmdlineFile \<noteq> MetadataFile"
  "PayloadSumFile \<noteq> BlkSumFile" "PayloadSumFile \<noteq> MetadataFile" "BlkSumFile \<noteq> MetadataFile"
  "InitrdFile \<noteq> KernelFile" "CmdlineFile \<noteq> KernelFile" "PayloadSumFile \<noteq> KernelFile" "BlkSumFile \<noteq> KernelFile"
  "MetadataFile \<noteq> KernelFile" "CmdlineFile \<noteq> InitrdFile" "PayloadSumFile \<noteq> InitrdFile" "BlkSumFile \<noteq> InitrdFile"
  "MetadataFile \<noteq> InitrdFile" "PayloadSumFile \<noteq> CmdlineFile" "BlkSumFile \<noteq> CmdlineFile" "MetadataFile \<noteq> CmdlineFile"
  "BlkSumFile \<noteq> PayloadSumFile" "MetadataFile \<noteq> PayloadSumFile" "MetadataFile \<noteq> BlkSumFile"
  by (simp_all add: file_defs)

end
