(* ===== verification/Esp_Store.thy ===== *)
theory Esp_Store
  imports Layout
begin

text \<open>
  The mounted EFI system partitions as the tool sees them through \<open>os\<close>: named files under a mountpoint,
  and system calls that may fail at any time, before or after they took effect.  The trace records the
  content after every change, so that a crash at any point is a prefix of it, together with the
  messages of failed rollbacks.  On top of it \<open>src/internal/espconfig/espconfig.go\<close>'s durable file
  replacement (\<open>WriteFile\<close>, \<open>VerifyFile\<close>, \<open>WritePayload\<close>, \<open>VerifyPayload\<close>).

  A temporary file made by \<open>os.CreateTemp\<close> has a fresh name and is removed again, so it is not one of
  the named files; permission bits do not exist on FAT and are left out with the warning that a failed
  \<open>chmod\<close> prints.
\<close>

datatype fs_io = FsOk | FsFail | FsFailDone

type_synonym path = "string \<times> string"
type_synonym files = "path \<Rightarrow> bytes option"

datatype happening = Now files | Critical path | Restored

record world =
  files :: files
  fsio :: "fs_io list"
  trace :: "happening list"

definition next_fs :: "world \<Rightarrow> fs_io \<times> world" where
  "next_fs w = (case fsio w of [] \<Rightarrow> (FsOk, w) | x # xs \<Rightarrow> (x, w\<lparr>fsio := xs\<rparr>))"

definition put :: "world \<Rightarrow> path \<Rightarrow> bytes option \<Rightarrow> world" where
  "put w p v = (let f = (files w)(p := v) in w\<lparr>files := f, trace := trace w @ [Now f]\<rparr>)"

definition report :: "world \<Rightarrow> happening \<Rightarrow> world" where
  "report w h = w\<lparr>trace := trace w @ [h]\<rparr>"

text \<open>A call with no effect on the named files, and a change of one file.\<close>

definition fs_call :: "world \<Rightarrow> bool \<times> world" where
  "fs_call w = (let (x, w) = next_fs w in (x = FsOk, w))"

definition fs_set :: "world \<Rightarrow> path \<Rightarrow> bytes option \<Rightarrow> bool \<times> world" where
  "fs_set w p v =
     (let (x, w) = next_fs w in
      case x of FsOk \<Rightarrow> (True, put w p v) | FsFail \<Rightarrow> (False, w) | FsFailDone \<Rightarrow> (False, put w p v))"

datatype read_result = Content bytes | NotExist | ReadError

definition readFile :: "world \<Rightarrow> path \<Rightarrow> read_result \<times> world" where
  "readFile w p =
     (let (x, w) = next_fs w in
      if x \<noteq> FsOk then (ReadError, w)
      else (case files w p of None \<Rightarrow> NotExist | Some b \<Rightarrow> Content b, w))"

text \<open>\<open>os.Remove\<close> with \<open>os.IsNotExist\<close> forgiven, as every caller does.\<close>

definition removeFile :: "world \<Rightarrow> path \<Rightarrow> bool \<times> world" where
  "removeFile w p =
     (let (x, w) = next_fs w in
      case x of
        FsOk \<Rightarrow> (True, if files w p = None then w else put w p None)
      | FsFail \<Rightarrow> (False, w)
      | FsFailDone \<Rightarrow> (False, put w p None))"

datatype write_error = WMkdir | WTemp | WWrite | WSync | WClose | WRename | WDirOpen | WDirSync

definition thenDo :: "'e option \<times> world \<Rightarrow> (world \<Rightarrow> 'e option \<times> world) \<Rightarrow> 'e option \<times> world" where
  "thenDo r k = (case r of (None, w) \<Rightarrow> k w | (Some e, w) \<Rightarrow> (Some e, w))"

definition check :: "'e \<Rightarrow> bool \<times> world \<Rightarrow> 'e option \<times> world" where
  "check e r = (case r of (ok, w) \<Rightarrow> (if ok then None else Some e, w))"

definition WriteFile :: "world \<Rightarrow> path \<Rightarrow> bytes \<Rightarrow> write_error option \<times> world" where
  "WriteFile w p content =
     thenDo (check WMkdir (fs_call w)) (\<lambda>w.
     thenDo (check WTemp (fs_call w)) (\<lambda>w.
     thenDo (check WWrite (fs_call w)) (\<lambda>w.
     thenDo (check WSync (fs_call w)) (\<lambda>w.
     thenDo (check WClose (fs_call w)) (\<lambda>w.
     thenDo (check WRename (fs_set w p (Some content))) (\<lambda>w.
     thenDo (check WDirOpen (fs_call w)) (\<lambda>w.
     check WDirSync (fs_call w))))))))"

datatype verify_file_error = VRead | VDiffers

definition VerifyFile :: "world \<Rightarrow> path \<Rightarrow> bytes \<Rightarrow> verify_file_error option \<times> world" where
  "VerifyFile w p want =
     (case readFile w p of
        (Content got, w) \<Rightarrow> (if got \<noteq> want then Some VDiffers else None, w)
      | (_, w) \<Rightarrow> (Some VRead, w))"

definition mapError :: "('e \<Rightarrow> 'f) \<Rightarrow> 'e option \<times> world \<Rightarrow> 'f option \<times> world" where
  "mapError g r = (map_option g (fst r), snd r)"

fun writeAll :: "world \<Rightarrow> (path \<times> bytes) list \<Rightarrow> (path \<times> write_error) option \<times> world" where
  "writeAll w [] = (None, w)"
| "writeAll w ((p, b) # fs) = thenDo (mapError (Pair p) (WriteFile w p b)) (\<lambda>w. writeAll w fs)"

fun verifyAll :: "world \<Rightarrow> (path \<times> bytes) list \<Rightarrow> (path \<times> verify_file_error) option \<times> world" where
  "verifyAll w [] = (None, w)"
| "verifyAll w ((p, b) # fs) = thenDo (mapError (Pair p) (VerifyFile w p b)) (\<lambda>w. verifyAll w fs)"

definition payloadFiles :: "string \<Rightarrow> bytes \<Rightarrow> bytes \<Rightarrow> bytes \<Rightarrow> (path \<times> bytes) list" where
  "payloadFiles mp kern initrd cmdline =
     [((mp, KernelFile), kern), ((mp, InitrdFile), initrd), ((mp, CmdlineFile), cmdline)]"

definition WritePayload :: "world \<Rightarrow> string \<Rightarrow> bytes \<Rightarrow> bytes \<Rightarrow> bytes \<Rightarrow> (path \<times> write_error) option \<times> world" where
  "WritePayload w mp kern initrd cmdline = writeAll w (payloadFiles mp kern initrd cmdline)"

definition VerifyPayload :: "world \<Rightarrow> string \<Rightarrow> bytes \<Rightarrow> bytes \<Rightarrow> bytes \<Rightarrow> (path \<times> verify_file_error) option \<times> world" where
  "VerifyPayload w mp kern initrd cmdline = verifyAll w (payloadFiles mp kern initrd cmdline)"


section \<open>What a run may leave behind\<close>

definition is_critical :: "happening \<Rightarrow> bool" where
  "is_critical h = (case h of Critical _ \<Rightarrow> True | _ \<Rightarrow> False)"

lemma is_critical_simps [simp]: "\<not> is_critical (Now f)" "is_critical (Critical p)" "\<not> is_critical Restored"
  by (simp_all add: is_critical_def)

definition critical :: "world \<Rightarrow> bool" where
  "critical w \<longleftrightarrow> list_ex is_critical (trace w)"

text \<open>
  \<open>safe I w\<close>: every content the partitions had before the first failed rollback satisfies \<open>I\<close>.  A crash
  leaves one of those contents behind.
\<close>

definition safe :: "(files \<Rightarrow> bool) \<Rightarrow> world \<Rightarrow> bool" where
  "safe I w \<longleftrightarrow> (\<forall>f. Now f \<in> set (takeWhile (\<lambda>h. \<not> is_critical h) (trace w)) \<longrightarrow> I f)"

text \<open>A step that leaves the files alone or changes one of them to a given content.\<close>

definition quiet :: "world \<Rightarrow> world \<Rightarrow> bool" where
  "quiet w w' \<longleftrightarrow> files w' = files w \<and> trace w' = trace w"

definition changed :: "world \<Rightarrow> path \<Rightarrow> bytes option \<Rightarrow> world \<Rightarrow> bool" where
  "changed w p v w' \<longleftrightarrow> files w' = (files w)(p := v) \<and> trace w' = trace w @ [Now ((files w)(p := v))]"

lemma quiet_refl [simp]: "quiet w w"
  by (simp add: quiet_def)

lemma quiet_trans: "quiet w w' \<Longrightarrow> quiet w' w'' \<Longrightarrow> quiet w w''"
  by (simp add: quiet_def)

lemma changed_quiet: "quiet w w' \<Longrightarrow> changed w' p v w'' \<Longrightarrow> changed w p v w''"
  "changed w p v w' \<Longrightarrow> quiet w' w'' \<Longrightarrow> changed w p v w''"
  by (simp_all add: quiet_def changed_def)

lemma next_fs_quiet: "next_fs w = (x, w') \<Longrightarrow> quiet w w'"
  by (auto simp: next_fs_def quiet_def split: list.splits)

lemma fs_call_quiet: "fs_call w = (ok, w') \<Longrightarrow> quiet w w'"
  by (auto simp: fs_call_def Let_def split: prod.splits dest: next_fs_quiet)

lemma readFile_quiet: "readFile w p = (r, w') \<Longrightarrow> quiet w w'"
  by (auto simp: readFile_def Let_def split: prod.splits if_splits dest: next_fs_quiet)

lemma readFile_result:
  "readFile w p = (Content b, w') \<Longrightarrow> files w p = Some b"
  "readFile w p = (NotExist, w') \<Longrightarrow> files w p = None"
  by (auto simp: readFile_def Let_def quiet_def split: prod.splits if_splits option.splits dest!: next_fs_quiet)

lemma put_changed: "quiet w w' \<Longrightarrow> changed w p v (put w' p v)"
  by (simp add: quiet_def changed_def put_def Let_def)

lemma fs_set_cases:
  assumes "fs_set w p v = (ok, w')"
  shows "changed w p v w' \<or> \<not> ok \<and> quiet w w'"
  using assms by (auto simp: fs_set_def Let_def split: prod.splits fs_io.splits dest!: next_fs_quiet intro: put_changed)

lemma removeFile_cases:
  assumes "removeFile w p = (ok, w')"
  shows "changed w p None w' \<or> quiet w w' \<and> (ok \<longrightarrow> files w p = None)"
  using assms
  by (auto simp: removeFile_def Let_def split: prod.splits fs_io.splits if_splits dest!: next_fs_quiet intro: put_changed)
    (simp_all add: quiet_def)

lemma thenDo_simps [simp]: "thenDo (None, w) k = k w" "thenDo (Some e, w) k = (Some e, w)"
  by (simp_all add: thenDo_def)

lemma thenDo_cases:
  assumes "thenDo r k = (e, w')"
  obtains (stop) x where "r = (Some x, w')" "e = Some x" | (go) w1 where "r = (None, w1)" "k w1 = (e, w')"
  using assms by (cases r; cases "fst r") auto

lemma check_simps: "check e r = (None, w) \<longleftrightarrow> r = (True, w)" "check e r = (Some x, w) \<longleftrightarrow> r = (False, w) \<and> x = e"
  by (cases r; auto simp: check_def)+

lemma mapError_simps: "mapError g r = (None, w) \<longleftrightarrow> r = (None, w)" "mapError g r = (Some x, w) \<longleftrightarrow> (\<exists>y. r = (Some y, w) \<and> x = g y)"
  by (cases r; auto simp: mapError_def)+

lemma check_call_quiet: "check e (fs_call w) = (r, w') \<Longrightarrow> quiet w w'"
  by (cases "fs_call w") (auto simp: check_def dest: fs_call_quiet)

text \<open>The last part of replacing a file, and a call before it.\<close>

lemma replace_rename:
  assumes "thenDo (check a (fs_set x p (Some b))) (\<lambda>w. thenDo (check c (fs_call w)) (\<lambda>w. check d (fs_call w))) = (e, w')"
  shows "changed x p (Some b) w' \<or> e \<noteq> None \<and> quiet x w'"
  using assms
proof (cases rule: thenDo_cases)
  case (stop y)
  then show ?thesis using fs_set_cases [of x p "Some b" False w'] by (simp add: check_simps)
next
  case (go w1)
  then have "changed x p (Some b) w1" using fs_set_cases [of x p "Some b" True w1] by (simp add: check_simps)
  moreover have "quiet w1 w'"
    using go(2) by (cases rule: thenDo_cases) (blast intro: quiet_trans dest: check_call_quiet)+
  ultimately show ?thesis by (blast intro: changed_quiet)
qed

lemma replace_call:
  assumes "thenDo (check y (fs_call x)) k = (e, w')"
    and "\<And>z. k z = (e, w') \<Longrightarrow> changed z p (Some b) w' \<or> e \<noteq> None \<and> quiet z w'"
  shows "changed x p (Some b) w' \<or> e \<noteq> None \<and> quiet x w'"
  using assms(1)
proof (cases rule: thenDo_cases)
  case (stop _)
  then show ?thesis using check_call_quiet [OF stop(1)] by simp
next
  case (go w1)
  then show ?thesis using assms(2) [of w1] check_call_quiet [of y x None w1] by (blast intro: changed_quiet quiet_trans)
qed

lemma WriteFile_cases:
  assumes "WriteFile w p b = (e, w')"
  shows "changed w p (Some b) w' \<or> e \<noteq> None \<and> quiet w w'"
  using assms unfolding WriteFile_def by (elim replace_call) (rule replace_rename)

lemma VerifyFile_quiet: "VerifyFile w p want = (e, w') \<Longrightarrow> quiet w w' \<and> (e = None \<longrightarrow> files w p = Some want)"
  by (auto simp: VerifyFile_def split: prod.splits read_result.splits if_splits
      dest: readFile_quiet readFile_result)

lemma verifyAll_quiet: "verifyAll w fs = (e, w') \<Longrightarrow> quiet w w'"
proof (induction w fs rule: verifyAll.induct)
  case (2 w p b fs)
  from 2(2) have "thenDo (mapError (Pair p) (VerifyFile w p b)) (\<lambda>w. verifyAll w fs) = (e, w')" by simp
  then show ?case
  proof (cases rule: thenDo_cases)
    case (stop _)
    then show ?thesis by (auto simp: mapError_simps dest: VerifyFile_quiet)
  next
    case (go w1)
    then have "quiet w w1" by (auto simp: mapError_simps dest: VerifyFile_quiet)
    moreover have "quiet w1 w'" using 2(1) go by blast
    ultimately show ?thesis by (rule quiet_trans)
  qed
qed simp


section \<open>Invariants of the trace\<close>

lemma critical_quiet: "quiet w w' \<Longrightarrow> critical w' = critical w"
  by (simp add: quiet_def critical_def)

lemma safe_quiet: "quiet w w' \<Longrightarrow> safe I w' = safe I w"
  by (simp add: quiet_def safe_def)

lemma critical_changed: "changed w p v w' \<Longrightarrow> critical w' = critical w"
  by (simp add: changed_def critical_def)

lemma takeWhile_quiet_trace:
  "takeWhile (\<lambda>h. \<not> is_critical h) (trace w @ [h]) =
     (if critical w then takeWhile (\<lambda>h. \<not> is_critical h) (trace w)
      else trace w @ (if is_critical h then [] else [h]))"
  unfolding critical_def list_ex_iff by (induction "trace w") (auto simp: takeWhile_append takeWhile_eq_all_conv)

lemma takeWhile_no_critical: "\<not> critical w \<Longrightarrow> takeWhile (\<lambda>h. \<not> is_critical h) (trace w) = trace w"
  by (simp add: critical_def list_ex_iff takeWhile_eq_all_conv)

lemma safe_changed: "changed w p v w' \<Longrightarrow> safe I w' \<longleftrightarrow> safe I w \<and> (critical w \<or> I (files w'))"
  by (cases "critical w") (auto simp: changed_def safe_def takeWhile_quiet_trace takeWhile_no_critical)

lemma report_simps [simp]:
  "files (report w h) = files w" "critical (report w h) \<longleftrightarrow> critical w \<or> is_critical h"
  by (auto simp: report_def critical_def)

lemma safe_report: "(\<And>f. h \<noteq> Now f) \<Longrightarrow> safe I (report w h) = safe I w"
  by (cases "critical w") (auto simp: report_def safe_def takeWhile_quiet_trace takeWhile_no_critical)


section \<open>Replacing and restoring a file\<close>

text \<open>
  What a caller may rely on when it replaces a file: either the new content is in place, or the call
  reported an error and nothing happened.  (It may also report an error although the content is in
  place: the directory could not be synced.)
\<close>

locale file_writer =
  fixes wr :: "world \<Rightarrow> path \<Rightarrow> bytes \<Rightarrow> 'e option \<times> world"
  assumes wr_cases: "wr w p b = (e, w') \<Longrightarrow> changed w p (Some b) w' \<or> e \<noteq> None \<and> quiet w w'"
begin

lemma wr_ok: "wr w p b = (None, w') \<Longrightarrow> files w' = (files w)(p \<mapsto> b)"
  using wr_cases [of w p b None w'] by (auto simp: changed_def)

lemma wr_frame: "wr w p b = (e, w') \<Longrightarrow> q \<noteq> p \<Longrightarrow> files w' q = files w q"
  using wr_cases [of w p b e w'] by (auto simp: changed_def quiet_def)

lemma wr_critical: "wr w p b = (e, w') \<Longrightarrow> critical w' = critical w"
  using wr_cases [of w p b e w'] by (auto simp: critical_changed critical_quiet)

lemma wr_safe:
  assumes "wr w p b = (e, w')" "safe I w" "I ((files w)(p \<mapsto> b))"
  shows "safe I w'"
  using wr_cases [OF assms(1)] assms(2,3) by (auto simp: safe_changed safe_quiet changed_def)

end

interpretation wf: file_writer WriteFile
  by unfold_locales (rule WriteFile_cases)

text \<open>
  The \<open>restore\<close> closures of the rollbacks in \<open>src/cmd/tool/main.go\<close>: a file that did not exist before
  is removed, any other is written back; a failure is reported as critical.
\<close>

definition restoreFile :: "world \<Rightarrow> path \<Rightarrow> bytes option \<Rightarrow> bool \<times> world" where
  "restoreFile w p want =
     (case want of
        None \<Rightarrow> (case removeFile w p of (ok, w) \<Rightarrow> (ok, if ok then w else report w (Critical p)))
      | Some b \<Rightarrow>
          (case WriteFile w p b of
             (None, w) \<Rightarrow> (True, w)
           | (Some _, w) \<Rightarrow> (False, report w (Critical p))))"

lemma restoreFile_cases:
  assumes "restoreFile w p want = (ok, w')"
  obtains x where "changed w p want x \<or> quiet w x \<and> (ok \<longrightarrow> files w p = want)"
    "w' = (if ok then x else report x (Critical p))"
proof (cases want)
  case None
  obtain ok' x where r: "removeFile w p = (ok', x)" by (cases "removeFile w p")
  then have "ok' = ok" "w' = (if ok then x else report x (Critical p))"
    using assms by (auto simp: restoreFile_def None)
  moreover have "changed w p want x \<or> quiet w x \<and> (ok \<longrightarrow> files w p = want)"
    using removeFile_cases [OF r] \<open>ok' = ok\<close> None by simp
  ultimately show ?thesis using that by blast
next
  case (Some b)
  obtain e x where r: "WriteFile w p b = (e, x)" by (cases "WriteFile w p b")
  then have "ok \<longleftrightarrow> e = None" "w' = (if ok then x else report x (Critical p))"
    using assms by (auto simp: restoreFile_def Some split: option.splits)
  moreover have "changed w p want x \<or> quiet w x \<and> (ok \<longrightarrow> files w p = want)"
    using WriteFile_cases [OF r] \<open>ok \<longleftrightarrow> e = None\<close> Some by auto
  ultimately show ?thesis using that by blast
qed

lemma restoreFile_ok: "restoreFile w p want = (True, w') \<Longrightarrow> files w' = (files w)(p := want)"
  by (erule restoreFile_cases) (auto simp: changed_def quiet_def)

lemma restoreFile_frame: "restoreFile w p want = (ok, w') \<Longrightarrow> q \<noteq> p \<Longrightarrow> files w' q = files w q"
  by (erule restoreFile_cases) (auto simp: changed_def quiet_def)

lemma restoreFile_critical: "restoreFile w p want = (ok, w') \<Longrightarrow> critical w' \<longleftrightarrow> critical w \<or> \<not> ok"
  by (erule restoreFile_cases) (auto simp: critical_changed critical_quiet)

lemma restoreFile_safe:
  assumes "restoreFile w p want = (ok, w')" "safe I w" "critical w \<or> I ((files w)(p := want))"
  shows "safe I w'"
  using assms(1)
proof (rule restoreFile_cases)
  fix x
  assume x: "changed w p want x \<or> quiet w x \<and> (ok \<longrightarrow> files w p = want)" "w' = (if ok then x else report x (Critical p))"
  have "safe I x" using x(1) assms(2,3) by (auto simp: safe_changed safe_quiet changed_def)
  then show ?thesis using x(2) by (simp add: safe_report)
qed

text \<open>A sequence of restores; every one is tried, and the flag says whether all of them worked.\<close>

fun restoreAll :: "world \<Rightarrow> (path \<times> bytes option) list \<Rightarrow> bool \<times> world" where
  "restoreAll w [] = (True, w)"
| "restoreAll w ((p, v) # rs) =
     (case restoreFile w p v of (ok, w) \<Rightarrow> case restoreAll w rs of (ok', w) \<Rightarrow> (ok \<and> ok', w))"

definition setFile :: "files \<Rightarrow> path \<times> bytes option \<Rightarrow> files" where
  "setFile F pv = F(fst pv := snd pv)"

lemma setFile_pair [simp]: "setFile F (p, v) = F(p := v)"
  by (simp add: setFile_def)

lemma restoreAll_Cons:
  assumes "restoreAll w ((p, v) # rs) = (ok, w')"
  obtains ok1 w1 ok2 where "restoreFile w p v = (ok1, w1)" "restoreAll w1 rs = (ok2, w')" "ok \<longleftrightarrow> ok1 \<and> ok2"
  using assms by (cases "restoreFile w p v"; cases "restoreAll (snd (restoreFile w p v)) rs") auto

lemma restoreAll_critical: "restoreAll w rs = (ok, w') \<Longrightarrow> critical w' \<longleftrightarrow> critical w \<or> \<not> ok"
proof (induction rs arbitrary: w ok)
  case (Cons r rs)
  obtain p v where r: "r = (p, v)" by (cases r)
  from Cons.prems show ?case unfolding r
    by (elim restoreAll_Cons) (auto dest!: restoreFile_critical Cons.IH)
qed simp

lemma restoreAll_ok: "restoreAll w rs = (True, w') \<Longrightarrow> files w' = foldl setFile (files w) rs"
proof (induction rs arbitrary: w)
  case (Cons r rs)
  obtain p v where r: "r = (p, v)" by (cases r)
  from Cons.prems show ?case unfolding r
    by (elim restoreAll_Cons) (auto dest!: restoreFile_ok Cons.IH)
qed simp

lemma restoreAll_frame:
  "restoreAll w rs = (ok, w') \<Longrightarrow> q \<notin> fst ` set rs \<Longrightarrow> files w' q = files w q"
proof (induction rs arbitrary: w ok)
  case (Cons r rs)
  obtain p v where r: "r = (p, v)" by (cases r)
  from Cons.prems show ?case unfolding r
    by (elim restoreAll_Cons) (auto dest!: restoreFile_frame Cons.IH)
qed simp

text \<open>Restores that keep away from a file whose absence makes every content acceptable.\<close>

lemma restoreAll_safe:
  assumes "restoreAll w rs = (ok, w')" "q \<notin> fst ` set rs" "\<And>f. f q = None \<Longrightarrow> I f" "safe I w" "critical w \<or> files w q = None"
  shows "safe I w' \<and> (critical w' \<or> files w' q = None)"
  using assms(1,2,4,5)
proof (induction rs arbitrary: w ok)
  case (Cons r rs)
  obtain p v where r: "r = (p, v)" by (cases r)
  from Cons.prems(1) [unfolded r] show ?case
  proof (rule restoreAll_Cons)
    fix ok1 w1 ok2
    assume a: "restoreFile w p v = (ok1, w1)" "restoreAll w1 rs = (ok2, w')"
    have pq: "q \<noteq> p" "q \<notin> fst ` set rs" using Cons.prems(2) r by auto
    have "critical w \<or> I ((files w)(p := v))" using Cons.prems(4) pq assms(3) by auto
    from restoreFile_safe [OF a(1) Cons.prems(3) this]
    have s1: "safe I w1" .
    have "critical w1 \<or> files w1 q = None"
      using Cons.prems(4) restoreFile_critical [OF a(1)] restoreFile_frame [OF a(1) pq(1)] by auto
    then show ?thesis by (rule Cons.IH [OF a(2) pq(2) s1])
  qed
qed simp


section \<open>A disk that works\<close>

text \<open>With no failure to come, every call does what it is asked to.\<close>

lemma calm_put [simp]: "fsio (put w p v) = fsio w" "files (put w p v) = (files w)(p := v)"
  by (simp_all add: put_def Let_def)

lemma calm_report [simp]: "fsio (report w h) = fsio w"
  by (simp add: report_def)

lemma calm_calls:
  assumes "fsio w = []"
  shows "fs_call w = (True, w)" "fs_set w p v = (True, put w p v)"
    "readFile w p = (case files w p of None \<Rightarrow> NotExist | Some b \<Rightarrow> Content b, w)"
    "removeFile w p = (True, if files w p = None then w else put w p None)"
  using assms by (simp_all add: next_fs_def fs_call_def fs_set_def readFile_def removeFile_def split: option.split)

lemma calm_WriteFile: "fsio w = [] \<Longrightarrow> WriteFile w p b = (None, put w p (Some b))"
  by (simp add: WriteFile_def calm_calls check_def)

lemma calm_VerifyFile: "fsio w = [] \<Longrightarrow> files w p = Some b \<Longrightarrow> VerifyFile w p b = (None, w)"
  by (simp add: VerifyFile_def calm_calls)

lemmas calm = calm_calls calm_WriteFile calm_VerifyFile


section \<open>Runs as sequences of changes\<close>

text \<open>
  \<open>evolves R w w'\<close>: the run from \<open>w\<close> to \<open>w'\<close> consists of changes of the files that \<open>R\<close> allows, and of
  messages.  An invariant of the allowed changes holds of every content on the way.
\<close>

definition changedTo :: "world \<Rightarrow> files \<Rightarrow> world \<Rightarrow> bool" where
  "changedTo w g w' \<longleftrightarrow> files w' = g \<and> trace w' = trace w @ [Now g]"

inductive evolves :: "(files \<Rightarrow> files \<Rightarrow> bool) \<Rightarrow> world \<Rightarrow> world \<Rightarrow> bool" for R where
  start: "quiet w w' \<Longrightarrow> evolves R w w'"
| change: "evolves R w x \<Longrightarrow> changedTo x g y \<Longrightarrow> R (files x) g \<Longrightarrow> evolves R w y"
| silent: "evolves R w x \<Longrightarrow> quiet x y \<Longrightarrow> evolves R w y"
| message: "evolves R w x \<Longrightarrow> (\<And>f. h \<noteq> Now f) \<Longrightarrow> evolves R w (report x h)"

lemma evolves_trans: "evolves R x y \<Longrightarrow> evolves R w x \<Longrightarrow> evolves R w y"
  by (induction rule: evolves.induct) (auto intro: evolves.intros)

lemma evolves_invariant:
  assumes "evolves R w w'" "\<And>f g. I f \<Longrightarrow> R f g \<Longrightarrow> I g" "I (files w)"
  shows "I (files w') \<and> (\<exists>t. trace w' = trace w @ t \<and> (\<forall>f. Now f \<in> set t \<longrightarrow> I f))"
  using assms(1,3)
proof (induction rule: evolves.induct)
  case (start w w')
  then show ?case by (simp add: quiet_def)
next
  case (change w x g y)
  then obtain t where t: "I (files x)" "trace x = trace w @ t" "\<forall>f. Now f \<in> set t \<longrightarrow> I f" by blast
  have g: "files y = g" "trace y = trace w @ t @ [Now g]" using change(2) t(2) by (simp_all add: changedTo_def)
  have "I g" using assms(2) t(1) change(3) .
  then show ?case using g t(3) by (intro conjI exI [of _ "t @ [Now g]"]) auto
next
  case (silent w x y)
  then show ?case by (simp add: quiet_def)
next
  case (message w x h)
  then obtain t where "I (files x)" "trace x = trace w @ t" "\<forall>f. Now f \<in> set t \<longrightarrow> I f" by blast
  then show ?case using message(2) by (intro conjI exI [of _ "t @ [h]"]) (auto simp: report_def)
qed

lemma changed_changedTo: "changed w p v w' \<longleftrightarrow> changedTo w ((files w)(p := v)) w'"
  by (simp add: changed_def changedTo_def)

lemma evolves_set: "changed w p v w' \<or> quiet w w' \<Longrightarrow> R (files w) ((files w)(p := v)) \<Longrightarrow> evolves R w w'"
  using evolves.change [OF evolves.start [OF quiet_refl], of w "(files w)(p := v)" w' R] evolves.start [of w w' R]
  by (auto simp only: changed_changedTo)

lemma evolves_WriteFile: "WriteFile w p b = (e, w') \<Longrightarrow> R (files w) ((files w)(p \<mapsto> b)) \<Longrightarrow> evolves R w w'"
  using evolves_set [of w p "Some b" w' R] WriteFile_cases [of w p b e w'] by blast

lemma evolves_removeFile: "removeFile w p = (ok, w') \<Longrightarrow> R (files w) ((files w)(p := None)) \<Longrightarrow> evolves R w w'"
  using evolves_set [of w p None w' R] removeFile_cases [of w p ok w'] by blast

lemma evolves_restoreFile: "restoreFile w p v = (ok, w') \<Longrightarrow> R (files w) ((files w)(p := v)) \<Longrightarrow> evolves R w w'"
proof (erule restoreFile_cases)
  fix x
  assume x: "changed w p v x \<or> quiet w x \<and> (ok \<longrightarrow> files w p = v)" "w' = (if ok then x else report x (Critical p))"
    "R (files w) ((files w)(p := v))"
  then have "evolves R w x" using evolves_set [of w p v x R] by blast
  then show "evolves R w w'" using x(2) by (auto intro: evolves.message)
qed

lemma evolves_restoreAll:
  assumes "restoreAll w rs = (ok, w')" "\<And>f p v. (p, v) \<in> set rs \<Longrightarrow> R f (f(p := v))"
  shows "evolves R w w'"
  using assms
proof (induction rs arbitrary: w ok)
  case (Cons r rs)
  obtain p v where r: "r = (p, v)" by (cases r)
  from Cons.prems(1) [unfolded r] show ?case
  proof (rule restoreAll_Cons)
    fix ok1 w1 ok2
    assume a: "restoreFile w p v = (ok1, w1)" "restoreAll w1 rs = (ok2, w')"
    have "evolves R w w1" by (rule evolves_restoreFile [OF a(1)], rule Cons.prems(2)) (simp add: r)
    moreover have "evolves R w1 w'" by (rule Cons.IH [OF a(2)], rule Cons.prems(2)) simp
    ultimately show ?thesis using evolves_trans by blast
  qed
qed (simp add: evolves.start)

lemma evolves_mono: "evolves R w w' \<Longrightarrow> (\<And>f g. R f g \<Longrightarrow> R' f g) \<Longrightarrow> evolves R' w w'"
  by (induction rule: evolves.induct) (auto intro: evolves.intros)

text \<open>Runs that change one file only.\<close>

definition onlyAt :: "path \<Rightarrow> files \<Rightarrow> files \<Rightarrow> bool" where
  "onlyAt p f g \<longleftrightarrow> (\<exists>v. g = f(p := v))"

lemma onlyAt_upd [simp, intro]: "onlyAt p f (f(p := v))"
  by (auto simp: onlyAt_def)

lemma evolves_onlyAt: "evolves (onlyAt p) w w' \<Longrightarrow> q \<noteq> p \<Longrightarrow> files w' q = files w q"
proof -
  assume e: "evolves (onlyAt p) w w'" and q: "q \<noteq> p"
  have "files w' q = files w q \<and> (\<exists>t. trace w' = trace w @ t \<and> (\<forall>f. Now f \<in> set t \<longrightarrow> f q = files w q))"
    by (rule evolves_invariant [OF e, of "\<lambda>f. f q = files w q"]) (use q in \<open>auto simp: onlyAt_def\<close>)
  then show ?thesis by blast
qed

lemma fs_set_evolves: "fs_set w p v = (ok, w') \<Longrightarrow> evolves (onlyAt p) w w' \<and> (ok \<longrightarrow> files w' p = v)"
  using fs_set_cases [of w p v ok w'] evolves_set [of w p v w' "onlyAt p"] by (auto simp: changed_def)

lemma removeFile_evolves: "evolves (onlyAt p) w (snd (removeFile w p))"
  by (cases "removeFile w p") (auto intro: evolves_removeFile)

lemma fs_call_evolves: "fs_call w = (ok, w') \<Longrightarrow> evolves R w w' \<and> files w' = files w"
  using fs_call_quiet [of w ok w'] by (auto simp: quiet_def intro: evolves.start)

end
