(* ===== verification/Go_Strings.thy ===== *)
theory Go_Strings
  imports Go_Prelude
begin

text \<open>
  What the sources use of Go's \<open>strings\<close>, \<open>bytes\<close>, \<open>strconv\<close> and \<open>encoding/hex\<close>, over byte
  strings, with the round-trip laws the codecs of the components rest on.
\<close>

abbreviation NL :: char where "NL \<equiv> CHR 0x0A"
abbreviation SP :: char where "SP \<equiv> CHR 0x20"
abbreviation NUL :: char where "NUL \<equiv> CHR 0x00"


section \<open>Split, join, cut\<close>

text \<open>\<open>strings.Split(s, sep)\<close> for a one-byte separator, and \<open>strings.Join\<close>.\<close>

fun split_on :: "char \<Rightarrow> string \<Rightarrow> string list" where
  "split_on c [] = [[]]"
| "split_on c (x # xs) =
     (if x = c then [] # split_on c xs
      else case split_on c xs of [] \<Rightarrow> [[x]] | y # ys \<Rightarrow> (x # y) # ys)"

fun join_with :: "string \<Rightarrow> string list \<Rightarrow> string" where
  "join_with sep [] = []"
| "join_with sep [x] = x"
| "join_with sep (x # y # ys) = x @ sep @ join_with sep (y # ys)"

definition hasPrefix :: "string \<Rightarrow> string \<Rightarrow> bool" where
  "hasPrefix s p = (take (length p) s = p)"

definition hasSuffix :: "string \<Rightarrow> string \<Rightarrow> bool" where
  "hasSuffix s p = (length p \<le> length s \<and> drop (length s - length p) s = p)"

definition trimPrefix :: "string \<Rightarrow> string \<Rightarrow> string" where
  "trimPrefix s p = (if hasPrefix s p then drop (length p) s else s)"

definition cutPrefix :: "string \<Rightarrow> string \<Rightarrow> string option" where
  "cutPrefix s p = (if hasPrefix s p then Some (drop (length p) s) else None)"

definition trimSuffix :: "string \<Rightarrow> string \<Rightarrow> string" where
  "trimSuffix s p = (if hasSuffix s p then take (length s - length p) s else s)"

text \<open>\<open>bytes.Index\<close>: the first position at which \<open>p\<close> occurs.\<close>

fun indexOf :: "string \<Rightarrow> string \<Rightarrow> nat option" where
  "indexOf [] p = (if p = [] then Some 0 else None)"
| "indexOf (x # xs) p = (if hasPrefix (x # xs) p then Some 0 else map_option Suc (indexOf xs p))"

definition indexAny :: "char set \<Rightarrow> string \<Rightarrow> nat option" where
  "indexAny cs s = find (\<lambda>i. s ! i \<in> cs) [0..<length s]"

text \<open>\<open>strings.Cut(s, sep)\<close>: the text before and after the first separator, when there is one.\<close>

definition cut :: "string \<Rightarrow> string \<Rightarrow> (string \<times> string) option" where
  "cut s sep = map_option (\<lambda>i. (take i s, drop (i + length sep) s)) (indexOf s sep)"

function replaceAll :: "string \<Rightarrow> string \<Rightarrow> string \<Rightarrow> string" where
  "replaceAll old new s =
     (if old = [] \<or> s = [] then s
      else if hasPrefix s old then new @ replaceAll old new (drop (length old) s)
      else hd s # replaceAll old new (tl s))"
  by pat_completeness auto
termination
  by (relation "measure (\<lambda>(old, new, s). length s)") auto

declare replaceAll.simps [simp del]

lemma split_on_nonempty [simp]: "split_on c s \<noteq> []"
  by (induction s) (auto split: list.splits)

lemma join_split [simp]: "join_with [c] (split_on c s) = s"
proof (induction s)
  case (Cons x xs)
  obtain y ys where y: "split_on c xs = y # ys" by (cases "split_on c xs") auto
  with Cons show ?case by (cases ys) auto
qed simp

lemma split_on_sep: "split_on c (a @ c # b) = split_on c a @ split_on c b"
proof (induction a)
  case (Cons x xs)
  then show ?case by (cases "split_on c xs") auto
qed simp

lemma split_on_no_sep: "c \<notin> set s \<Longrightarrow> split_on c s = [s]"
  by (induction s) auto

lemma split_on_append: "c \<notin> set x \<Longrightarrow> split_on c (x @ c # s) = x # split_on c s"
  by (induction x) auto

lemma split_join:
  assumes "xs \<noteq> []" "\<And>x. x \<in> set xs \<Longrightarrow> c \<notin> set x"
  shows "split_on c (join_with [c] xs) = xs"
  using assms
proof (induction "[c]" xs rule: join_with.induct)
  case (3 x y ys)
  then show ?case by (simp add: split_on_append)
qed (simp_all add: split_on_no_sep)

lemma last_join:
  "xs \<noteq> [] \<Longrightarrow> last xs \<noteq> [] \<Longrightarrow> join_with sep xs \<noteq> [] \<and> last (join_with sep xs) = last (last xs)"
  by (induction sep xs rule: join_with.induct) auto

lemma split_on_parts: "x \<in> set (split_on c s) \<Longrightarrow> c \<notin> set x"
proof (induction s arbitrary: x)
  case (Cons a s)
  then show ?case by (cases "split_on c s") (auto split: if_splits)
qed simp

lemma split_on_subset: "x \<in> set (split_on c s) \<Longrightarrow> set x \<subseteq> set s"
proof (induction s arbitrary: x)
  case (Cons a s)
  obtain y ys where y: "split_on c s = y # ys" by (cases "split_on c s") auto
  show ?case
  proof (cases "a = c")
    case True
    then show ?thesis using Cons by auto
  next
    case False
    then have "x = a # y \<or> x \<in> set ys" using Cons.prems y by auto
    then show ?thesis using Cons.IH [of y] Cons.IH [of x] y by auto
  qed
qed simp

lemma hasPrefix_append [simp]: "hasPrefix (p @ s) p"
  by (simp add: hasPrefix_def)

lemma hasPrefix_iff: "hasPrefix s p \<longleftrightarrow> (\<exists>t. s = p @ t)"
  by (auto simp: hasPrefix_def) (metis append_take_drop_id)

lemma hasSuffix_iff: "hasSuffix s p \<longleftrightarrow> (\<exists>t. s = t @ p)"
proof
  assume "hasSuffix s p"
  then have "s = take (length s - length p) s @ p"
    by (metis append_take_drop_id hasSuffix_def)
  then show "\<exists>t. s = t @ p" by blast
qed (auto simp: hasSuffix_def)

lemma cutPrefix_append [simp]: "cutPrefix (p @ s) p = Some s"
  by (simp add: cutPrefix_def)

lemma indexOf_Some:
  "indexOf s p = Some i \<Longrightarrow> hasPrefix (drop i s) p \<and> i \<le> length s \<and> (\<forall>j < i. \<not> hasPrefix (drop j s) p)"
proof (induction s p arbitrary: i rule: indexOf.induct)
  case (1 p)
  then show ?case by (auto simp: hasPrefix_def split: if_splits)
next
  case (2 x xs p)
  show ?case
  proof (cases "hasPrefix (x # xs) p")
    case True
    with 2 show ?thesis by auto
  next
    case False
    with 2 obtain k where k: "indexOf xs p = Some k" "i = Suc k" by auto
    with 2 False have "\<forall>j < k. \<not> hasPrefix (drop j xs) p" by blast
    then have "\<not> hasPrefix (drop j (x # xs)) p" if "j < i" for j
      using that False k(2) by (cases j) auto
    with 2 False k show ?thesis by auto
  qed
qed

lemma indexOf_None: "indexOf s p = None \<longleftrightarrow> (\<forall>i \<le> length s. \<not> hasPrefix (drop i s) p)"
proof (induction s p rule: indexOf.induct)
  case (1 p)
  then show ?case by (auto simp: hasPrefix_def)
next
  case (2 x xs p)
  show ?case
  proof (cases "hasPrefix (x # xs) p")
    case True
    then show ?thesis by (auto intro: exI [of _ 0])
  next
    case False
    have "(\<forall>i \<le> length (x # xs). \<not> hasPrefix (drop i (x # xs)) p) \<longleftrightarrow> (\<forall>i \<le> length xs. \<not> hasPrefix (drop i xs) p)"
      (is "?l = ?r")
    proof
      assume ?l
      then show ?r by (metis Suc_le_mono drop_Suc_Cons length_Cons)
    next
      assume r: ?r
      show ?l
      proof (intro allI impI)
        fix i assume "i \<le> length (x # xs)"
        then show "\<not> hasPrefix (drop i (x # xs)) p" using r False by (cases i) auto
      qed
    qed
    with 2 False show ?thesis by simp
  qed
qed


section \<open>White space\<close>

text \<open>
  \<open>unicode.IsSpace\<close> over UTF-8: the number of bytes of the white-space rune \<open>s\<close> begins with, 0 when
  it begins with none.  The multi-byte encodings begin with a byte that never continues another
  rune, so scanning byte by byte finds exactly the white space that decoding rune by rune finds.
\<close>

definition ascii_space :: "char \<Rightarrow> bool" where
  "ascii_space c \<longleftrightarrow> c = CHR 0x20 \<or> c = CHR 0x09 \<or> c = CHR 0x0A \<or> c = CHR 0x0B \<or> c = CHR 0x0C \<or> c = CHR 0x0D"

definition wide_spaces :: "string list" where
  "wide_spaces =
     [[CHR 0xC2, CHR 0x85], [CHR 0xC2, CHR 0xA0], [CHR 0xE1, CHR 0x9A, CHR 0x80],
      [CHR 0xE2, CHR 0x80, CHR 0x80], [CHR 0xE2, CHR 0x80, CHR 0x81], [CHR 0xE2, CHR 0x80, CHR 0x82],
      [CHR 0xE2, CHR 0x80, CHR 0x83], [CHR 0xE2, CHR 0x80, CHR 0x84], [CHR 0xE2, CHR 0x80, CHR 0x85],
      [CHR 0xE2, CHR 0x80, CHR 0x86], [CHR 0xE2, CHR 0x80, CHR 0x87], [CHR 0xE2, CHR 0x80, CHR 0x88],
      [CHR 0xE2, CHR 0x80, CHR 0x89], [CHR 0xE2, CHR 0x80, CHR 0x8A], [CHR 0xE2, CHR 0x80, CHR 0xA8],
      [CHR 0xE2, CHR 0x80, CHR 0xA9], [CHR 0xE2, CHR 0x80, CHR 0xAF], [CHR 0xE2, CHR 0x81, CHR 0x9F],
      [CHR 0xE3, CHR 0x80, CHR 0x80]]"

definition space_len :: "string \<Rightarrow> nat" where
  "space_len s =
     (case s of
        [] \<Rightarrow> 0
      | c # _ \<Rightarrow>
          if ascii_space c then 1
          else case find (hasPrefix s) wide_spaces of Some w \<Rightarrow> length w | None \<Rightarrow> 0)"

definition space_len_end :: "string \<Rightarrow> nat" where
  "space_len_end s =
     (if s = [] then 0
      else if ascii_space (last s) then 1
      else case find (hasSuffix s) wide_spaces of Some w \<Rightarrow> length w | None \<Rightarrow> 0)"

function fields_from :: "string \<Rightarrow> string \<Rightarrow> string list" where
  "fields_from cur s =
     (if s = [] then (if cur = [] then [] else [rev cur])
      else if space_len s > 0 then
        (if cur = [] then [] else [rev cur]) @ fields_from [] (drop (space_len s) s)
      else fields_from (hd s # cur) (tl s))"
  by pat_completeness auto
termination
  by (relation "measure (\<lambda>(cur, s). length s)") auto

declare fields_from.simps [simp del]

definition Fields :: "string \<Rightarrow> string list" where
  "Fields s = fields_from [] s"

function trimLeftSpace :: "string \<Rightarrow> string" where
  "trimLeftSpace s =
     (if space_len s > 0 \<and> s \<noteq> [] then trimLeftSpace (drop (space_len s) s) else s)"
  by pat_completeness auto
termination
  by (relation "measure length") auto

declare trimLeftSpace.simps [simp del]

function trimRightSpace :: "string \<Rightarrow> string" where
  "trimRightSpace s =
     (if space_len_end s > 0 \<and> s \<noteq> [] then trimRightSpace (take (length s - space_len_end s) s) else s)"
  by pat_completeness auto
termination
  by (relation "measure length") auto

declare trimRightSpace.simps [simp del]

definition trimSpace :: "string \<Rightarrow> string" where
  "trimSpace s = trimRightSpace (trimLeftSpace s)"

text \<open>A word: not empty, and no white space begins anywhere in it.\<close>

definition word :: "string \<Rightarrow> bool" where
  "word w \<longleftrightarrow> w \<noteq> [] \<and> (\<forall>i < length w. space_len (drop i w) = 0)"

lemma space_len_Nil [simp]: "space_len [] = 0"
  by (simp add: space_len_def)

lemma space_len_ascii: "ascii_space c \<Longrightarrow> space_len (c # s) = 1"
  by (simp add: space_len_def)

lemma wide_nonempty: "w \<in> set wide_spaces \<Longrightarrow> w \<noteq> [] \<and> (\<forall>c \<in> set w. \<not> ascii_space c)"
  unfolding wide_spaces_def ascii_space_def by auto

lemma space_len_zero:
  "space_len (c # s) = 0 \<longleftrightarrow> \<not> ascii_space c \<and> (\<forall>w \<in> set wide_spaces. \<not> hasPrefix (c # s) w)"
proof (cases "find (hasPrefix (c # s)) wide_spaces")
  case None
  then have "\<forall>w \<in> set wide_spaces. \<not> hasPrefix (c # s) w" by (auto simp: find_None_iff)
  with None show ?thesis by (simp add: space_len_def)
next
  case (Some w)
  then have "w \<in> set wide_spaces" "hasPrefix (c # s) w" by (auto simp: find_Some_iff)
  with wide_nonempty [of w] Some show ?thesis by (auto simp: space_len_def)
qed

lemma hasPrefix_mono: "hasPrefix u w \<Longrightarrow> hasPrefix (u @ r) w"
  by (auto simp: hasPrefix_iff)

lemma hasPrefix_before:
  assumes "hasPrefix (u @ c # r) w" "c \<notin> set w"
  shows "hasPrefix u w"
proof -
  from assms(1) obtain t where t: "u @ c # r = w @ t" by (auto simp: hasPrefix_iff)
  then consider v where "u = w @ v" | v where "w = u @ v" "c # r = v @ t"
    by (auto simp: append_eq_append_conv2)
  then show ?thesis
  proof cases
    case 2
    then have "v = []" using assms(2) by (cases v) auto
    with 2 show ?thesis by (simp add: hasPrefix_iff)
  qed (simp add: hasPrefix_iff)
qed

lemma space_len_prefix: "u \<noteq> [] \<Longrightarrow> space_len (u @ r) = 0 \<Longrightarrow> space_len u = 0"
  using hasPrefix_mono [of u _ r] by (cases u) (auto simp: space_len_zero)

lemma space_len_extend:
  assumes "u \<noteq> []" "space_len u = 0" "ascii_space c"
  shows "space_len (u @ c # r) = 0"
proof -
  obtain x xs where u: "u = x # xs" using assms(1) by (cases u) auto
  have "\<not> hasPrefix (u @ c # r) w" if "w \<in> set wide_spaces" for w
    using that assms(2,3) hasPrefix_before [of u c r w] wide_nonempty [OF that]
    unfolding u by (auto simp: space_len_zero)
  then show ?thesis using assms(2) unfolding u by (auto simp: space_len_zero)
qed

lemma fields_from_word:
  "(\<forall>i < length w. space_len (drop i w @ s) = 0) \<Longrightarrow> fields_from cur (w @ s) = fields_from (rev w @ cur) s"
proof (induction w arbitrary: cur)
  case (Cons x w)
  have "space_len (x # w @ s) = 0" using Cons.prems by (auto dest: spec [of _ 0])
  then have "fields_from cur ((x # w) @ s) = fields_from (x # cur) (w @ s)"
    by (subst fields_from.simps) simp
  also have "\<dots> = fields_from (rev w @ x # cur) s"
    using Cons.prems by (intro Cons.IH) (auto dest: spec [of _ "Suc _"])
  finally show ?case by simp
qed simp

lemma fields_word: "word w \<Longrightarrow> Fields w = [w]"
  using fields_from_word [of w "[]" "[]"] by (simp add: Fields_def word_def fields_from.simps)

lemma fields_word_space: "word w \<Longrightarrow> Fields (w @ CHR '' '' # s) = w # Fields s"
proof -
  assume w: "word w"
  have "\<forall>i < length w. space_len (drop i w @ CHR '' '' # s) = 0"
    using w by (auto simp: word_def ascii_space_def intro!: space_len_extend)
  from fields_from_word [OF this, of "[]"] have "Fields (w @ CHR '' '' # s) = fields_from (rev w) (CHR '' '' # s)"
    by (simp add: Fields_def)
  also have "\<dots> = w # Fields s"
    using w by (subst fields_from.simps) (simp add: space_len_ascii ascii_space_def word_def Fields_def)
  finally show ?thesis .
qed

lemma fields_join: "(\<And>w. w \<in> set ws \<Longrightarrow> word w) \<Longrightarrow> Fields (join_with '' '' ws) = ws"
proof (induction "'' ''" ws rule: join_with.induct)
  case 1
  show ?case by (simp add: Fields_def fields_from.simps)
next
  case (3 x y ys)
  then show ?case by (simp add: fields_word_space)
qed (simp add: fields_word)

lemma fields_from_words:
  "(\<forall>i < length cur. space_len (drop i (rev cur) @ s) = 0) \<Longrightarrow> w \<in> set (fields_from cur s) \<Longrightarrow> word w"
proof (induction cur s rule: fields_from.induct)
  case (1 cur s)
  have cur: "word (rev cur)" if "cur \<noteq> []"
    unfolding word_def
  proof (intro conjI allI impI)
    fix i assume i: "i < length (rev cur)"
    then have "space_len (drop i (rev cur) @ s) = 0" using "1.prems"(1) by simp
    from space_len_prefix [OF _ this] i show "space_len (drop i (rev cur)) = 0" by simp
  qed (use that in simp)
  consider "s = []" | "s \<noteq> []" "space_len s > 0" | "s \<noteq> []" "space_len s = 0" by blast
  then show ?case
  proof cases
    case 1
    then have "cur \<noteq> [] \<and> w = rev cur"
      using "1.prems"(2) by (simp add: fields_from.simps split: if_splits)
    with cur show ?thesis by simp
  next
    case 2
    then have "(cur \<noteq> [] \<and> w = rev cur) \<or> w \<in> set (fields_from [] (drop (space_len s) s))"
      using "1.prems"(2) by (simp add: fields_from.simps [of cur s] split: if_splits)
    with cur "1.IH"(1) [OF 2] show ?thesis by auto
  next
    case 3
    then obtain c t where s: "s = c # t" by (cases s) auto
    have "\<forall>i < length (c # cur). space_len (drop i (rev (c # cur)) @ t) = 0"
    proof (intro allI impI)
      fix i assume "i < length (c # cur)"
      then consider "i < length cur" | "i = length cur" by fastforce
      then show "space_len (drop i (rev (c # cur)) @ t) = 0"
        using "1.prems"(1) 3 s by cases auto
    qed
    moreover have "w \<in> set (fields_from (c # cur) t)"
      using "1.prems"(2) 3 unfolding s by (simp add: fields_from.simps [of cur "c # t"])
    ultimately show ?thesis using "1.IH"(2) 3 s by simp
  qed
qed

lemma fields_words: "w \<in> set (Fields s) \<Longrightarrow> word w"
  unfolding Fields_def by (rule fields_from_words [of "[]"]) simp_all

lemma fields_join_fields [simp]: "Fields (join_with '' '' (Fields s)) = Fields s"
  by (rule fields_join) (rule fields_words)

text \<open>Trimming.\<close>

lemma space_len_end_Nil [simp]: "space_len_end [] = 0"
  by (simp add: space_len_end_def)

lemma space_len_end_zero:
  "s \<noteq> [] \<Longrightarrow> space_len_end s = 0 \<longleftrightarrow> \<not> ascii_space (last s) \<and> (\<forall>w \<in> set wide_spaces. \<not> hasSuffix s w)"
proof (cases "find (hasSuffix s) wide_spaces")
  case None
  assume "s \<noteq> []"
  moreover have "\<forall>w \<in> set wide_spaces. \<not> hasSuffix s w" using None by (auto simp: find_None_iff)
  ultimately show ?thesis by (simp add: space_len_end_def None)
next
  case (Some w)
  assume "s \<noteq> []"
  from Some have "w \<in> set wide_spaces" "hasSuffix s w" by (auto simp: find_Some_iff)
  with wide_nonempty [of w] Some \<open>s \<noteq> []\<close> show ?thesis by (auto simp: space_len_end_def)
qed

lemma space_len_end_suffix: "space_len_end (u @ v) = 0 \<Longrightarrow> space_len_end v = 0"
  by (cases "v = []") (auto simp: space_len_end_zero hasSuffix_iff)

lemma hasSuffix_after:
  assumes "hasSuffix (u @ c # v) w" "c \<notin> set w"
  shows "hasSuffix v w"
proof -
  from assms(1) obtain t where t: "u @ c # v = t @ w" by (auto simp: hasSuffix_iff)
  then consider x where "u = t @ x" "x @ c # v = w" | x where "u @ x = t" "c # v = x @ w"
    by (auto simp: append_eq_append_conv2)
  then show ?thesis
  proof cases
    case 1
    then show ?thesis using assms(2) by auto
  next
    case 2
    then show ?thesis using assms(2) by (cases x) (auto simp: hasSuffix_iff)
  qed
qed

lemma wide_not_ascii: "w \<in> set wide_spaces \<Longrightarrow> of_char c < (128 :: nat) \<Longrightarrow> c \<notin> set w"
  unfolding wide_spaces_def by auto

lemma space_len_end_extend:
  "v \<noteq> [] \<Longrightarrow> space_len_end v = 0 \<Longrightarrow> of_char c < (128 :: nat) \<Longrightarrow> space_len_end (u @ c # v) = 0"
  using hasSuffix_after [of u c v] wide_not_ascii [of _ c] by (auto simp: space_len_end_zero)

lemma trimRightSpace_clean [simp]: "space_len_end s = 0 \<Longrightarrow> trimRightSpace s = s"
  by (simp add: trimRightSpace.simps)

lemma trimLeftSpace_clean [simp]: "space_len s = 0 \<Longrightarrow> trimLeftSpace s = s"
  by (simp add: trimLeftSpace.simps)

lemma trimRightSpace_end [simp]: "space_len_end (trimRightSpace s) = 0"
proof (induction s rule: trimRightSpace.induct)
  case (1 s)
  then show ?case by (cases "space_len_end s = 0 \<or> s = []") (auto simp: trimRightSpace.simps [of s])
qed

lemma trimLeftSpace_start [simp]: "space_len (trimLeftSpace s) = 0"
proof (induction s rule: trimLeftSpace.induct)
  case (1 s)
  then show ?case by (cases "space_len s = 0 \<or> s = []") (auto simp: trimLeftSpace.simps [of s])
qed

lemma trimRightSpace_prefix: "\<exists>r. s = trimRightSpace s @ r"
proof (induction s rule: trimRightSpace.induct)
  case (1 s)
  show ?case
  proof (cases "space_len_end s > 0 \<and> s \<noteq> []")
    case True
    with "1.IH" obtain r where r: "take (length s - space_len_end s) s = trimRightSpace s @ r"
      by (auto simp: trimRightSpace.simps [of s])
    have "s = take (length s - space_len_end s) s @ drop (length s - space_len_end s) s" by simp
    then show ?thesis unfolding r by (metis append_assoc)
  qed (auto simp: trimRightSpace.simps [of s])
qed

lemma trimLeftSpace_suffix: "\<exists>r. s = r @ trimLeftSpace s"
proof (induction s rule: trimLeftSpace.induct)
  case (1 s)
  show ?case
  proof (cases "space_len s > 0 \<and> s \<noteq> []")
    case True
    with "1.IH" obtain r where "drop (space_len s) s = r @ trimLeftSpace s" by (auto simp: trimLeftSpace.simps [of s])
    then show ?thesis by (metis append_assoc append_take_drop_id)
  qed (auto simp: trimLeftSpace.simps [of s])
qed

definition trimmed :: "string \<Rightarrow> bool" where
  "trimmed s \<longleftrightarrow> space_len s = 0 \<and> space_len_end s = 0"

lemma trimmed_trimSpace [simp]: "trimmed (trimSpace s)"
proof -
  obtain r where r: "trimLeftSpace s = trimSpace s @ r"
    using trimRightSpace_prefix [of "trimLeftSpace s"] by (auto simp: trimSpace_def)
  have "space_len (trimSpace s @ r) = 0" using trimLeftSpace_start [of s] by (simp add: r)
  then have "space_len (trimSpace s) = 0" by (cases "trimSpace s = []") (auto dest: space_len_prefix)
  then show ?thesis by (simp add: trimmed_def) (simp add: trimSpace_def)
qed

lemma trimSpace_trimmed [simp]: "trimmed s \<Longrightarrow> trimSpace s = s"
  by (simp add: trimmed_def trimSpace_def)

lemma trimSpace_infix: "\<exists>a b. s = a @ trimSpace s @ b"
proof -
  obtain a where a: "s = a @ trimLeftSpace s" using trimLeftSpace_suffix by blast
  obtain b where b: "trimLeftSpace s = trimSpace s @ b"
    using trimRightSpace_prefix [of "trimLeftSpace s"] by (auto simp: trimSpace_def)
  have "s = a @ trimSpace s @ b" using a unfolding b .
  then show ?thesis by blast
qed

lemma set_trimSpace: "set (trimSpace s) \<subseteq> set s"
  using trimSpace_infix [of s] by (metis Un_upper1 Un_upper2 le_supI2 set_append subset_trans)

text \<open>Cutting at a one-byte separator.\<close>

lemma indexOf_char: "c \<notin> set k \<Longrightarrow> indexOf (k @ c # v) [c] = Some (length k)"
  by (induction k) (auto simp: hasPrefix_def)

lemma cut_char [simp]: "c \<notin> set k \<Longrightarrow> cut (k @ c # v) [c] = Some (k, v)"
  by (simp add: cut_def indexOf_char)

lemma cut_SomeD:
  assumes "cut s [c] = Some (k, v)"
  shows "s = k @ c # v \<and> c \<notin> set k"
proof -
  from assms obtain i where i: "indexOf s [c] = Some i" "k = take i s" "v = drop (Suc i) s" by (auto simp: cut_def)
  note f = indexOf_Some [OF i(1)]
  then have d: "drop i s = c # drop (Suc i) s" "i < length s"
    by (auto simp: hasPrefix_iff) (metis drop_Suc list.sel(3) tl_drop, metis drop_all leI list.distinct(1))
  have "s = take i s @ drop i s" by simp
  then have "s = k @ c # v" using d i by metis
  moreover have "c \<notin> set k"
  proof
    assume "c \<in> set k"
    then obtain j where j: "j < i" "s ! j = c" using d(2) by (auto simp: i(2) in_set_conv_nth)
    then have "hasPrefix (drop j s) [c]" using d(2) by (simp add: hasPrefix_def take_Suc hd_drop_conv_nth)
    then show False using f j(1) by blast
  qed
  ultimately show ?thesis ..
qed

lemma cut_None: "cut s [c] = None \<longleftrightarrow> c \<notin> set s"
proof (cases "c \<in> set s")
  case True
  then obtain k v where "s = k @ c # v" "c \<notin> set k" by (auto dest: split_list_first)
  then show ?thesis using True by simp
next
  case False
  then show ?thesis using cut_SomeD [of s c] by (cases "cut s [c]") auto
qed

text \<open>\<open>strings.TrimRight(s, cutset)\<close>.\<close>

definition trimRight :: "(char \<Rightarrow> bool) \<Rightarrow> string \<Rightarrow> string" where
  "trimRight P s = rev (dropWhile P (rev s))"

lemma trimRight_snoc: "P c \<Longrightarrow> s \<noteq> [] \<Longrightarrow> \<not> P (last s) \<Longrightarrow> trimRight P (s @ [c]) = s"
  by (simp add: trimRight_def) (metis dropWhile_eq_self_iff hd_rev rev_is_Nil_conv rev_rev_ident)

lemma set_trimRight: "set (trimRight P s) \<subseteq> set s"
  by (auto simp: trimRight_def dest: set_dropWhileD)


section \<open>ASCII characters and numbers\<close>

abbreviation code :: "char \<Rightarrow> nat" where "code c \<equiv> of_char c"

definition is_digit :: "char \<Rightarrow> bool" where
  "is_digit c \<longleftrightarrow> 48 \<le> code c \<and> code c \<le> 57"

definition is_upper :: "char \<Rightarrow> bool" where
  "is_upper c \<longleftrightarrow> 65 \<le> code c \<and> code c \<le> 90"

definition is_lower :: "char \<Rightarrow> bool" where
  "is_lower c \<longleftrightarrow> 97 \<le> code c \<and> code c \<le> 122"

text \<open>\<open>strings.ToLower\<close> and \<open>ToUpper\<close> on ASCII; other bytes are kept.\<close>

definition lower :: "char \<Rightarrow> char" where
  "lower c = (if is_upper c then char_of (code c + 32) else c)"

definition upper :: "char \<Rightarrow> char" where
  "upper c = (if is_lower c then char_of (code c - 32) else c)"

definition toLower :: "string \<Rightarrow> string" where "toLower = map lower"
definition toUpper :: "string \<Rightarrow> string" where "toUpper = map upper"

definition digit :: "nat \<Rightarrow> char" where
  "digit n = char_of (48 + n)"

text \<open>\<open>%d\<close> and \<open>strconv.ParseUint(s, 10, _)\<close> on a string of digits.\<close>

fun dec :: "nat \<Rightarrow> string" where
  "dec n = (if n < 10 then [digit n] else dec (n div 10) @ [digit (n mod 10)])"

declare dec.simps [simp del]

definition dec_val :: "string \<Rightarrow> nat" where
  "dec_val s = foldl (\<lambda>a c. 10 * a + (code c - 48)) 0 s"

text \<open>\<open>strconv.Atoi\<close>: an optional sign and decimal digits, within the range of \<open>int\<close>.\<close>

definition atoi :: "string \<Rightarrow> int option" where
  "atoi s =
     (let neg = (s \<noteq> [] \<and> hd s = CHR ''-'');
          ds = (if s \<noteq> [] \<and> (hd s = CHR ''-'' \<or> hd s = CHR ''+'') then tl s else s);
          v = int (dec_val ds)
      in if ds = [] \<or> \<not> list_all is_digit ds then None
         else if neg then (if v \<le> 2 ^ 63 then Some (- v) else None)
         else if v < 2 ^ 63 then Some v else None)"

definition hexd :: "nat \<Rightarrow> char" where
  "hexd n = (if n < 10 then char_of (48 + n) else char_of (87 + n))"

definition hex_val :: "char \<Rightarrow> nat option" where
  "hex_val c =
     (let n = code c in
      if 48 \<le> n \<and> n \<le> 57 then Some (n - 48)
      else if 97 \<le> n \<and> n \<le> 102 then Some (n - 87)
      else if 65 \<le> n \<and> n \<le> 70 then Some (n - 55)
      else None)"

fun hex_encode :: "bytes \<Rightarrow> string" where
  "hex_encode [] = []"
| "hex_encode (b # bs) = hexd (code b div 16) # hexd (code b mod 16) # hex_encode bs"

fun hex_decode :: "string \<Rightarrow> bytes option" where
  "hex_decode [] = Some []"
| "hex_decode [x] = None"
| "hex_decode (x # y # r) =
     (case (hex_val x, hex_val y, hex_decode r) of
        (Some a, Some b, Some bs) \<Rightarrow> Some (char_of (16 * a + b) # bs)
      | _ \<Rightarrow> None)"

lemma code_char_of: "n < 256 \<Longrightarrow> code (char_of n) = n"
  by simp

lemma code_digit: "n < 10 \<Longrightarrow> code (digit n) = 48 + n"
  by (simp add: digit_def)

lemma is_digit_digit [simp]: "n < 10 \<Longrightarrow> is_digit (digit n)"
  by (simp add: is_digit_def code_digit)

lemma dec_nonempty [simp]: "dec n \<noteq> []"
  by (subst dec.simps) simp

lemma dec_digits: "c \<in> set (dec n) \<Longrightarrow> is_digit c"
proof (induction n rule: dec.induct)
  case (1 n)
  then show ?case by (subst (asm) (2) dec.simps) (auto split: if_splits)
qed

lemma dec_val_snoc: "dec_val (s @ [c]) = 10 * dec_val s + (code c - 48)"
  by (simp add: dec_val_def)

lemma dec_val_dec [simp]: "dec_val (dec n) = n"
proof (induction n rule: dec.induct)
  case (1 n)
  show ?case
  proof (cases "n < 10")
    case True
    then show ?thesis by (subst dec.simps) (simp add: dec_val_def code_digit)
  next
    case False
    have "dec_val (dec n) = 10 * (n div 10) + n mod 10"
      using False 1 by (subst dec.simps) (simp add: dec_val_snoc code_digit)
    then show ?thesis by simp
  qed
qed

lemma dec_hd: "hd (dec n) \<noteq> CHR ''-'' \<and> hd (dec n) \<noteq> CHR ''+''"
  using dec_digits [of "hd (dec n)" n] by (auto simp: is_digit_def)

lemma atoi_dec [simp]: "n < 2 ^ 63 \<Longrightarrow> atoi (dec n) = Some (int n)"
  using dec_hd [of n] by (auto simp: atoi_def Let_def list_all_iff dec_digits)

lemma dec_inj: "dec m = dec n \<longleftrightarrow> m = n"
  by (metis dec_val_dec)

lemma length_dec: "n < 10 ^ k \<Longrightarrow> 0 < k \<Longrightarrow> length (dec n) \<le> k"
proof (induction n arbitrary: k rule: dec.induct)
  case (1 n)
  show ?case
  proof (cases "n < 10")
    case True
    then show ?thesis using 1 by (subst dec.simps) simp
  next
    case False
    then obtain j where j: "k = Suc j" "0 < j"
      using 1 by (cases k; cases "k - 1") auto
    have "n div 10 < 10 ^ j" using 1(2) j by (simp add: less_mult_imp_div_less mult.commute)
    then have "length (dec (n div 10)) \<le> j" using 1(1) False j by blast
    then show ?thesis using False j by (subst dec.simps) simp
  qed
qed

lemma dec_val_bound: "(\<And>c. c \<in> set s \<Longrightarrow> is_digit c) \<Longrightarrow> dec_val s < 10 ^ length s"
proof (induction s rule: rev_induct)
  case (snoc c s)
  then have "dec_val s < 10 ^ length s" "code c \<le> 57" by (auto simp: is_digit_def)
  then show ?case by (simp add: dec_val_snoc)
qed (simp add: dec_val_def)

lemma hex_val_hexd: "n < 16 \<Longrightarrow> hex_val (hexd n) = Some n"
  by (auto simp: hex_val_def hexd_def Let_def)

lemma lower_hexd: "n < 16 \<Longrightarrow> lower (hexd n) = hexd n"
  by (auto simp: lower_def is_upper_def hexd_def)

lemma hex_nibbles: "code b div 16 < 16" "code b mod 16 < 16"
  using of_char_less_256 [of b] by (simp_all add: less_mult_imp_div_less)

lemma hex_decode_encode [simp]: "hex_decode (hex_encode b) = Some b"
proof (induction b)
  case (Cons c b)
  have "16 * (code c div 16) + code c mod 16 = code c" by simp
  then show ?case using Cons hex_nibbles [of c] by (simp add: hex_val_hexd)
qed simp

lemma length_hex_encode [simp]: "length (hex_encode b) = 2 * length b"
  by (induction b) simp_all

lemma toLower_hex_encode [simp]: "toLower (hex_encode b) = hex_encode b"
  by (induction b) (simp_all add: toLower_def lower_hexd hex_nibbles)

lemma lower_eq_iff: "lower c = c \<longleftrightarrow> \<not> is_upper c"
proof -
  have "code (lower c) = code c + 32" if "is_upper c"
    unfolding lower_def if_P [OF that] using that by (intro code_char_of) (simp add: is_upper_def)
  then have "code (lower c) \<noteq> code c" if "is_upper c" using that by simp
  then show ?thesis by (metis lower_def)
qed

lemma hexd_hex_val: "hex_val c = Some n \<Longrightarrow> lower c = c \<Longrightarrow> hexd n = c \<and> n < 16"
  unfolding lower_eq_iff by (auto simp: hex_val_def hexd_def is_upper_def Let_def split: if_splits)

lemma hex_encode_decode: "hex_decode s = Some b \<Longrightarrow> toLower s = s \<Longrightarrow> hex_encode b = s"
proof (induction s arbitrary: b rule: hex_decode.induct)
  case (3 x y r)
  then obtain m n bs where h: "hex_val x = Some m" "hex_val y = Some n" "hex_decode r = Some bs"
    and b: "b = char_of (16 * m + n) # bs"
    by (auto split: option.splits)
  with 3 have m: "hexd m = x" "m < 16" and n: "hexd n = y" "n < 16" and r: "hex_encode bs = r"
    by (auto simp: toLower_def dest: hexd_hex_val)
  then have "code (char_of (16 * m + n)) = 16 * m + n" by (intro code_char_of) simp
  then show ?case using m n r b by simp
qed simp_all

lemma hex_decode_length: "hex_decode s = Some b \<Longrightarrow> length s = 2 * length b"
  by (induction s arbitrary: b rule: hex_decode.induct) (auto split: option.splits)

lemma hex_encode_chars: "c \<in> set (hex_encode b) \<Longrightarrow> is_digit c \<or> (97 \<le> code c \<and> code c \<le> 102)"
proof (induction b)
  case (Cons x b)
  have "is_digit (hexd n) \<or> (97 \<le> code (hexd n) \<and> code (hexd n) \<le> 102)" if "n < 16" for n
    using that by (auto simp: is_digit_def hexd_def)
  from this [OF hex_nibbles(1) [of x]] this [OF hex_nibbles(2) [of x]] Cons show ?case by auto
qed simp

text \<open>Bytes in \<open>!\<close> to \<open>~\<close> form words.\<close>

definition graphic :: "char \<Rightarrow> bool" where
  "graphic c \<longleftrightarrow> 33 \<le> code c \<and> code c \<le> 126"

lemma graphic_no_space: "graphic c \<Longrightarrow> space_len (c # s) = 0"
proof -
  assume g: "graphic c"
  have "\<not> ascii_space c" using g by (auto simp: graphic_def ascii_space_def)
  moreover have "\<not> hasPrefix (c # s) w" if "w \<in> set wide_spaces" for w
    using that g unfolding wide_spaces_def by (auto simp: hasPrefix_def graphic_def)
  ultimately show ?thesis by (simp add: space_len_zero)
qed

lemma graphic_word: "w \<noteq> [] \<Longrightarrow> (\<And>c. c \<in> set w \<Longrightarrow> graphic c) \<Longrightarrow> word w"
  unfolding word_def by (metis Cons_nth_drop_Suc graphic_no_space nth_mem)

text \<open>A space ends whatever field it follows.\<close>

lemma space_len_before_SP: "x \<noteq> [] \<Longrightarrow> space_len (x @ SP # y) = space_len x"
proof -
  assume x: "x \<noteq> []"
  have "hasPrefix (x @ SP # y) w \<longleftrightarrow> hasPrefix x w" if "w \<in> set wide_spaces" for w
    using hasPrefix_before [of x SP y w] hasPrefix_mono [of x w] wide_nonempty [OF that] by (auto simp: ascii_space_def)
  then have "find (hasPrefix (x @ SP # y)) wide_spaces = find (hasPrefix x) wide_spaces"
    by (intro find_cong) auto
  then show ?thesis using x by (cases x) (simp_all add: space_len_def)
qed

lemma space_len_le: "space_len s \<le> length s"
  by (auto simp: space_len_def hasPrefix_def find_Some_iff split: list.split option.split)
    (metis length_take min.cobounded1 length_Cons)

lemma fields_from_sep: "fields_from cur (x @ SP # y) = fields_from cur x @ Fields y"
proof (induction cur x rule: fields_from.induct)
  case (1 cur s)
  show ?case
  proof (cases "s = []")
    case True
    then show ?thesis by (simp add: Fields_def fields_from.simps [of cur] fields_from.simps [of cur "SP # y"] space_len_ascii ascii_space_def)
  next
    case ne: False
    have d: "space_len s - length s = 0" using space_len_le [of s] by simp
    show ?thesis
    proof (cases "space_len s > 0")
      case True
      show ?thesis
        using 1(1) [OF ne True] True ne by (simp add: fields_from.simps [of cur "s @ _"] fields_from.simps [of cur s] space_len_before_SP d)
    next
      case False
      show ?thesis
        using 1(2) [OF ne False] False ne by (simp add: fields_from.simps [of cur "s @ _"] fields_from.simps [of cur s] space_len_before_SP)
    qed
  qed
qed

lemma Fields_sep: "Fields (x @ SP # y) = Fields x @ Fields y"
  by (simp add: Fields_def fields_from_sep)

lemma Fields_Nil [simp]: "Fields [] = []"
  by (simp add: Fields_def fields_from.simps)

lemma Fields_join: "Fields (join_with [SP] ws) = concat (map Fields ws)"
  by (induction "[SP]" ws rule: join_with.induct) (simp_all add: Fields_sep)

lemma Fields_trimRight: "Fields (trimRight (\<lambda>c. c = SP) x) = Fields x"
proof (induction x rule: rev_induct)
  case (snoc c x)
  show ?case
  proof (cases "c = SP")
    case True
    then show ?thesis using snoc Fields_sep [of x "[]"] by (simp add: trimRight_def)
  qed (simp add: trimRight_def)
qed (simp add: trimRight_def)

text \<open>Settings of the form \<open>key=val\<close>.\<close>

lemma cutPrefix_None [simp]: "cutPrefix w p = None \<longleftrightarrow> \<not> hasPrefix w p"
  by (simp add: cutPrefix_def)

lemma cutPrefix_SomeD: "cutPrefix w p = Some v \<Longrightarrow> hasPrefix w p"
  by (simp add: cutPrefix_def split: if_splits)

lemma keys_apart:
  assumes "CHR ''='' \<notin> set k" "CHR ''='' \<notin> set k'" "hasPrefix w (k @ ''='')" "hasPrefix w (k' @ ''='')"
  shows "k = k'"
proof -
  have "\<exists>a. w = k @ CHR ''='' # a" "\<exists>b. w = k' @ CHR ''='' # b" using assms(3,4) by (auto simp: hasPrefix_iff)
  then show ?thesis using assms(1,2) takeWhile_upto by metis
qed

lemma hasPrefix_setting [simp]: "hasPrefix (k @ CHR ''='' # v) (k @ ''='')"
  using hasPrefix_append [of "k @ ''=''" v] by simp

lemma cutPrefix_setting [simp]: "cutPrefix (k @ CHR ''='' # v) (k @ ''='') = Some v"
  using cutPrefix_append [of "k @ ''=''" v] by simp

text \<open>\<open>strings.SplitAfter\<close>, and files made of whole lines.\<close>

definition splitAfter :: "char \<Rightarrow> string \<Rightarrow> string list" where
  "splitAfter c s = (let ps = split_on c s in map (\<lambda>p. p @ [c]) (butlast ps) @ [last ps])"

lemma split_on_lines:
  "(\<And>q. q \<in> set qs \<Longrightarrow> c \<notin> set q) \<Longrightarrow> split_on c (concat (map (\<lambda>q. q @ [c]) qs) @ s) = qs @ split_on c s"
  by (induction qs) (simp_all add: split_on_append)

text \<open>Printable text has nothing to trim.\<close>

lemma graphic_trim:
  assumes "\<And>c. c \<in> set s \<Longrightarrow> graphic c"
  shows "trimSpace s = s"
proof (cases "s = []")
  case False
  then obtain c r where s: "s = c # r" by (cases s) auto
  have "space_len s = 0" unfolding s using assms by (intro graphic_no_space) (simp add: s)
  moreover have "\<not> hasSuffix s w" if w: "w \<in> set wide_spaces" for w
  proof
    assume "hasSuffix s w"
    moreover have "w \<noteq> []" using wide_nonempty [OF w] by blast
    ultimately have "hd w \<in> set s" "hd w \<in> set w" by (auto simp: hasSuffix_iff)
    then show False using wide_not_ascii [OF w, of "hd w"] assms [of "hd w"] by (simp add: graphic_def)
  qed
  moreover have "\<not> ascii_space (last s)" using assms [of "last s"] False by (auto simp: graphic_def ascii_space_def)
  ultimately show ?thesis using False by (simp add: trimmed_def space_len_end_zero)
qed (simp add: trimmed_def)

lemma trimSpace_Nil [simp]: "trimSpace [] = []"
  by (rule graphic_trim) simp

lemma replaceAll_absent: "hd old \<notin> set s \<Longrightarrow> replaceAll old new s = s"
proof (induction s)
  case (Cons x s)
  have "old = [] \<or> \<not> hasPrefix (x # s) old" using Cons.prems by (cases old) (auto simp: hasPrefix_def)
  then show ?case using Cons by (auto simp: replaceAll.simps [of old new "x # s"] replaceAll.simps [of old new s])
qed (simp add: replaceAll.simps)

end
