(* ===== verification/Net_Mac.thy ===== *)
theory Net_Mac
  imports Go_Strings "HOL-Library.Char_ord" "HOL-Library.List_Lexorder"
begin

text \<open>
  \<open>src/internal/netmac/netmac.go\<close>: the MAC address that selects the rescue network card.  \<open>Normalize\<close>
  accepts exactly the unicast addresses and returns one canonical spelling; \<open>Resolve\<close> returns a card
  only when it is the one physical card with that address.
\<close>

definition is_hex :: "char \<Rightarrow> bool" where
  "is_hex c \<longleftrightarrow> is_digit c \<or> (65 \<le> code c \<and> code c \<le> 70) \<or> (97 \<le> code c \<and> code c \<le> 102)"

definition is_sep :: "char \<Rightarrow> bool" where
  "is_sep c \<longleftrightarrow> c = CHR '':'' \<or> c = CHR ''-''"

text \<open>\<open>macRE\<close>: six two-digit groups, each separator a colon or a dash.\<close>

definition macRE :: "string \<Rightarrow> bool" where
  "macRE s \<longleftrightarrow> length s = 17 \<and> list_all (\<lambda>i. if i mod 3 = 2 then is_sep (s ! i) else is_hex (s ! i)) [0..<17]"

text \<open>\<open>strings.Trim(s, " \t")\<close>.\<close>

definition blank :: "char \<Rightarrow> bool" where
  "blank c \<longleftrightarrow> c = CHR 0x20 \<or> c = CHR 0x09"

definition trimBlank :: "string \<Rightarrow> string" where
  "trimBlank s = trimRight blank (dropWhile blank s)"

datatype mac_error = MacMalformed string | MacMixed string | MacZero string | MacMulticast string

definition colon :: "char \<Rightarrow> char" where
  "colon c = (if c = CHR ''-'' then CHR '':'' else c)"

definition Normalize :: "string \<Rightarrow> mac_error + string" where
  "Normalize mac0 =
     (let mac = trimBlank mac0 in
      if mac = '''' then Inr ''''
      else if \<not> macRE mac then Inl (MacMalformed mac)
      else if count_list mac (mac ! 2) \<noteq> 5 then Inl (MacMixed mac)
      else
        let norm = toLower (map colon mac) in
        if norm = ''00:00:00:00:00:00'' then Inl (MacZero mac)
        else
          let b = 16 * the (hex_val (norm ! 0)) + the (hex_val (norm ! 1)) in
          if b mod 2 = 1 then Inl (MacMulticast mac) else Inr norm)"

record Interface =
  ifName :: string
  ifMAC :: string
  Virtual :: bool
  Loopback :: bool

text \<open>
  One entry of \<open>/sys/class/net\<close> as \<open>Scan\<close> reads it: the name and, where the read succeeded, the address
  file, the link target and the type file.
\<close>

record sys_entry =
  eName :: string
  eAddress :: "string option"
  eLink :: "string option"
  eType :: "string option"

definition scanEntry :: "sys_entry \<Rightarrow> Interface option" where
  "scanEntry e =
     map_option (\<lambda>raw.
       \<lparr>ifName = eName e, ifMAC = toLower (trimSpace raw),
        Virtual = (case eLink e of None \<Rightarrow> False | Some t \<Rightarrow> indexOf t ''/virtual/'' \<noteq> None),
        Loopback = (eName e = ''lo'' \<or> (case eType e of None \<Rightarrow> False | Some t \<Rightarrow> trimSpace t = ''772''))\<rparr>)
       (eAddress e)"

text \<open>Go orders strings byte by byte, as the lexicographic order does.\<close>

definition Scan :: "sys_entry list \<Rightarrow> Interface list" where
  "Scan entries = sort_key ifName (List.map_filter scanEntry entries)"

datatype resolve_error = RMac mac_error | RNone | RNotGiven | RNoCard string "string list" | RAmbiguous string "string list"

definition Resolve :: "sys_entry list option \<Rightarrow> string \<Rightarrow> resolve_error + string" where
  "Resolve dir mac =
     bindE (mapErr RMac (Normalize mac)) (\<lambda>norm.
     if norm = '''' then Inl RNotGiven
     else
       case dir of
         None \<Rightarrow> Inl RNone
       | Some entries \<Rightarrow>
           let phys = filter (\<lambda>i. \<not> Loopback i \<and> \<not> Virtual i) (Scan entries);
               seen = map (\<lambda>i. ifName i @ ''='' @ ifMAC i) phys;
               matches = map ifName (filter (\<lambda>i. ifMAC i = norm) phys)
           in (case matches of
                 [m] \<Rightarrow> Inr m
               | [] \<Rightarrow> Inl (RNoCard norm seen)
               | _ \<Rightarrow> Inl (RAmbiguous norm matches)))"


section \<open>Canonical addresses\<close>

definition canonicalMAC :: "string \<Rightarrow> bool" where
  "canonicalMAC n \<longleftrightarrow>
     length n = 17 \<and>
     list_all (\<lambda>i. if i mod 3 = 2 then n ! i = CHR '':'' else is_digit (n ! i) \<or> (97 \<le> code (n ! i) \<and> code (n ! i) \<le> 102)) [0..<17] \<and>
     even (the (hex_val (n ! 1))) \<and> n \<noteq> ''00:00:00:00:00:00''"

lemma lower_hex:
  assumes "is_hex c"
  shows "is_digit (lower c) \<or> (97 \<le> code (lower c) \<and> code (lower c) \<le> 102)" "colon c = c"
proof -
  show "is_digit (lower c) \<or> (97 \<le> code (lower c) \<and> code (lower c) \<le> 102)"
    using assms by (auto simp: is_hex_def lower_def is_upper_def is_digit_def code_char_of)
  show "colon c = c" using assms by (auto simp: colon_def is_hex_def is_digit_def)
qed

lemma lowercase_fixed: "is_digit c \<or> (97 \<le> code c \<and> code c \<le> 102) \<Longrightarrow> lower c = c \<and> is_hex c"
  by (auto simp: lower_eq_iff is_upper_def is_digit_def is_hex_def)

lemma Normalize_canonical:
  assumes "Normalize mac = Inr n" "n \<noteq> []"
  shows "canonicalMAC n"
proof -
  obtain m where m: "macRE m" "n = toLower (map colon m)" "n \<noteq> ''00:00:00:00:00:00''"
    "(16 * the (hex_val (n ! 0)) + the (hex_val (n ! 1))) mod 2 \<noteq> 1"
    using assms by (auto simp: Normalize_def Let_def split: if_splits)
  have len: "length n = 17" "length m = 17" using m(1,2) by (simp_all add: macRE_def toLower_def)
  have nth: "n ! i = lower (colon (m ! i))" if "i < 17" for i using that len m(2) by (simp add: toLower_def)
  have "if i mod 3 = 2 then n ! i = CHR '':'' else is_digit (n ! i) \<or> (97 \<le> code (n ! i) \<and> code (n ! i) \<le> 102)"
    if "i \<in> set [0..<17]" for i
  proof (cases "i mod 3 = 2")
    case True
    then have "is_sep (m ! i)" using m(1) that by (auto simp: macRE_def list_all_iff)
    then have "lower (colon (m ! i)) = CHR '':''" by (auto simp: is_sep_def colon_def lower_def is_upper_def)
    then show ?thesis using True nth that by simp
  next
    case False
    then have "is_hex (m ! i)" using m(1) that by (auto simp: macRE_def list_all_iff)
    then show ?thesis using False nth that lower_hex by simp
  qed
  moreover have "even (the (hex_val (n ! 1)))" using m(4) by presburger
  ultimately show ?thesis using len m(3) by (simp add: canonicalMAC_def list_all_iff)
qed

lemma trimBlank_clean: "s \<noteq> [] \<Longrightarrow> \<not> blank (hd s) \<Longrightarrow> \<not> blank (last s) \<Longrightarrow> trimBlank s = s"
  unfolding trimBlank_def trimRight_def
  by (metis dropWhile_eq_self_iff hd_rev rev_rev_ident)

lemma canonicalMAC_Normalize:
  assumes "canonicalMAC n"
  shows "Normalize n = Inr n"
proof -
  have len: "length n = 17" using assms by (simp add: canonicalMAC_def)
  have ch: "if i mod 3 = 2 then n ! i = CHR '':'' else is_digit (n ! i) \<or> (97 \<le> code (n ! i) \<and> code (n ! i) \<le> 102)" if "i < 17" for i
    using assms that by (auto simp: canonicalMAC_def list_all_iff)
  have hex: "is_hex (n ! i)" "lower (n ! i) = n ! i" if "i < 17" "i mod 3 \<noteq> 2" for i
    using ch [OF that(1)] that(2) lowercase_fixed by auto
  have nb: "\<not> blank (n ! i)" if "i < 17" "i mod 3 \<noteq> 2" for i
    using hex(1) [OF that] by (auto simp: blank_def is_hex_def is_digit_def)
  have ne: "n \<noteq> []" using len by auto
  then have "trimBlank n = n"
    using nb [of 0] nb [of 16] len by (intro trimBlank_clean) (simp_all add: hd_conv_nth last_conv_nth)
  moreover have "macRE n" using len ch hex by (auto simp: macRE_def list_all_iff is_sep_def)
  moreover have "count_list n (n ! 2) = 5"
  proof -
    have "n ! i = CHR '':'' \<longleftrightarrow> i mod 3 = 2" if "i < 17" for i
      using ch [OF that] hex(1) [OF that] by (cases "i mod 3 = 2") (auto simp: is_hex_def is_digit_def)
    then have "{i. i < length n \<and> n ! i = CHR '':''} = set (filter (\<lambda>i. i mod 3 = 2) [0..<17])"
      using len by auto
    also have "filter (\<lambda>i. i mod 3 = 2) [0..<17] = [2, 5, 8, 11, 14 :: nat]" by code_simp
    finally have "card {i. i < length n \<and> n ! i = CHR '':''} = 5" by simp
    then show ?thesis using ch [of 2] by (simp add: count_list_eq_length_filter length_filter_conv_card eq_commute [of "CHR '':''"])
  qed
  moreover have "toLower (map colon n) = n"
  proof (rule nth_equalityI)
    fix i assume i: "i < length (toLower (map colon n))"
    then have "i < 17" using len by (simp add: toLower_def)
    then show "toLower (map colon n) ! i = n ! i"
      using ch [of i] hex [of i] lower_hex(2) [of "n ! i"] len by (cases "i mod 3 = 2") (auto simp: toLower_def colon_def lower_def is_upper_def)
  qed (simp add: toLower_def)
  moreover have "(16 * the (hex_val (n ! 0)) + the (hex_val (n ! 1))) mod 2 \<noteq> 1" "n \<noteq> ''00:00:00:00:00:00''" "n \<noteq> []"
    using assms len by (auto simp: canonicalMAC_def)
  ultimately show ?thesis by (simp add: Normalize_def Let_def)
qed

section \<open>Choosing the card\<close>

definition physicalWith :: "string \<Rightarrow> Interface \<Rightarrow> bool" where
  "physicalWith norm i \<longleftrightarrow> \<not> Loopback i \<and> \<not> Virtual i \<and> ifMAC i = norm"

lemma sort_key_single: "sort_key f xs = [x] \<longleftrightarrow> xs = [x]"
proof
  assume s: "sort_key f xs = [x]"
  then have "length xs = 1" "set xs = {x}" by (metis length_sort One_nat_def list.size(3,4) add_0, metis set_sort list.set(1,2))
  then show "xs = [x]" by (cases xs) auto
qed simp

lemma Resolve_Inr:
  "Resolve (Some entries) mac = Inr name \<longleftrightarrow>
     (\<exists>norm i. Normalize mac = Inr norm \<and> norm \<noteq> [] \<and> ifName i = name \<and>
       filter (physicalWith norm) (List.map_filter scanEntry entries) = [i])"
proof (cases "Normalize mac")
  case (Inr norm)
  let ?m = "filter (physicalWith norm) (List.map_filter scanEntry entries)"
  have "filter (\<lambda>i. ifMAC i = norm) (filter (\<lambda>i. \<not> Loopback i \<and> \<not> Virtual i) (Scan entries)) = sort_key ifName ?m"
    by (simp add: Scan_def filter_sort [symmetric] filter_filter physicalWith_def [abs_def] conj_commute conj_left_commute)
  then have "Resolve (Some entries) mac = Inr name \<longleftrightarrow> norm \<noteq> [] \<and> map ifName (sort_key ifName ?m) = [name]"
    using Inr by (auto simp: Resolve_def Let_def split: list.splits)
  also have "map ifName (sort_key ifName ?m) = [name] \<longleftrightarrow> (\<exists>i. sort_key ifName ?m = [i] \<and> ifName i = name)" by auto
  finally show ?thesis using Inr by (auto simp: sort_key_single)
qed (simp add: Resolve_def)


section \<open>Properties\<close>

text \<open>C25: the MAC address that is stored is canonical.  What \<open>Normalize\<close> returns, unless it is empty, is a
  lower-case colon-separated unicast address that is not all zeros, and \<open>Normalize\<close> accepts exactly such
  addresses unchanged; normalizing again changes nothing.\<close>

theorem normalize_canonical:
  "(Normalize n = Inr n \<longleftrightarrow> n = [] \<or> canonicalMAC n) \<and> (Normalize mac = Inr n \<longrightarrow> Normalize n = Inr n)"
proof -
  have "Normalize [] = Inr []" by (simp add: Normalize_def trimBlank_def trimRight_def)
  then show ?thesis using Normalize_canonical canonicalMAC_Normalize by blast
qed

theorem normalize_canonical_witness:
  "Normalize ''AA-BB-cc-dd-ee-02'' = Inr ''aa:bb:cc:dd:ee:02'' \<and> Normalize ''aa:bb:cc:dd:ee:02'' = Inr ''aa:bb:cc:dd:ee:02''"
proof -
  have "Normalize ''AA-BB-cc-dd-ee-02'' = Inr ''aa:bb:cc:dd:ee:02''" by code_simp
  with normalize_canonical show ?thesis by blast
qed

text \<open>C26: a network card is chosen only when there is no doubt.  \<open>Resolve\<close> names a card exactly when the
  address normalizes to a set one and precisely one physical interface carries it; no match and several
  matches are errors, never another card.\<close>

theorem resolve_unambiguous:
  "Resolve (Some entries) mac = Inr name \<longleftrightarrow>
     (\<exists>norm i. Normalize mac = Inr norm \<and> norm \<noteq> [] \<and> ifName i = name \<and>
       filter (physicalWith norm) (List.map_filter scanEntry entries) = [i])"
  by (rule Resolve_Inr)

end
