(* ===== verification/Esp_Config.thy ===== *)
theory Esp_Config
  imports Esp_Store Net_Mac
begin

text \<open>
  \<open>src/internal/espconfig/espconfig.go\<close>, the settings half: EFI/ALPINE/config with its \<open>key=value\<close> lines,
  the rescue SSH files, and the validation of the console and the network card.  A rendered
  configuration reads back as it was given, and changing one key changes what a reader finds for that
  key and for no other.  Generating an Ed25519 key is Go's \<open>crypto/ed25519\<close> and comes in as a value.
\<close>

section \<open>The configuration file\<close>

record Config =
  cNet :: string
  cIPv4 :: string
  cIPv4Address :: string
  cIPv4Gateway :: string
  cIPv6 :: string
  cIPv6Address :: string
  cIPv6Gateway :: string
  cSSHListen :: string
  cSSHPort :: string
  cSSHAllow :: string
  cConsole :: string
  cESPUUIDs :: string
  cNetMAC :: string

definition configPairs :: "Config \<Rightarrow> (string \<times> string) list" where
  "configPairs c =
     [(''alpine-zfsboot.net'', cNet c),
      (''alpine-zfsboot.ipv4'', cIPv4 c), (''alpine-zfsboot.ipv4.address'', cIPv4Address c),
      (''alpine-zfsboot.ipv4.gateway'', cIPv4Gateway c),
      (''alpine-zfsboot.ipv6'', cIPv6 c), (''alpine-zfsboot.ipv6.address'', cIPv6Address c),
      (''alpine-zfsboot.ipv6.gateway'', cIPv6Gateway c),
      (''alpine-zfsboot.ssh.listen'', cSSHListen c), (''alpine-zfsboot.ssh.port'', cSSHPort c),
      (''alpine-zfsboot.ssh.allow'', cSSHAllow c),
      (''alpine-zfsboot.console'', cConsole c),
      (''alpine-zfsboot.esp-uuids'', cESPUUIDs c), (''alpine-zfsboot.net.mac'', cNetMAC c)]"

definition setting :: "string \<times> string \<Rightarrow> string" where
  "setting kv = fst kv @ ''='' @ snd kv"

definition render :: "Config \<Rightarrow> bytes" where
  "render c = concat (map (\<lambda>kv. setting kv @ [NL]) (filter (\<lambda>kv. snd kv \<noteq> '''') (configPairs c)))"

definition WriteConfig :: "world \<Rightarrow> string \<Rightarrow> Config \<Rightarrow> write_error option \<times> world" where
  "WriteConfig w mp cfg = WriteFile w (mp, ConfigFile) (render cfg)"

definition VerifyConfig :: "world \<Rightarrow> string \<Rightarrow> Config \<Rightarrow> verify_file_error option \<times> world" where
  "VerifyConfig w mp cfg = VerifyFile w (mp, ConfigFile) (render cfg)"

definition WriteAuthorizedKeys :: "world \<Rightarrow> string \<Rightarrow> string \<Rightarrow> write_error option \<times> world" where
  "WriteAuthorizedKeys w mp sshKey = WriteFile w (mp, AuthorizedKeysFile) (sshKey @ [NL])"

text \<open>\<open>binary.BigEndian.AppendUint32\<close>; a key of the wrong length panics (\<open>None\<close>).\<close>

definition be32_bytes :: "nat \<Rightarrow> bytes" where
  "be32_bytes n = rev (le_bytes 4 n)"

definition dropbearEd25519KeyTypeName :: string where
  "dropbearEd25519KeyTypeName = ''ssh-ed25519''"

definition encodeDropbearEd25519PrivateKey :: "bytes \<Rightarrow> bytes option" where
  "encodeDropbearEd25519PrivateKey priv =
     (if length priv \<noteq> 64 then None
      else Some (be32_bytes (length dropbearEd25519KeyTypeName) @ dropbearEd25519KeyTypeName @ be32_bytes 64 @ priv))"

definition WriteHostKey :: "world \<Rightarrow> string \<Rightarrow> bytes \<Rightarrow> write_error option \<times> world" where
  "WriteHostKey w mp key = WriteFile w (mp, SSHHostEd25519KeyFile) key"

text \<open>\<open>writeConfig\<close> of \<open>src/cmd/tool/main.go\<close>.\<close>

definition writeConfig :: "world \<Rightarrow> string \<Rightarrow> Config \<Rightarrow> string \<Rightarrow> bytes \<Rightarrow> write_error option \<times> world" where
  "writeConfig w mp cfg sshKey hostKey =
     thenDo (WriteConfig w mp cfg) (\<lambda>w.
     if sshKey = '''' then (None, w)
     else
       thenDo (WriteAuthorizedKeys w mp sshKey) (\<lambda>w.
       WriteHostKey w mp hostKey))"

text \<open>The last line for a key counts; \<open>None\<close> when there is none.\<close>

definition configStep :: "string \<Rightarrow> string option \<Rightarrow> string \<Rightarrow> string option" where
  "configStep key v line =
     (case cutPrefix (trimSuffix line [CHR 0x0D]) (key @ ''='') of Some x \<Rightarrow> Some x | None \<Rightarrow> v)"

definition ConfigValue :: "bytes \<Rightarrow> string \<Rightarrow> string option" where
  "ConfigValue content key = foldl (configStep key) None (split_on NL content)"

definition editConfig :: "bytes \<Rightarrow> string \<Rightarrow> string \<Rightarrow> bytes" where
  "editConfig raw key val =
     (let kept = filter (\<lambda>line. line \<noteq> '''' \<and> \<not> hasPrefix line (key @ ''='')) (splitAfter NL raw)
      in concat (map (\<lambda>line. if hasSuffix line [NL] then line else line @ [NL]) kept) @
         (if val \<noteq> '''' then key @ ''='' @ val @ [NL] else ''''))"

datatype config_error = ConfigRead | ConfigWrite write_error

definition SetConfigKey :: "world \<Rightarrow> string \<Rightarrow> string \<Rightarrow> string \<Rightarrow> config_error option \<times> world" where
  "SetConfigKey w mp key val =
     (case readFile w (mp, ConfigFile) of
        (ReadError, w) \<Rightarrow> (Some ConfigRead, w)
      | (NotExist, w) \<Rightarrow> mapError ConfigWrite (WriteFile w (mp, ConfigFile) (editConfig '''' key val))
      | (Content raw, w) \<Rightarrow> mapError ConfigWrite (WriteFile w (mp, ConfigFile) (editConfig raw key val)))"

text \<open>
  \<open>consoleRE\<close>: a known console name, optionally with a comma, a baud rate, a parity letter, a number of
  bits and \<open>r\<close>.  The digits are taken greedily, as far as they go.
\<close>

definition optional :: "(char \<Rightarrow> bool) \<Rightarrow> string \<Rightarrow> string" where
  "optional P s = (case s of c # r \<Rightarrow> if P c then r else s | [] \<Rightarrow> [])"

definition consoleOptions :: "string \<Rightarrow> bool" where
  "consoleOptions s =
     (case s of
        [] \<Rightarrow> True
      | c # r \<Rightarrow>
          c = CHR '','' \<and> r \<noteq> [] \<and> is_digit (hd r) \<and>
          optional (\<lambda>c. c = CHR ''r'')
            (optional (\<lambda>c. 53 \<le> code c \<and> code c \<le> 56)
              (optional (\<lambda>c. c \<in> set ''neo'') (dropWhile is_digit r))) = [])"

definition consoleNames :: "string list" where
  "consoleNames = [''tty0'', ''ttyS0'', ''ttyS1'', ''ttyS2'', ''ttyAMA0'']"

definition ValidateConsole :: "string \<Rightarrow> bool" where
  "ValidateConsole v \<longleftrightarrow> v = '''' \<or>
     list_ex (\<lambda>n. case cutPrefix v n of Some r \<Rightarrow> consoleOptions r | None \<Rightarrow> False) consoleNames"

definition ValidateNetMAC :: "string \<Rightarrow> mac_error + string" where
  "ValidateNetMAC v = Normalize v"


section \<open>Reading back\<close>

lemma configStep_other: "\<not> hasPrefix line (key @ ''='') \<Longrightarrow> configStep key v line = v"
proof -
  assume n: "\<not> hasPrefix line (key @ ''='')"
  have "\<not> hasPrefix (trimSuffix line [CHR 0x0D]) (key @ ''='')"
  proof
    assume h: "hasPrefix (trimSuffix line [CHR 0x0D]) (key @ ''='')"
    have "\<exists>r. line = trimSuffix line [CHR 0x0D] @ r" by (auto simp: trimSuffix_def) (metis append_take_drop_id)
    then show False using n hasPrefix_mono [OF h] by metis
  qed
  then show ?thesis by (simp add: configStep_def split: option.split) (metis cutPrefix_SomeD)
qed

text \<open>A value that fits on a line and does not lose its last character.\<close>

definition config_value :: "string \<Rightarrow> bool" where
  "config_value v \<longleftrightarrow> v \<noteq> [] \<and> NL \<notin> set v \<and> last v \<noteq> CHR 0x0D"

definition config_key :: "string \<Rightarrow> bool" where
  "config_key k \<longleftrightarrow> NL \<notin> set k \<and> CHR ''='' \<notin> set k"

lemma configStep_setting: "config_value v \<Longrightarrow> configStep key x (key @ CHR ''='' # v) = Some v"
proof -
  assume v: "config_value v"
  then have "\<not> hasSuffix (key @ CHR ''='' # v) [CHR 0x0D]"
    by (auto simp: hasSuffix_iff config_value_def dest: arg_cong [where f = last] split: if_splits)
  then have "trimSuffix (key @ CHR ''='' # v) [CHR 0x0D] = key @ CHR ''='' # v" by (simp add: trimSuffix_def)
  then show ?thesis by (simp add: configStep_def)
qed

lemma keys_apart_setting: "config_key k \<Longrightarrow> config_key k' \<Longrightarrow> k \<noteq> k' \<Longrightarrow> hasPrefix l (k @ ''='') \<Longrightarrow> \<not> hasPrefix l (k' @ ''='')"
  using keys_apart by (auto simp: config_key_def)

text \<open>The lines of a file after an edit.\<close>

definition contentLines :: "string \<Rightarrow> string list" where
  "contentLines raw = (let ps = split_on NL raw in if last ps = [] then butlast ps else ps)"

lemma contentLines_fold: "foldl (configStep key) v (contentLines raw) = foldl (configStep key) v (split_on NL raw)"
proof (cases "last (split_on NL raw) = []")
  case True
  define ps where "ps = split_on NL raw"
  have ps: "ps = butlast ps @ [[]]" using append_butlast_last_id [of ps] True by (simp add: ps_def)
  have "foldl (configStep key) v (butlast ps @ [[]]) = foldl (configStep key) v (butlast ps)"
    by (simp add: configStep_other hasPrefix_iff)
  then have "foldl (configStep key) v ps = foldl (configStep key) v (butlast ps)" by (subst ps)
  then show ?thesis using True by (simp add: contentLines_def Let_def ps_def)
qed (simp add: contentLines_def Let_def)

lemma contentLines_no_NL: "l \<in> set (contentLines raw) \<Longrightarrow> NL \<notin> set l"
  using split_on_parts by (auto simp: contentLines_def Let_def split: if_splits dest: in_set_butlastD)

lemma editConfig_lines:
  assumes "NL \<notin> set key"
  shows "editConfig raw key val =
    concat (map (\<lambda>q. q @ [NL]) (filter (\<lambda>l. \<not> hasPrefix l (key @ ''='')) (contentLines raw) @ (if val = [] then [] else [key @ ''='' @ val])))"
proof -
  let ?ps = "split_on NL raw" and ?h = "\<lambda>l. hasPrefix l (key @ ''='')"
  let ?eol = "\<lambda>line. if hasSuffix line [NL] then line else line @ [NL]"
  have pre: "?h (p @ [NL]) \<longleftrightarrow> ?h p" for p
    using hasPrefix_before [of p NL "[]" "key @ ''=''"] hasPrefix_mono [of p "key @ ''=''" "[NL]"] assms by auto
  have suf: "hasSuffix (p @ [NL]) [NL]" for p by (auto simp: hasSuffix_iff)
  have nosuf: "\<not> hasSuffix (last ?ps) [NL]"
    using split_on_parts [of "last ?ps" NL raw] by (auto simp: hasSuffix_iff)
  have inner: "concat (map ?eol (filter (\<lambda>l. l \<noteq> [] \<and> \<not> ?h l) (map (\<lambda>p. p @ [NL]) qs))) =
      concat (map (\<lambda>q. q @ [NL]) (filter (\<lambda>l. \<not> ?h l) qs))" for qs
    by (induction qs) (simp_all add: pre suf)
  have kept: "concat (map ?eol (filter (\<lambda>l. l \<noteq> [] \<and> \<not> ?h l) (splitAfter NL raw))) =
      concat (map (\<lambda>q. q @ [NL]) (filter (\<lambda>l. \<not> ?h l) (contentLines raw)))"
  proof (cases "last ?ps = []")
    case True
    then show ?thesis by (simp add: splitAfter_def contentLines_def Let_def inner)
  next
    case False
    obtain bs x where ps: "?ps = bs @ [x]" by (metis append_butlast_last_id split_on_nonempty)
    show ?thesis using False nosuf by (simp add: splitAfter_def contentLines_def Let_def inner ps)
  qed
  then show ?thesis by (simp add: editConfig_def Let_def)
qed

lemma editConfig_split:
  assumes "NL \<notin> set key" "NL \<notin> set val"
  shows "split_on NL (editConfig raw key val) =
    filter (\<lambda>l. \<not> hasPrefix l (key @ ''='')) (contentLines raw) @ (if val = [] then [] else [key @ ''='' @ val]) @ [[]]"
proof -
  let ?ls = "filter (\<lambda>l. \<not> hasPrefix l (key @ ''='')) (contentLines raw) @ (if val = [] then [] else [key @ ''='' @ val])"
  have "NL \<notin> set q" if "q \<in> set ?ls" for q using that assms contentLines_no_NL by (auto split: if_splits)
  from split_on_lines [of ?ls NL "[]", OF this] show ?thesis by (simp add: editConfig_lines [OF assms(1)])
qed

lemma ConfigValue_edit:
  assumes "config_key key" "val = [] \<or> config_value val"
  shows "ConfigValue (editConfig raw key val) key = (if val = [] then None else Some val)"
    "config_key key' \<Longrightarrow> key' \<noteq> key \<Longrightarrow> ConfigValue (editConfig raw key val) key' = ConfigValue raw key'"
proof -
  have nl: "NL \<notin> set key" "NL \<notin> set val" using assms by (auto simp: config_key_def config_value_def)
  have e: "\<not> hasPrefix [] (k @ ''='')" for k by (simp add: hasPrefix_iff)
  show "ConfigValue (editConfig raw key val) key = (if val = [] then None else Some val)"
    using assms(2) foldl_ignore [of "filter (\<lambda>l. \<not> hasPrefix l (key @ ''='')) (contentLines raw)" "configStep key" None]
    by (auto simp: ConfigValue_def editConfig_split [OF nl] configStep_other e configStep_setting)
  assume k: "config_key key'" "key' \<noteq> key"
  have "\<not> hasPrefix (key @ CHR ''='' # val) (key' @ ''='')" using keys_apart_setting [OF assms(1) k(1)] k(2) by auto
  then have "ConfigValue (editConfig raw key val) key' =
      foldl (configStep key') None (filter (\<lambda>l. \<not> hasPrefix l (key @ ''='')) (contentLines raw))"
    by (simp add: ConfigValue_def editConfig_split [OF nl] configStep_other e)
  also have "\<dots> = foldl (configStep key') None (contentLines raw)"
    using keys_apart_setting [OF assms(1) k(1)] k(2) by (intro foldl_filter) (auto intro: configStep_other)
  finally show "ConfigValue (editConfig raw key val) key' = ConfigValue raw key'"
    by (simp add: contentLines_fold ConfigValue_def)
qed

lemma setting_pair [simp]: "setting (k, v) = k @ CHR ''='' # v"
  by (simp add: setting_def)

lemma fold_settings:
  assumes "\<forall>kv \<in> set kvs. config_key (fst kv) \<and> config_value (snd kv)" "distinct (map fst kvs)" "config_key k"
  shows "foldl (configStep k) None (map setting kvs) = map_of kvs k"
  using assms(1,2)
proof (induction kvs rule: rev_induct)
  case (snoc kv kvs)
  obtain k1 v1 where kv: "kv = (k1, v1)" by (cases kv)
  have ih: "foldl (configStep k) None (map setting kvs) = map_of kvs k" using snoc by simp
  have d: "map_of kvs k1 = None" using snoc.prems(2) by (simp add: kv map_of_eq_None_iff)
  show ?case
  proof (cases "k1 = k")
    case True
    then show ?thesis using snoc.prems d by (simp add: kv configStep_setting map_add_def)
  next
    case False
    then have "\<not> hasPrefix (k1 @ CHR ''='' # v1) (k @ ''='')"
      using keys_apart_setting [of k1 k] snoc.prems(1) assms(3) by (auto simp: kv)
    then show ?thesis using False ih by (simp add: kv configStep_other map_add_def split: option.split)
  qed
qed simp

lemma configPairs_keys: "distinct (map fst (configPairs c))" "\<forall>kv \<in> set (configPairs c). config_key (fst kv)"
  by (simp_all add: configPairs_def config_key_def)

lemma ConfigValue_render:
  assumes "\<forall>kv \<in> set (configPairs c). snd kv = [] \<or> config_value (snd kv)" "(k, v) \<in> set (configPairs c)"
  shows "ConfigValue (render c) k = (if v = [] then None else Some v)"
proof -
  define kvs where "kvs = filter (\<lambda>kv. snd kv \<noteq> []) (configPairs c)"
  have kvs: "\<forall>kv \<in> set kvs. config_key (fst kv) \<and> config_value (snd kv)" "distinct (map fst kvs)"
    using assms(1) configPairs_keys [of c] by (force simp: kvs_def, simp add: kvs_def distinct_map_filter)
  have ck: "config_key k" using assms(2) configPairs_keys(2) [of c] by force
  have nl: "NL \<notin> set q" if "q \<in> set (map setting kvs)" for q
    using that kvs(1) by (auto simp: setting_def config_key_def config_value_def)
  have "render c = concat (map (\<lambda>q. q @ [NL]) (map setting kvs)) @ []" by (simp add: render_def kvs_def comp_def)
  then have "split_on NL (render c) = map setting kvs @ [[]]" using split_on_lines [of "map setting kvs" NL "[]"] nl by simp
  then have "ConfigValue (render c) k = map_of kvs k"
    using fold_settings [OF kvs ck] by (simp add: ConfigValue_def configStep_other hasPrefix_iff)
  also have "\<dots> = (if v = [] then None else Some v)"
  proof (cases "v = []")
    case True
    have "k \<notin> fst ` set kvs"
    proof
      assume "k \<in> fst ` set kvs"
      then obtain v' where "(k, v') \<in> set (configPairs c)" "v' \<noteq> []" by (auto simp: kvs_def)
      then show False using True assms(2) configPairs_keys(1) by (metis eq_key_imp_eq_value)
    qed
    then show ?thesis using True by (simp add: map_of_eq_None_iff)
  next
    case False
    then have "(k, v) \<in> set kvs" using assms(2) by (simp add: kvs_def)
    then show ?thesis using False kvs(2) by simp
  qed
  finally show ?thesis .
qed

lemma SetConfigKey_ok:
  assumes "SetConfigKey w mp key val = (None, w')" "config_key key" "val = [] \<or> config_value val"
  shows "\<exists>content. files w' = (files w)((mp, ConfigFile) \<mapsto> content) \<and>
    ConfigValue content key = (if val = [] then None else Some val) \<and>
    (\<forall>key'. config_key key' \<and> key' \<noteq> key \<longrightarrow>
      ConfigValue content key' = (case files w (mp, ConfigFile) of None \<Rightarrow> None | Some raw \<Rightarrow> ConfigValue raw key'))"
proof -
  let ?p = "(mp, ConfigFile)"
  obtain r w1 where r: "readFile w ?p = (r, w1)" by fastforce
  have f1: "files w1 = files w" using readFile_quiet [OF r] by (simp add: quiet_def)
  have empty: "ConfigValue [] key' = None" for key' by (simp add: ConfigValue_def configStep_other hasPrefix_iff)
  obtain raw where raw: "WriteFile w1 ?p (editConfig raw key val) = (None, w')"
    "files w ?p = Some raw \<or> files w ?p = None \<and> raw = []"
    using assms(1) r readFile_result by (cases r) (auto simp: SetConfigKey_def mapError_simps)
  have "files w' = (files w)(?p \<mapsto> editConfig raw key val)" using wf.wr_ok [OF raw(1)] f1 by simp
  then show ?thesis
    using raw(2) ConfigValue_edit(1) [OF assms(2,3), of raw] ConfigValue_edit(2) [OF assms(2,3), of _ raw] empty by (intro exI [of _ "editConfig raw key val"]) auto
qed

text \<open>The consoles that can be selected, written as a grammar.\<close>

definition consoleTail :: "string \<Rightarrow> bool" where
  "consoleTail s \<longleftrightarrow> s = [] \<or> (\<exists>baud parity bits r. s = '','' @ baud @ parity @ bits @ r \<and> baud \<noteq> [] \<and> list_all is_digit baud \<and>
     parity \<in> {[], ''n'', ''e'', ''o''} \<and> bits \<in> {[], ''5'', ''6'', ''7'', ''8''} \<and> r \<in> {[], ''r''})"

definition consoleGrammar :: "string \<Rightarrow> bool" where
  "consoleGrammar v \<longleftrightarrow> v = [] \<or> (\<exists>n \<in> set consoleNames. \<exists>s. v = n @ s \<and> consoleTail s)"

lemma optional_split: "\<exists>x. s = x @ optional P s \<and> (x = [] \<or> (\<exists>c. x = [c] \<and> P c))"
  by (cases s) (auto simp: optional_def)

lemma bits_char: "53 \<le> code c \<and> code c \<le> 56 \<longleftrightarrow> [c] \<in> {''5'', ''6'', ''7'', ''8''}"
proof -
  have "53 \<le> code c \<and> code c \<le> 56 \<longleftrightarrow> code c = code (CHR ''5'') \<or> code c = code (CHR ''6'') \<or> code c = code (CHR ''7'') \<or> code c = code (CHR ''8'')"
    by (auto simp: le_eq_less_or_eq)
  also have "\<dots> \<longleftrightarrow> c = CHR ''5'' \<or> c = CHR ''6'' \<or> c = CHR ''7'' \<or> c = CHR ''8''" by (simp only: of_char_eq_iff)
  finally show ?thesis by simp
qed

lemma consoleOptions_tail: "consoleOptions s \<longleftrightarrow> consoleTail s"
proof
  assume o: "consoleOptions s"
  show "consoleTail s"
  proof (cases s)
    case (Cons c t)
    let ?d = "dropWhile is_digit t"
    let ?a = "optional (\<lambda>c. c \<in> set ''neo'') ?d"
    let ?b = "optional (\<lambda>c. 53 \<le> code c \<and> code c \<le> 56) ?a"
    have h: "c = CHR '',''" "t \<noteq> []" "is_digit (hd t)" "optional (\<lambda>c. c = CHR ''r'') ?b = []"
      using o by (simp_all add: Cons consoleOptions_def)
    obtain x where x: "?d = x @ ?a" "x = [] \<or> (\<exists>c. x = [c] \<and> c \<in> set ''neo'')" using optional_split by blast
    obtain y where y: "?a = y @ ?b" "y = [] \<or> (\<exists>c. y = [c] \<and> (53 \<le> code c \<and> code c \<le> 56))" using optional_split by blast
    obtain z where z: "?b = z @ []" "z = [] \<or> (\<exists>c. z = [c] \<and> c = CHR ''r'')"
      using optional_split [of ?b "\<lambda>c. c = CHR ''r''"] h(4) by auto
    have "dropWhile is_digit t = x @ y @ z" using x(1) y(1) z(1) by simp
    then have "t = takeWhile is_digit t @ x @ y @ z" using takeWhile_dropWhile_id [of is_digit t] by metis
    then have "s = '','' @ takeWhile is_digit t @ x @ y @ z" using Cons h(1) by simp
    moreover have "takeWhile is_digit t \<noteq> []" using h(2,3) by (cases t) auto
    moreover have "list_all is_digit (takeWhile is_digit t)" by (auto simp: list_all_iff dest: set_takeWhileD)
    moreover have "x \<in> {[], ''n'', ''e'', ''o''}" using x(2) by auto
    moreover have "y \<in> {[], ''5'', ''6'', ''7'', ''8''}" using y(2) bits_char by auto
    moreover have "z \<in> {[], ''r''}" using z(2) by auto
    ultimately show ?thesis unfolding consoleTail_def by blast
  qed (simp add: consoleTail_def)
next
  assume "consoleTail s"
  then consider "s = []" | baud parity bits r where "s = '','' @ baud @ parity @ bits @ r" "baud \<noteq> []" "list_all is_digit baud"
     "parity \<in> {[], ''n'', ''e'', ''o''}" "bits \<in> {[], ''5'', ''6'', ''7'', ''8''}" "r \<in> {[], ''r''}"
    unfolding consoleTail_def by blast
  then show "consoleOptions s"
  proof cases
    case 2
    have "hd (baud @ u) = hd baud" "is_digit (hd baud)" for u using 2(2,3) by (auto simp: list_all_iff)
    moreover have "dropWhile is_digit (baud @ u) = dropWhile is_digit u" for u using 2(3) by (auto simp: list_all_iff dropWhile_append2)
    ultimately have "consoleOptions s \<longleftrightarrow> optional (\<lambda>c. c = CHR ''r'') (optional (\<lambda>c. 53 \<le> code c \<and> code c \<le> 56)
        (optional (\<lambda>c. c \<in> set ''neo'') (dropWhile is_digit (parity @ bits @ r)))) = []"
      using 2(2) by (simp add: 2(1) consoleOptions_def)
    then show ?thesis using 2(4-6) by (auto simp: optional_def is_digit_def)
  qed (simp add: consoleOptions_def)
qed

lemma ValidateConsole_grammar: "ValidateConsole v \<longleftrightarrow> consoleGrammar v"
proof -
  have "(case cutPrefix v n of Some r \<Rightarrow> consoleOptions r | None \<Rightarrow> False) \<longleftrightarrow> (\<exists>s. v = n @ s \<and> consoleTail s)" for n
    by (auto simp: cutPrefix_def hasPrefix_iff consoleOptions_tail)
  then show ?thesis by (simp add: ValidateConsole_def consoleGrammar_def list_ex_iff)
qed


section \<open>Properties\<close>

text \<open>C27: a written configuration reads back.  Rendering a configuration whose values fit on a line and
  reading any of its keys gives the value that was set, or nothing for a value left empty.\<close>

theorem config_reads_back:
  assumes "\<forall>kv \<in> set (configPairs c). snd kv = [] \<or> config_value (snd kv)" "(k, v) \<in> set (configPairs c)"
  shows "ConfigValue (render c) k = (if v = [] then None else Some v)"
  using assms by (rule ConfigValue_render)

definition sample_config :: Config where
  "sample_config = \<lparr>cNet = ''dhcp'', cIPv4 = [], cIPv4Address = [], cIPv4Gateway = [], cIPv6 = [], cIPv6Address = [], cIPv6Gateway = [],
     cSSHListen = [], cSSHPort = ''2222'', cSSHAllow = [], cConsole = ''ttyS0,115200n8'', cESPUUIDs = [], cNetMAC = []\<rparr>"

theorem config_reads_back_witness:
  "ConfigValue (render sample_config) ''alpine-zfsboot.ssh.port'' = Some ''2222'' \<and>
   ConfigValue (render sample_config) ''alpine-zfsboot.ipv4'' = None"
proof -
  have "\<forall>kv \<in> set (configPairs sample_config). snd kv = [] \<or> config_value (snd kv)"
    by (simp add: configPairs_def sample_config_def config_value_def)
  from config_reads_back [OF this, of "''alpine-zfsboot.ssh.port''" "''2222''"] config_reads_back [OF this, of "''alpine-zfsboot.ipv4''" "[]"]
  show ?thesis by (simp add: configPairs_def sample_config_def)
qed

text \<open>C28: changing one configuration key.  When \<open>SetConfigKey\<close> succeeds, only the configuration file has
  changed; a reader finds the new value of the key (or none, if it was cleared), and every other key
  reads as it did before, whatever lines the file held.\<close>

theorem config_key_set:
  assumes "SetConfigKey w mp key val = (None, w')" "config_key key" "val = [] \<or> config_value val"
  shows "\<exists>content. files w' = (files w)((mp, ConfigFile) \<mapsto> content) \<and>
    ConfigValue content key = (if val = [] then None else Some val) \<and>
    (\<forall>key'. config_key key' \<and> key' \<noteq> key \<longrightarrow>
      ConfigValue content key' = (case files w (mp, ConfigFile) of None \<Rightarrow> None | Some raw \<Rightarrow> ConfigValue raw key'))"
  using assms by (rule SetConfigKey_ok)

definition config_store :: world where
  "config_store = \<lparr>files = (\<lambda>_. None)((''/esp'', ConfigFile) \<mapsto> ''a=1'' @ [NL] @ ''b=2''), fsio = [], trace = []\<rparr>"

theorem config_key_set_witness:
  "\<exists>w' content. SetConfigKey config_store ''/esp'' ''a'' ''9'' = (None, w') \<and>
     files w' (''/esp'', ConfigFile) = Some content \<and> ConfigValue content ''a'' = Some ''9''"
proof -
  have "\<exists>w'. SetConfigKey config_store ''/esp'' ''a'' ''9'' = (None, w')"
    by (simp add: SetConfigKey_def config_store_def calm mapError_def)
  then obtain w' where w': "SetConfigKey config_store ''/esp'' ''a'' ''9'' = (None, w')" by blast
  have "config_key ''a''" "''9'' = [] \<or> config_value ''9''" by (simp_all add: config_key_def config_value_def)
  from config_key_set [OF w' this] show ?thesis using w' by auto
qed


end
