(* ===== verification/Esp_Member.thy ===== *)
theory Esp_Member
  imports Esp_Config
begin

text \<open>
  \<open>src/internal/espmember/espmember.go\<close>: the MEMBER file that says which installation an EFI system
  partition belongs to.  The codec is exact (a member reads back if and only if it is well formed, and
  everything the reader accepts is), generated install ids and sanitized texts always pass its checks,
  and what \<open>Write\<close> stores is what \<open>Read\<close> finds.
\<close>

section \<open>The file\<close>

record Member =
  InstallID :: string
  Generation :: u64
  ESPUUID :: string
  Members :: "string list"
  Pool :: string
  Disk :: string
  Written :: string

definition MemberFormat :: nat where "MemberFormat = 1"
definition headerPrefix :: string where "headerPrefix = ''alpine-zfsboot esp-member ''"
definition MemberHeader :: string where "MemberHeader = ''alpine-zfsboot esp-member 1''"

definition upper_hex :: "char \<Rightarrow> bool" where
  "upper_hex c \<longleftrightarrow> is_digit c \<or> (65 \<le> code c \<and> code c \<le> 70)"

definition lower_hexd :: "char \<Rightarrow> bool" where
  "lower_hexd c \<longleftrightarrow> is_digit c \<or> (97 \<le> code c \<and> code c \<le> 102)"

definition fatUUIDRE :: "string \<Rightarrow> bool" where
  "fatUUIDRE s \<longleftrightarrow> length s = 9 \<and> list_all (\<lambda>i. if i = 4 then s ! i = CHR ''-'' else upper_hex (s ! i)) [0..<9]"

definition installIDRE :: "string \<Rightarrow> bool" where
  "installIDRE s \<longleftrightarrow> length s = 36 \<and>
     list_all (\<lambda>i. if i \<in> {8, 13, 18, 23} then s ! i = CHR ''-'' else lower_hexd (s ! i)) [0..<36]"

definition genRE :: "string \<Rightarrow> bool" where
  "genRE s \<longleftrightarrow> 1 \<le> length s \<and> length s \<le> 18 \<and> list_all is_digit s"

definition infoChar :: "char \<Rightarrow> bool" where
  "infoChar c \<longleftrightarrow> is_digit c \<or> is_upper c \<or> is_lower c \<or> c \<in> set '' ._:/@+,()-''"

definition infoRE :: "string \<Rightarrow> bool" where
  "infoRE s \<longleftrightarrow> length s \<le> 128 \<and> list_all infoChar s"

datatype member_error =
    BadUUID string
  | Twice string
  | NotMember string
  | MemberFormatError string
  | MemberLine string
  | BadInstallID string
  | BadGeneration string
  | BadInfo string
  | MemberMissing

definition NormalizeFATUUID :: "string \<Rightarrow> member_error + string" where
  "NormalizeFATUUID s =
     (let u = toUpper (trimSpace s) in if \<not> fatUUIDRE u then Inl (BadUUID s) else Inr u)"

fun parseUUIDs :: "string list \<Rightarrow> string list \<Rightarrow> member_error + string list" where
  "parseUUIDs [] out = Inr out"
| "parseUUIDs (part # parts) out =
     bindE (NormalizeFATUUID part) (\<lambda>u.
     if u \<in> set out then Inl (Twice u) else parseUUIDs parts (out @ [u]))"

definition ParseUUIDList :: "string \<Rightarrow> member_error + string list" where
  "ParseUUIDList s = (if trimSpace s = '''' then Inr [] else parseUUIDs (split_on (CHR '','') s) [])"

text \<open>\<open>NewInstallID\<close> formats 16 random bytes as a version 4 UUID.\<close>

definition installIDBytes :: "bytes \<Rightarrow> bytes" where
  "installIDBytes b = b[6 := char_of (code (b ! 6) mod 16 + 0x40), 8 := char_of (code (b ! 8) mod 64 + 0x80)]"

definition NewInstallID :: "bytes \<Rightarrow> string" where
  "NewInstallID random =
     (let b = installIDBytes random in
      join_with ''-'' [hex_encode (sl b 0 4), hex_encode (sl b 4 6), hex_encode (sl b 6 8), hex_encode (sl b 8 10), hex_encode (sl b 10 16)])"

definition optionalLine :: "string \<Rightarrow> string \<Rightarrow> string list" where
  "optionalLine key v = (if v \<noteq> '''' then [key @ ''='' @ v] else [])"

definition memberLines :: "Member \<Rightarrow> string list" where
  "memberLines m =
     [MemberHeader, ''INSTALL_ID='' @ InstallID m, ''GENERATION='' @ dec (unat (Generation m)), ''ESP_UUID='' @ ESPUUID m,
      ''MEMBERS='' @ join_with '','' (Members m)] @
     optionalLine ''POOL'' (Pool m) @ optionalLine ''DISK'' (Disk m) @ optionalLine ''WRITTEN'' (Written m)"

definition memberEncode :: "Member \<Rightarrow> bytes" where
  "memberEncode m = concat (map (\<lambda>l. l @ [NL]) (memberLines m))"

definition firstN :: "string \<Rightarrow> nat \<Rightarrow> string" where
  "firstN s n = (if length s > n then take n s @ ''...'' else s)"

record decoding =
  dm :: Member
  haveID :: bool
  haveGen :: bool
  haveUUID :: bool

definition memberField :: "string \<Rightarrow> string \<Rightarrow> decoding \<Rightarrow> member_error + decoding" where
  "memberField k v d =
     (if k = ''INSTALL_ID'' then
        (if \<not> installIDRE v then Inl (BadInstallID (firstN v 40))
         else Inr (d\<lparr>dm := (dm d)\<lparr>InstallID := v\<rparr>, haveID := True\<rparr>))
      else if k = ''GENERATION'' then
        (if \<not> genRE v then Inl (BadGeneration (firstN v 20))
         else Inr (d\<lparr>dm := (dm d)\<lparr>Generation := of_nat (dec_val v)\<rparr>, haveGen := True\<rparr>))
      else if k = ''ESP_UUID'' then
        (case NormalizeFATUUID v of
           Inl _ \<Rightarrow> Inl (BadUUID (firstN v 20))
         | Inr u \<Rightarrow> if u \<noteq> v then Inl (BadUUID (firstN v 20))
             else Inr (d\<lparr>dm := (dm d)\<lparr>ESPUUID := u\<rparr>, haveUUID := True\<rparr>))
      else if k = ''MEMBERS'' then
        bindE (ParseUUIDList v) (\<lambda>l. Inr (d\<lparr>dm := (dm d)\<lparr>Members := l\<rparr>\<rparr>))
      else if k = ''POOL'' \<or> k = ''DISK'' \<or> k = ''WRITTEN'' then
        (if \<not> infoRE v then Inl (BadInfo k)
         else if k = ''POOL'' then Inr (d\<lparr>dm := (dm d)\<lparr>Pool := v\<rparr>\<rparr>)
         else if k = ''DISK'' then Inr (d\<lparr>dm := (dm d)\<lparr>Disk := v\<rparr>\<rparr>)
         else Inr (d\<lparr>dm := (dm d)\<lparr>Written := v\<rparr>\<rparr>))
      else Inr d)"

fun memberLoop :: "string list \<Rightarrow> decoding \<Rightarrow> member_error + decoding" where
  "memberLoop [] d = Inr d"
| "memberLoop (line # ls) d =
     (if line = '''' then memberLoop ls d
      else
        case cut line ''='' of
          None \<Rightarrow> Inl (MemberLine (firstN line 40))
        | Some (k, v) \<Rightarrow> bindE (memberField k v d) (memberLoop ls))"

definition noMember :: Member where
  "noMember = \<lparr>InstallID = '''', Generation = 0, ESPUUID = '''', Members = [], Pool = '''', Disk = '''', Written = ''''\<rparr>"

definition memberDecode :: "bytes \<Rightarrow> member_error + Member" where
  "memberDecode raw =
     (let lines = split_on NL (replaceAll [CHR 0x0D, CHR 0x0A] [CHR 0x0A] raw) in
      if \<not> hasPrefix (hd lines) headerPrefix then Inl (NotMember (firstN (hd lines) 40))
      else if trimPrefix (hd lines) headerPrefix \<noteq> dec MemberFormat
        then Inl (MemberFormatError (firstN (trimPrefix (hd lines) headerPrefix) 10))
      else
        bindE (memberLoop (tl lines) \<lparr>dm = noMember, haveID = False, haveGen = False, haveUUID = False\<rparr>) (\<lambda>d.
        if \<not> haveID d \<or> \<not> haveGen d \<or> \<not> haveUUID d then Inl MemberMissing else Inr (dm d)))"

definition SanitizeInfo :: "string \<Rightarrow> string" where
  "SanitizeInfo s = take 128 (map (\<lambda>c. if infoChar c then c else CHR ''_'') s)"

datatype member_write_error = WouldNotDecode member_error | NoRoundTrip | MemberWrite write_error

definition memberValidate :: "Member \<Rightarrow> member_write_error option" where
  "memberValidate m =
     (case memberDecode (memberEncode m) of
        Inl e \<Rightarrow> Some (WouldNotDecode e)
      | Inr got \<Rightarrow>
          if InstallID got \<noteq> InstallID m \<or> ESPUUID got \<noteq> ESPUUID m \<or> Generation got \<noteq> Generation m then Some NoRoundTrip
          else None)"

datatype member_read = MemberAbsent | MemberBad "member_error option" | MemberPresent Member

definition memberRead :: "world \<Rightarrow> string \<Rightarrow> member_read \<times> world" where
  "memberRead w mp =
     (case readFile w (mp, MemberFile) of
        (NotExist, w) \<Rightarrow> (MemberAbsent, w)
      | (ReadError, w) \<Rightarrow> (MemberBad None, w)
      | (Content raw, w) \<Rightarrow> (case memberDecode raw of Inl e \<Rightarrow> (MemberBad (Some e), w) | Inr m \<Rightarrow> (MemberPresent m, w)))"

definition memberWrite :: "world \<Rightarrow> string \<Rightarrow> Member \<Rightarrow> member_write_error option \<times> world" where
  "memberWrite w mp m =
     (case memberValidate m of
        Some e \<Rightarrow> (Some e, w)
      | None \<Rightarrow> mapError MemberWrite (WriteFile w (mp, MemberFile) (memberEncode m)))"

text \<open>Removing a member also tries to sync the directory; neither failure of that is reported.\<close>

definition memberRemove :: "world \<Rightarrow> string \<Rightarrow> bool \<times> world" where
  "memberRemove w mp =
     (case removeFile w (mp, MemberFile) of
        (False, w) \<Rightarrow> (False, w)
      | (True, w) \<Rightarrow> (case fs_call w of (opened, w) \<Rightarrow> if opened then (True, snd (fs_call w)) else (True, w)))"


section \<open>The codec is exact\<close>

definition wf_member :: "Member \<Rightarrow> bool" where
  "wf_member m \<longleftrightarrow> installIDRE (InstallID m) \<and> unat (Generation m) < 10 ^ 18 \<and> fatUUIDRE (ESPUUID m) \<and>
     list_all fatUUIDRE (Members m) \<and> distinct (Members m) \<and> infoRE (Pool m) \<and> infoRE (Disk m) \<and> infoRE (Written m)"

lemma fatUUIDRE_chars:
  assumes "fatUUIDRE u" "c \<in> set u"
  shows "c = CHR ''-'' \<or> upper_hex c"
proof -
  obtain i where "i < 9" "c = u ! i" using assms by (auto simp: in_set_conv_nth fatUUIDRE_def)
  then show ?thesis using assms(1) by (cases "i = 4") (auto simp: fatUUIDRE_def list_all_iff)
qed

lemma uuid_char: "c = CHR ''-'' \<or> upper_hex c \<Longrightarrow> graphic c \<and> \<not> is_lower c \<and> c \<noteq> CHR '',''"
  by (auto simp: upper_hex_def graphic_def is_lower_def is_digit_def)

lemma upper_fixed: "\<not> is_lower c \<Longrightarrow> upper c = c"
  by (simp add: upper_def)

lemma NormalizeFATUUID_iff [simp]: "fatUUIDRE u \<Longrightarrow> NormalizeFATUUID u = Inr u"
proof -
  assume u: "fatUUIDRE u"
  then have c: "graphic c" "\<not> is_lower c" if "c \<in> set u" for c using fatUUIDRE_chars [OF u that] uuid_char by auto
  have "trimSpace u = u" using c by (intro graphic_trim)
  moreover have "toUpper u = u" using c by (simp add: toUpper_def map_idI upper_fixed)
  ultimately show ?thesis using u by (simp add: NormalizeFATUUID_def)
qed

lemma NormalizeFATUUID_Inr: "NormalizeFATUUID s = Inr u \<Longrightarrow> fatUUIDRE u"
  by (auto simp: NormalizeFATUUID_def Let_def split: if_splits)

lemma parseUUIDs_ok: "list_all fatUUIDRE us \<Longrightarrow> distinct (out @ us) \<Longrightarrow> parseUUIDs us out = Inr (out @ us)"
  by (induction us arbitrary: out) auto

lemma parseUUIDs_Inr:
  "parseUUIDs parts out = Inr us \<Longrightarrow> list_all fatUUIDRE out \<Longrightarrow> distinct out \<Longrightarrow> list_all fatUUIDRE us \<and> distinct us"
proof (induction parts arbitrary: out)
  case (Cons p ps)
  then show ?case by (auto split: if_splits dest!: NormalizeFATUUID_Inr)
qed simp

lemma ParseUUIDList_Inr: "ParseUUIDList s = Inr us \<Longrightarrow> list_all fatUUIDRE us \<and> distinct us"
  by (auto simp: ParseUUIDList_def split: if_splits dest: parseUUIDs_Inr)

lemma joined_uuid_chars:
  "list_all fatUUIDRE us \<Longrightarrow> c \<in> set (join_with '','' us) \<Longrightarrow> c = CHR '','' \<or> c = CHR ''-'' \<or> upper_hex c"
  by (induction "'',''" us rule: join_with.induct) (auto dest: fatUUIDRE_chars)

lemma ParseUUIDList_join:
  assumes "list_all fatUUIDRE us" "distinct us"
  shows "ParseUUIDList (join_with '','' us) = Inr us"
proof (cases "us = []")
  case False
  have g: "graphic c" if "c \<in> set (join_with '','' us)" for c
    using joined_uuid_chars [OF assms(1) that] uuid_char [of c] by (elim disjE) (simp_all add: graphic_def)
  have no: "CHR '','' \<notin> set u" if "u \<in> set us" for u
    using assms(1) that fatUUIDRE_chars [of u "CHR '',''"] uuid_char [of "CHR '',''"] unfolding list_all_iff by blast
  have s: "split_on (CHR '','') (join_with '','' us) = us" by (rule split_join [OF False]) (use no in auto)
  have "join_with '','' us \<noteq> []"
  proof
    assume "join_with '','' us = []"
    then have "us = [[]]" using s by simp
    then show False using assms(1) by (simp add: fatUUIDRE_def)
  qed
  then show ?thesis using parseUUIDs_ok [of us "[]"] assms by (simp add: ParseUUIDList_def graphic_trim [OF g] s)
qed (simp add: ParseUUIDList_def)

lemma genRE_dec: "n < 10 ^ 18 \<Longrightarrow> genRE (dec n)"
  using length_dec [of n 18] by (simp add: genRE_def list_all_iff dec_digits Suc_le_eq)

lemma infoRE_chars: "infoRE s \<Longrightarrow> c \<in> set s \<Longrightarrow> infoChar c"
  by (simp add: infoRE_def list_all_iff)

lemma plain_chars:
  "infoChar c \<Longrightarrow> c \<noteq> NL \<and> c \<noteq> CHR 0x0D" "is_digit c \<Longrightarrow> infoChar c" "upper_hex c \<Longrightarrow> infoChar c" "lower_hexd c \<Longrightarrow> infoChar c"
  "infoChar (CHR ''-'')" "infoChar (CHR '','')"
  by (auto simp: infoChar_def upper_hex_def lower_hexd_def is_digit_def is_upper_def is_lower_def)

lemma installIDRE_chars: "installIDRE s \<Longrightarrow> c \<in> set s \<Longrightarrow> infoChar c"
proof -
  assume a: "installIDRE s" "c \<in> set s"
  then obtain i where i: "i < 36" "c = s ! i" by (auto simp: in_set_conv_nth installIDRE_def)
  have "\<forall>i \<in> set [0..<36]. if i \<in> {8, 13, 18, 23} then s ! i = CHR ''-'' else lower_hexd (s ! i)"
    using a(1) unfolding installIDRE_def list_all_iff by (rule conjunct2)
  then have "if i \<in> {8, 13, 18, 23} then c = CHR ''-'' else lower_hexd c" using i by (simp only: set_upt) simp
  then have "c = CHR ''-'' \<or> lower_hexd c" by presburger
  then show ?thesis using plain_chars by auto
qed

lemma memberLines_chars:
  assumes "wf_member m" "l \<in> set (memberLines m)" "c \<in> set l"
  shows "c \<noteq> NL \<and> c \<noteq> CHR 0x0D"
proof -
  have v: "infoChar c" if "c \<in> set (InstallID m) \<or> c \<in> set (dec (unat (Generation m))) \<or> c \<in> set (ESPUUID m) \<or> c \<in> set (join_with '','' (Members m)) \<or>
      c \<in> set (Pool m) \<or> c \<in> set (Disk m) \<or> c \<in> set (Written m)"
    using that assms(1) installIDRE_chars infoRE_chars joined_uuid_chars [of "Members m" c] fatUUIDRE_chars [of "ESPUUID m" c] dec_digits plain_chars
    by (auto simp: wf_member_def)
  show ?thesis
    using assms(2,3) v plain_chars(1) [of c]
    by (auto simp: memberLines_def optionalLine_def MemberHeader_def split: if_splits)
qed

lemma cut_line: "CHR ''='' \<notin> set k \<Longrightarrow> cut (k @ CHR ''='' # v) ''='' = Some (k, v)"
  by simp

lemma memberLoop_line:
  "CHR ''='' \<notin> set k \<Longrightarrow> memberLoop ((k @ CHR ''='' # v) # ls) d = bindE (memberField k v d) (memberLoop ls)"
  by (simp add: cut_line)

lemma memberLoop_optional:
  assumes "infoRE v"
  shows "memberLoop (optionalLine ''POOL'' v @ ls) d = memberLoop ls (if v = [] then d else d\<lparr>dm := (dm d)\<lparr>Pool := v\<rparr>\<rparr>)"
    "memberLoop (optionalLine ''DISK'' v @ ls) d = memberLoop ls (if v = [] then d else d\<lparr>dm := (dm d)\<lparr>Disk := v\<rparr>\<rparr>)"
    "memberLoop (optionalLine ''WRITTEN'' v @ ls) d = memberLoop ls (if v = [] then d else d\<lparr>dm := (dm d)\<lparr>Written := v\<rparr>\<rparr>)"
  using assms memberLoop_line [of "''POOL''" v ls d] memberLoop_line [of "''DISK''" v ls d] memberLoop_line [of "''WRITTEN''" v ls d]
  by (simp_all add: optionalLine_def memberField_def)

lemma memberLoop_lines:
  assumes "wf_member m"
  shows "memberLoop (tl (memberLines m) @ [[]]) \<lparr>dm = noMember, haveID = False, haveGen = False, haveUUID = False\<rparr> =
    Inr \<lparr>dm = m, haveID = True, haveGen = True, haveUUID = True\<rparr>"
proof -
  let ?d = "\<lparr>dm = \<lparr>InstallID = InstallID m, Generation = Generation m, ESPUUID = ESPUUID m, Members = Members m,
      Pool = [], Disk = [], Written = []\<rparr>, haveID = True, haveGen = True, haveUUID = True\<rparr>"
  let ?opt = "optionalLine ''POOL'' (Pool m) @ optionalLine ''DISK'' (Disk m) @ optionalLine ''WRITTEN'' (Written m) @ [[]]"
  have p: "installIDRE (InstallID m)" "genRE (dec (unat (Generation m)))" "fatUUIDRE (ESPUUID m)"
    "ParseUUIDList (join_with '','' (Members m)) = Inr (Members m)" "infoRE (Pool m)" "infoRE (Disk m)" "infoRE (Written m)"
    using assms genRE_dec ParseUUIDList_join by (auto simp: wf_member_def)
  have "memberLoop (tl (memberLines m) @ [[]]) \<lparr>dm = noMember, haveID = False, haveGen = False, haveUUID = False\<rparr> = memberLoop ?opt ?d"
    using p(1-4) memberLoop_line [of "''INSTALL_ID''" "InstallID m"] memberLoop_line [of "''GENERATION''" "dec (unat (Generation m))"]
      memberLoop_line [of "''ESP_UUID''" "ESPUUID m"] memberLoop_line [of "''MEMBERS''" "join_with '','' (Members m)"]
    by (simp add: memberLines_def memberField_def noMember_def)
  also have "\<dots> = Inr \<lparr>dm = m, haveID = True, haveGen = True, haveUUID = True\<rparr>"
    using p(5-7) by (cases m) (simp add: memberLoop_optional)
  finally show ?thesis .
qed

lemma memberDecode_Encode:
  assumes "wf_member m"
  shows "memberDecode (memberEncode m) = Inr m"
proof -
  have cr: "CHR 0x0D \<notin> set (memberEncode m)" using memberLines_chars [OF assms, of _ "CHR 0x0D"] by (auto simp: memberEncode_def)
  have nl: "NL \<notin> set q" if "q \<in> set (memberLines m)" for q using memberLines_chars [OF assms that] by auto
  have sp: "split_on NL (replaceAll [CHR 0x0D, CHR 0x0A] [CHR 0x0A] (memberEncode m)) = memberLines m @ [[]]"
    using replaceAll_absent [of "[CHR 0x0D, CHR 0x0A]" "memberEncode m"] cr split_on_lines [of "memberLines m" NL "[]", OF nl]
    by (simp add: memberEncode_def)
  have hd: "hd (memberLines m @ [[]]) = headerPrefix @ ''1''" "tl (memberLines m @ [[]]) = tl (memberLines m) @ [[]]"
    by (simp_all add: memberLines_def MemberHeader_def headerPrefix_def)
  have one: "dec MemberFormat = ''1''" by code_simp
  show ?thesis
    unfolding memberDecode_def sp Let_def hd by (simp add: trimPrefix_def one memberLoop_lines [OF assms])
qed

text \<open>What the loop of the decoder keeps of every field.\<close>

definition decoding_ok :: "decoding \<Rightarrow> bool" where
  "decoding_ok d \<longleftrightarrow> (haveID d \<longrightarrow> installIDRE (InstallID (dm d))) \<and> unat (Generation (dm d)) < 10 ^ 18 \<and>
     (haveUUID d \<longrightarrow> fatUUIDRE (ESPUUID (dm d))) \<and> list_all fatUUIDRE (Members (dm d)) \<and> distinct (Members (dm d)) \<and>
     infoRE (Pool (dm d)) \<and> infoRE (Disk (dm d)) \<and> infoRE (Written (dm d))"

lemma genRE_bound: "genRE v \<Longrightarrow> unat (of_nat (dec_val v) :: u64) < 10 ^ 18"
proof -
  assume g: "genRE v"
  then have "dec_val v < 10 ^ length v" by (intro dec_val_bound) (auto simp: genRE_def list_all_iff)
  also have "\<dots> \<le> 10 ^ 18" using g by (intro power_increasing) (auto simp: genRE_def)
  finally have "dec_val v < 10 ^ 18" .
  then show ?thesis by (simp add: unat_of_nat take_bit_nat_eq_self)
qed

lemma memberField_ok: "memberField k v d = Inr d' \<Longrightarrow> decoding_ok d \<Longrightarrow> decoding_ok d'"
proof -
  assume f: "memberField k v d = Inr d'" and d: "decoding_ok d"
  consider "k = ''INSTALL_ID''" | "k = ''GENERATION''" | "k = ''ESP_UUID''" | "k = ''MEMBERS''" | "k = ''POOL''" | "k = ''DISK''" | "k = ''WRITTEN''"
    | "d' = d" using f unfolding memberField_def by (auto split: if_splits)
  then show ?thesis
  proof cases
    case 2
    then show ?thesis using f d genRE_bound by (auto simp: memberField_def decoding_ok_def split: if_splits)
  next
    case 3
    then show ?thesis using f d by (auto simp: memberField_def decoding_ok_def split: if_splits sum.splits dest: NormalizeFATUUID_Inr)
  next
    case 4
    then show ?thesis using f d by (auto simp: memberField_def decoding_ok_def dest: ParseUUIDList_Inr)
  qed (use f d in \<open>auto simp: memberField_def decoding_ok_def split: if_splits\<close>)
qed

lemma memberLoop_ok: "memberLoop ls d = Inr d' \<Longrightarrow> decoding_ok d \<Longrightarrow> decoding_ok d'"
  by (induction ls arbitrary: d) (auto split: if_splits option.splits, metis memberField_ok)

lemma memberDecode_wf: "memberDecode raw = Inr m \<Longrightarrow> wf_member m"
proof -
  assume "memberDecode raw = Inr m"
  then obtain ls d where l: "memberLoop ls \<lparr>dm = noMember, haveID = False, haveGen = False, haveUUID = False\<rparr> = Inr d"
    and d: "haveID d" "haveUUID d" "dm d = m"
    by (auto simp: memberDecode_def Let_def split: if_splits)
  have "decoding_ok \<lparr>dm = noMember, haveID = False, haveGen = False, haveUUID = False\<rparr>"
    by (simp add: decoding_ok_def noMember_def infoRE_def)
  from memberLoop_ok [OF l this] d show ?thesis by (simp add: decoding_ok_def wf_member_def)
qed

interpretation member: codec wf_member memberEncode memberDecode
  by unfold_locales (rule memberDecode_Encode)


section \<open>What the tool writes\<close>

lemma memberValidate_wf: "wf_member m \<Longrightarrow> memberValidate m = None"
  by (simp add: memberValidate_def member.round_trip)

lemma infoRE_Sanitize: "infoRE (SanitizeInfo s)"
  by (auto simp: infoRE_def SanitizeInfo_def list_all_iff dest!: in_set_takeD) (simp add: infoChar_def)

lemma hex_nth: "i < 2 * length b \<Longrightarrow> lower_hexd (hex_encode b ! i)"
  using hex_encode_chars [of "hex_encode b ! i" b] nth_mem [of i "hex_encode b"] by (simp add: lower_hexd_def)

lemma installIDRE_New:
  assumes "length random = 16"
  shows "installIDRE (NewInstallID random)"
proof -
  define b where "b = installIDBytes random"
  have b: "length b = 16" using assms by (simp add: b_def installIDBytes_def)
  define h where "h i j = hex_encode (sl b i j)" for i j
  have len: "length (h 0 4) = 8" "length (h 4 6) = 4" "length (h 6 8) = 4" "length (h 8 10) = 4" "length (h 10 16) = 12"
    using b by (simp_all add: h_def sl_def)
  have hex: "list_all lower_hexd (h i j)" for i j
    using hex_nth [of _ "sl b i j"] by (auto simp: list_all_length h_def)
  have id: "NewInstallID random = h 0 4 @ CHR ''-'' # h 4 6 @ CHR ''-'' # h 6 8 @ CHR ''-'' # h 8 10 @ CHR ''-'' # h 10 16"
    by (simp add: NewInstallID_def b_def [symmetric] Let_def h_def)
  have pat: "list_all (\<lambda>i. if i \<in> {8, 13, 18, 23} then s ! i = CHR ''-'' else lower_hexd (s ! i)) [0..<36]"
    if "s = v @ CHR ''-'' # w @ CHR ''-'' # x @ CHR ''-'' # y @ CHR ''-'' # z"
      "length v = 8" "length w = 4" "length x = 4" "length y = 4" "length z = 12"
      "list_all lower_hexd v" "list_all lower_hexd w" "list_all lower_hexd x" "list_all lower_hexd y" "list_all lower_hexd z" for s v w x y z
    using that(2-) by (auto simp: that(1) list_all_length nth_append nth_Cons split: nat.split)
  show ?thesis unfolding installIDRE_def using pat [OF id len hex hex hex hex hex] len by (simp add: id)
qed

lemma memberWrite_ok:
  assumes "memberWrite w mp m = (None, w')"
  shows "files w' = (files w)((mp, MemberFile) \<mapsto> memberEncode m) \<and>
    (\<exists>got. memberDecode (memberEncode m) = Inr got \<and> wf_member got \<and> InstallID got = InstallID m \<and> ESPUUID got = ESPUUID m \<and>
      Generation got = Generation m)"
  using assms wf.wr_ok memberDecode_wf
  by (fastforce simp: memberWrite_def memberValidate_def mapError_simps split: option.splits sum.splits if_splits)


section \<open>Properties\<close>

text \<open>C30: the MEMBER format loses nothing and invents nothing.  A member reads back from its encoding if and
  only if it is well formed (lower-case UUID, generation of at most 18 digits, upper-case FAT UUIDs, no
  UUID listed twice, plain informational text), and everything the decoder accepts is well formed.\<close>

theorem member_codec:
  "(memberDecode (memberEncode m) = Inr m \<longleftrightarrow> wf_member m) \<and> (memberDecode raw = Inr m \<longrightarrow> wf_member m)"
  by (blast intro: memberDecode_Encode memberDecode_wf)

theorem member_codec_witness:
  "\<exists>m. memberDecode (memberEncode (noMember\<lparr>InstallID := NewInstallID (replicate 16 NUL), ESPUUID := ''ABCD-0123''\<rparr>)) = Inr m \<and> wf_member m"
proof -
  let ?m = "noMember\<lparr>InstallID := NewInstallID (replicate 16 NUL), ESPUUID := ''ABCD-0123''\<rparr>"
  have "fatUUIDRE ''ABCD-0123''" by code_simp
  then have "wf_member ?m" using installIDRE_New [of "replicate 16 NUL"] by (simp add: wf_member_def noMember_def infoRE_def)
  then show ?thesis using member_codec [of ?m "memberEncode ?m"] by blast
qed

text \<open>C31: the tool never refuses a marker it made itself.  A member with a freshly generated install id, FAT
  UUIDs as the scanner reports them, each listed once, a generation below 10 to the 18 and sanitized
  descriptions passes the check before writing.\<close>

theorem built_member_valid:
  assumes "length random = 16" "fatUUIDRE uuid" "list_all fatUUIDRE uuids" "distinct uuids" "unat gen < 10 ^ 18" "infoRE written"
  shows "memberValidate \<lparr>InstallID = NewInstallID random, Generation = gen, ESPUUID = uuid, Members = uuids,
    Pool = SanitizeInfo pool, Disk = SanitizeInfo disk, Written = written\<rparr> = None"
  using assms by (intro memberValidate_wf) (simp add: wf_member_def installIDRE_New infoRE_Sanitize)

theorem built_member_valid_witness:
  "memberValidate \<lparr>InstallID = NewInstallID (replicate 16 (CHR ''x'')), Generation = 7, ESPUUID = ''ABCD-0123'', Members = [''ABCD-0123''],
    Pool = SanitizeInfo ''zroot'', Disk = SanitizeInfo ''a=b'', Written = ''''\<rparr> = None"
proof -
  have "fatUUIDRE ''ABCD-0123''" by code_simp
  then show ?thesis by (intro built_member_valid) (simp_all add: infoRE_def)
qed

text \<open>C32: what \<open>Write\<close> stores is what \<open>Read\<close> finds.  A successful write changes only the MEMBER file, and that
  file decodes to a well-formed member with the same install id, FAT UUID and generation.\<close>

theorem member_written:
  assumes "memberWrite w mp m = (None, w')"
  shows "files w' = (files w)((mp, MemberFile) \<mapsto> memberEncode m) \<and>
    (\<exists>got. memberDecode (memberEncode m) = Inr got \<and> wf_member got \<and> InstallID got = InstallID m \<and> ESPUUID got = ESPUUID m \<and>
      Generation got = Generation m)"
  using assms by (rule memberWrite_ok)

theorem member_written_witness:
  "\<exists>w'. memberWrite config_store ''/esp'' (noMember\<lparr>InstallID := NewInstallID (replicate 16 NUL), ESPUUID := ''ABCD-0123''\<rparr>) = (None, w') \<and>
     files w' (''/esp'', MemberFile) \<noteq> None"
proof -
  let ?m = "noMember\<lparr>InstallID := NewInstallID (replicate 16 NUL), ESPUUID := ''ABCD-0123''\<rparr>"
  have "fatUUIDRE ''ABCD-0123''" by code_simp
  then have "wf_member ?m" using installIDRE_New [of "replicate 16 NUL"] by (simp add: wf_member_def noMember_def infoRE_def)
  then have "\<exists>w'. memberWrite config_store ''/esp'' ?m = (None, w')"
    by (simp add: memberWrite_def memberValidate_wf config_store_def calm mapError_def)
  then obtain w' where w': "memberWrite config_store ''/esp'' ?m = (None, w')" by blast
  from member_written [OF this] show ?thesis using w' by auto
qed

end
