(* ===== verification/Boot_Env.thy ===== *)
theory Boot_Env
  imports Esp_Member
begin

text \<open>
  \<open>src/internal/bootenv/bootenv.go\<close>, apart from the stage2 extent gate (theory \<open>Extent_Gate\<close>): reading the
  label of a FAT boot sector, the kernel's tables of partitions and mounts, the rule that picks a single
  partition, and the mapping from a partition to its disk.  Symbolic links, the contents of
  \<open>/proc/self/mounts\<close> and the result of \<open>mount(2)\<close> are arguments.
\<close>

section \<open>FAT boot sectors\<close>

definition FATVolumeLabel :: string where "FATVolumeLabel = ''EFI''"
definition fatBPBMinSize :: nat where "fatBPBMinSize = 90"
definition fatFSTypeOff :: nat where "fatFSTypeOff = 82"
definition fatFSTypeLen :: nat where "fatFSTypeLen = 8"
definition fatVolumeLabelOff :: nat where "fatVolumeLabelOff = 71"
definition fatVolumeLabelLen :: nat where "fatVolumeLabelLen = 11"

definition fat32VolumeLabel :: "bytes \<Rightarrow> string option" where
  "fat32VolumeLabel sector =
     (if length sector < fatBPBMinSize then None
      else if sl sector fatFSTypeOff (fatFSTypeOff + fatFSTypeLen) \<noteq> ''FAT32   '' then None
      else Some (trimRight (\<lambda>c. c = SP) (sl sector fatVolumeLabelOff (fatVolumeLabelOff + fatVolumeLabelLen))))"

section \<open>The single partition of an installation\<close>

record espCandidate =
  candDev :: string
  candUUID :: string
  hasConfigMarker :: bool
  hasPayloadMarker :: bool

definition qualifies :: "espCandidate \<Rightarrow> bool" where
  "qualifies c \<longleftrightarrow> hasConfigMarker c \<and> hasPayloadMarker c"

datatype esp_error = NoESPFound nat | MoreThanOneESP "(string \<times> string) list"

definition selectESP :: "espCandidate list \<Rightarrow> esp_error + string" where
  "selectESP candidates =
     (case filter qualifies candidates of
        [] \<Rightarrow> Inl (NoESPFound (length candidates))
      | [c] \<Rightarrow> Inr (candDev c)
      | qualifying \<Rightarrow> Inl (MoreThanOneESP (map (\<lambda>c. (candDev c, candUUID c)) qualifying)))"

text \<open>\<open>probeMarkers\<close> on a mounted partition; \<open>exists\<close> is \<open>os.Stat\<close> succeeding on a file of it.\<close>

definition probeMarkers :: "(string \<Rightarrow> bool) \<Rightarrow> espCandidate" where
  "probeMarkers exists =
     \<lparr>candDev = [], candUUID = [],
      hasConfigMarker = list_ex exists [ConfigFile, AuthorizedKeysFile, SSHHostEd25519KeyFile],
      hasPayloadMarker = list_ex exists [EFIBootDir @ ''/BOOTX64.EFI'', EFIBootDir @ ''/BOOTAA64.EFI'', KernelFile]\<rparr>"

text \<open>\<open>findFATLabelDevices\<close>, given the devices and what reading the first bytes of each gives.\<close>

definition findFATLabelDevices :: "string list \<Rightarrow> (string \<Rightarrow> bytes option) \<Rightarrow> string \<Rightarrow> string list" where
  "findFATLabelDevices devs readFirst label =
     filter (\<lambda>dev. case readFirst dev of None \<Rightarrow> False | Some sector \<Rightarrow> fat32VolumeLabel sector = Some label) devs"

section \<open>Tables of the kernel\<close>

definition parseProcPartitions :: "string \<Rightarrow> string list" where
  "parseProcPartitions content =
     concat (map (\<lambda>line. if trimSpace line = [] then []
        else if length (Fields line) \<noteq> 4 then [] else [''/dev/'' @ Fields line ! 3]) (tl (split_on NL content)))"

definition mountFieldEscapes :: "(string \<times> string) list" where
  "mountFieldEscapes =
     [([CHR 0x5C] @ ''040'', [SP]), ([CHR 0x5C] @ ''011'', [CHR 0x09]), ([CHR 0x5C] @ ''012'', [NL]), ([CHR 0x5C] @ ''134'', [CHR 0x5C])]"

definition unescapeMountField :: "string \<Rightarrow> string" where
  "unescapeMountField s = foldl (\<lambda>s (from, to). replaceAll from to s) s mountFieldEscapes"

fun existingMount :: "string list \<Rightarrow> string \<Rightarrow> (string \<Rightarrow> string option) \<Rightarrow> (string \<times> bool) option" where
  "existingMount [] dev resolve = None"
| "existingMount (line # ls) dev resolve =
     (let fs = Fields line in
      if length fs < 4 then existingMount ls dev resolve
      else
        let mdev = unescapeMountField (fs ! 0);
            match = (mdev = dev \<or> (resolve dev \<noteq> None \<and> resolve mdev \<noteq> None \<and> resolve mdev = resolve dev))
        in if \<not> match then existingMount ls dev resolve
           else let opts = split_on (CHR '','') (fs ! 3)
                in Some (unescapeMountField (fs ! 1), opts \<noteq> [] \<and> opts ! 0 = ''rw''))"

definition parseExistingMount :: "string \<Rightarrow> string \<Rightarrow> (string \<Rightarrow> string option) \<Rightarrow> (string \<times> bool) option" where
  "parseExistingMount mounts dev resolve = existingMount (split_on NL mounts) dev resolve"

definition mountAtLine :: "string \<Rightarrow> (string \<times> string) option \<Rightarrow> string \<Rightarrow> (string \<times> string) option" where
  "mountAtLine mountpoint found line =
     (let fs = Fields line in
      if length fs < 4 then found
      else if unescapeMountField (fs ! 1) = mountpoint then Some (unescapeMountField (fs ! 0), fs ! 2)
      else found)"

definition parseMountAtPath :: "string \<Rightarrow> string \<Rightarrow> (string \<times> string) option" where
  "parseMountAtPath mounts mountpoint = foldl (mountAtLine mountpoint) None (split_on NL mounts)"

section \<open>Partitions and disks\<close>

definition trailingDigits :: "string \<Rightarrow> string" where
  "trailingDigits s = rev (takeWhile is_digit (rev s))"

definition beforeDigits :: "string \<Rightarrow> string" where
  "beforeDigits s = rev (dropWhile is_digit (rev s))"

text \<open>The pattern \<open>^(.*\d)p(\d+)$\<close>.\<close>

definition partitionSuffixP :: "string \<Rightarrow> string option" where
  "partitionSuffixP s =
     (let b = beforeDigits s in
      if trailingDigits s \<noteq> [] \<and> b \<noteq> [] \<and> last b = CHR ''p'' \<and> butlast b \<noteq> [] \<and> is_digit (last (butlast b)) \<and> NL \<notin> set (butlast b)
      then Some (butlast b) else None)"

text \<open>The pattern \<open>(nvme\d+n\d+|mmcblk\d+|loop\d+|nbd\d+|md\d+)$\<close>.\<close>

definition pSuffixWholeDisk :: "string \<Rightarrow> bool" where
  "pSuffixWholeDisk s \<longleftrightarrow>
     (let b = beforeDigits s in
      trailingDigits s \<noteq> [] \<and>
      (hasSuffix b ''mmcblk'' \<or> hasSuffix b ''loop'' \<or> hasSuffix b ''nbd'' \<or> hasSuffix b ''md'' \<or>
       (hasSuffix b ''n'' \<and> trailingDigits (butlast b) \<noteq> [] \<and> hasSuffix (beforeDigits (butlast b)) ''nvme'')))"

text \<open>The pattern \<open>^(.*[a-zA-Z])(\d+)$\<close>.\<close>

definition partitionSuffixPlain :: "string \<Rightarrow> string option" where
  "partitionSuffixPlain s =
     (let b = beforeDigits s in
      if trailingDigits s \<noteq> [] \<and> b \<noteq> [] \<and> (is_upper (last b) \<or> is_lower (last b)) \<and> NL \<notin> set b then Some b else None)"

definition DevicePartitionBase :: "string \<Rightarrow> string" where
  "DevicePartitionBase part =
     (case partitionSuffixP part of
        Some b \<Rightarrow> b
      | None \<Rightarrow> if pSuffixWholeDisk part then part
          else (case partitionSuffixPlain part of Some b \<Rightarrow> b | None \<Rightarrow> part))"

datatype mount_error = NotMounted | NotVfat string | WrongDisk string string | MountedReadOnly string | NoMountpoint | MountFailed

definition checkMountInfo :: "(string \<times> string) option \<Rightarrow> string \<Rightarrow> (string \<Rightarrow> string) \<Rightarrow> mount_error option" where
  "checkMountInfo found diskArg resolve =
     (case found of
        None \<Rightarrow> Some NotMounted
      | Some (dev, fstype) \<Rightarrow>
          if fstype \<noteq> ''vfat'' then Some (NotVfat fstype)
          else if diskArg = [] then None
          else
            let gotDisk = DevicePartitionBase (resolve dev); wantDisk = DevicePartitionBase (resolve diskArg)
            in if gotDisk \<noteq> wantDisk then Some (WrongDisk gotDisk wantDisk) else None)"

definition resolveSymlinkOrSelf :: "(string \<Rightarrow> string option) \<Rightarrow> string \<Rightarrow> string" where
  "resolveSymlinkOrSelf evalSymlinks p = (case evalSymlinks p of Some real \<Rightarrow> real | None \<Rightarrow> p)"

definition canonicalizeMountpoint :: "(string \<Rightarrow> string option) \<Rightarrow> (string \<Rightarrow> string option) \<Rightarrow> string \<Rightarrow> string" where
  "canonicalizeMountpoint absPath evalSymlinks mountpoint =
     resolveSymlinkOrSelf evalSymlinks (case absPath mountpoint of Some a \<Rightarrow> a | None \<Rightarrow> mountpoint)"

text \<open>\<open>FindMountAtPath\<close> and \<open>VerifyESPMounted\<close>; \<open>mounts\<close> is none when \<open>/proc/self/mounts\<close> cannot be read.\<close>

definition FindMountAtPath :: "string option \<Rightarrow> string \<Rightarrow> (string \<times> string) option" where
  "FindMountAtPath mounts mountpoint = (case mounts of None \<Rightarrow> None | Some m \<Rightarrow> parseMountAtPath m mountpoint)"

definition VerifyESPMounted :: "string option \<Rightarrow> (string \<Rightarrow> string option) \<Rightarrow> (string \<Rightarrow> string option) \<Rightarrow> string \<Rightarrow> string \<Rightarrow> mount_error option" where
  "VerifyESPMounted mounts absPath evalSymlinks mountpoint diskArg =
     checkMountInfo (FindMountAtPath mounts (canonicalizeMountpoint absPath evalSymlinks mountpoint)) diskArg (resolveSymlinkOrSelf evalSymlinks)"

text \<open>\<open>MountESP\<close>: the mountpoint and whether it is a new one, which the caller has to unmount.  \<open>tempDir\<close> is the
  result of \<open>os.MkdirTemp\<close>, \<open>mounted\<close> whether \<open>mount(2)\<close> succeeds.\<close>

definition MountESP :: "string option \<Rightarrow> (string \<Rightarrow> string option) \<Rightarrow> string option \<Rightarrow> bool \<Rightarrow> string \<Rightarrow> bool \<Rightarrow> mount_error + string \<times> bool" where
  "MountESP mounts evalSymlinks tempDir mounted dev readonly =
     (case (case mounts of None \<Rightarrow> None | Some m \<Rightarrow> parseExistingMount m dev evalSymlinks) of
        Some (mp, rw) \<Rightarrow> if readonly \<or> rw then Inr (mp, False) else Inl (MountedReadOnly mp)
      | None \<Rightarrow>
          (case tempDir of
             None \<Rightarrow> Inl NoMountpoint
           | Some mp \<Rightarrow> if mounted then Inr (mp, True) else Inl MountFailed))"

datatype DiskLayout = LayoutUnknown | LayoutGPT | LayoutMSDOS

definition parseDiskLayout :: "bytes \<Rightarrow> DiskLayout" where
  "parseDiskLayout lba1 = (if length lba1 \<ge> 8 \<and> take 8 lba1 = ''EFI PART'' then LayoutGPT else LayoutMSDOS)"

text \<open>\<open>DiskOfESP\<close>; what \<open>/sys/class/block\<close> says of the device is an argument: none without an entry, else
  whether it is a partition and, if its link resolves, the name of the directory above it.\<close>

record sys_block =
  isPartition :: bool
  sysParent :: "string option"

datatype disk_error = OnRAID string | WholeDiskFAT | Unresolved

definition baseName :: "string \<Rightarrow> string" where
  "baseName p = last (split_on (CHR ''/'') p)"

definition refuseParent :: "string \<Rightarrow> disk_error option" where
  "refuseParent parent = (if list_ex (hasPrefix parent) [''md'', ''dm-''] then Some (OnRAID parent) else None)"

definition DiskOfESP :: "(string \<Rightarrow> string option) \<Rightarrow> (string \<Rightarrow> sys_block option) \<Rightarrow> string \<Rightarrow> disk_error + string" where
  "DiskOfESP evalSymlinks sysClassBlock dev =
     (let real = resolveSymlinkOrSelf evalSymlinks dev; name = baseName real
      in case sysClassBlock name of
           Some sys \<Rightarrow>
             if \<not> isPartition sys then Inl (case refuseParent name of Some e \<Rightarrow> e | None \<Rightarrow> WholeDiskFAT)
             else (case sysParent sys of
                 None \<Rightarrow> Inl Unresolved
               | Some parent \<Rightarrow> (case refuseParent parent of Some e \<Rightarrow> Inl e | None \<Rightarrow> Inr (''/dev/'' @ parent)))
         | None \<Rightarrow>
             let disk = DevicePartitionBase real
             in if disk = real then Inl (case refuseParent name of Some e \<Rightarrow> e | None \<Rightarrow> WholeDiskFAT)
                else case refuseParent (baseName disk) of Some e \<Rightarrow> Inl e | None \<Rightarrow> Inr disk)"

section \<open>Escaped fields\<close>

text \<open>How the kernel writes a field of the mount table: these four characters in octal, everything else as it
  is.  \<open>escapes K\<close> escapes only the characters of \<open>K\<close>.\<close>

definition octal :: "char \<Rightarrow> string" where
  "octal c = CHR 0x5C # (if c = SP then ''040'' else if c = CHR 0x09 then ''011'' else if c = NL then ''012'' else ''134'')"

definition escapes :: "char set \<Rightarrow> string \<Rightarrow> string" where
  "escapes K s = concat (map (\<lambda>c. if c \<in> K then octal c else [c]) s)"

definition escapeMountField :: "string \<Rightarrow> string" where
  "escapeMountField = escapes {SP, CHR 0x09, NL, CHR 0x5C}"

lemma octal_inj: "c \<in> {SP, CHR 0x09, NL, CHR 0x5C} \<Longrightarrow> k \<in> {SP, CHR 0x09, NL, CHR 0x5C} \<Longrightarrow> octal c = octal k \<longleftrightarrow> c = k"
  by (auto simp: octal_def)

lemma octal_digits: "\<exists>x y z. octal c = [CHR 0x5C, x, y, z] \<and> x \<noteq> CHR 0x5C \<and> y \<noteq> CHR 0x5C \<and> z \<noteq> CHR 0x5C"
  by (auto simp: octal_def)

lemma replaceAll_skip: "s \<noteq> [] \<Longrightarrow> old \<noteq> [] \<Longrightarrow> hd s \<noteq> hd old \<Longrightarrow> replaceAll old new s = hd s # replaceAll old new (tl s)"
  by (subst replaceAll.simps) (cases s; cases old; auto simp: hasPrefix_def)

lemma replaceAll_escapes:
  assumes "k \<in> K" "CHR 0x5C \<in> K" "K \<subseteq> {SP, CHR 0x09, NL, CHR 0x5C}"
  shows "replaceAll (octal k) [k] (escapes K s) = escapes (K - {k}) s"
proof (induction s)
  case (Cons c s)
  obtain x y z where k: "octal k = [CHR 0x5C, x, y, z]" using octal_digits by blast
  obtain u v w where c: "octal c = [CHR 0x5C, u, v, w]" and d: "u \<noteq> CHR 0x5C" "v \<noteq> CHR 0x5C" "w \<noteq> CHR 0x5C"
    using octal_digits by blast
  have e: "escapes K (c # s) = (if c \<in> K then octal c else [c]) @ escapes K s" for K by (simp add: escapes_def)
  show ?case
  proof (cases "c = k")
    case True
    have "replaceAll (octal k) [k] (octal k @ escapes K s) = k # replaceAll (octal k) [k] (escapes K s)"
      by (subst replaceAll.simps) (simp add: k hasPrefix_def)
    with True assms(1) show ?thesis unfolding e by (simp add: Cons.IH)
  next
    case False
    show ?thesis
    proof (cases "c \<in> K")
      case True
      then have "octal c \<noteq> octal k" using False assms octal_inj [of c k] by blast
      then have "\<not> hasPrefix (octal c @ escapes K s) (octal k)" by (auto simp: k c hasPrefix_def)
      then have "replaceAll (octal k) [k] (octal c @ escapes K s) = CHR 0x5C # replaceAll (octal k) [k] (u # v # w # escapes K s)"
        by (subst replaceAll.simps) (simp add: k c)
      also have "replaceAll (octal k) [k] (u # v # w # escapes K s) = u # v # w # replaceAll (octal k) [k] (escapes K s)"
        using d by (simp add: replaceAll_skip k)
      finally show ?thesis using True False c by (simp add: e Cons.IH)
    next
      case False
      then have "c \<noteq> CHR 0x5C" using assms(2) by auto
      then show ?thesis using False Cons.IH [unfolded k] by (simp add: e replaceAll_skip k)
    qed
  qed
qed (simp add: escapes_def replaceAll.simps)

lemma unescape_escape: "unescapeMountField (escapeMountField s) = s"
proof -
  have steps: "mountFieldEscapes = map (\<lambda>k. (octal k, [k])) [SP, CHR 0x09, NL, CHR 0x5C]"
    by (simp add: mountFieldEscapes_def octal_def)
  have "replaceAll (octal SP) [SP] (escapes {SP, CHR 0x09, NL, CHR 0x5C} s) = escapes {CHR 0x09, NL, CHR 0x5C} s"
    "replaceAll (octal (CHR 0x09)) [CHR 0x09] (escapes {CHR 0x09, NL, CHR 0x5C} s) = escapes {NL, CHR 0x5C} s"
    "replaceAll (octal NL) [NL] (escapes {NL, CHR 0x5C} s) = escapes {CHR 0x5C} s"
    "replaceAll (octal (CHR 0x5C)) [CHR 0x5C] (escapes {CHR 0x5C} s) = escapes {} s"
    by (subst replaceAll_escapes; simp)+
  then show ?thesis
    unfolding unescapeMountField_def escapeMountField_def steps by (simp add: escapes_def [of "{}"])
qed

section \<open>The mount table\<close>

record mount =
  mountDev :: string
  mountDir :: string
  mountType :: string
  mountOpts :: string

definition mountLine :: "mount \<Rightarrow> string" where
  "mountLine m = join_with '' '' [escapeMountField (mountDev m), escapeMountField (mountDir m), mountType m, mountOpts m, ''0'', ''0'']"

definition mountTable :: "mount list \<Rightarrow> string" where
  "mountTable ms = concat (map (\<lambda>m. mountLine m @ [NL]) ms)"

definition graphicText :: "string \<Rightarrow> bool" where
  "graphicText s \<longleftrightarrow> s \<noteq> [] \<and> list_all graphic s"

definition mountPath :: "string \<Rightarrow> bool" where
  "mountPath s \<longleftrightarrow> s \<noteq> [] \<and> list_all (\<lambda>c. c \<in> {SP, CHR 0x09, NL} \<or> graphic c) s"

definition wf_mount :: "mount \<Rightarrow> bool" where
  "wf_mount m \<longleftrightarrow> mountPath (mountDev m) \<and> mountPath (mountDir m) \<and> graphicText (mountType m) \<and> graphicText (mountOpts m)"

lemma octal_graphic: "list_all graphic (octal c)"
  by (simp add: octal_def graphic_def)

lemma escape_graphic: "mountPath s \<Longrightarrow> graphicText (escapeMountField s)"
proof -
  assume s: "mountPath s"
  have "graphic d" if "c \<in> set s" "d \<in> set (if c \<in> {SP, CHR 0x09, NL, CHR 0x5C} then octal c else [c])" for c d
    using that s octal_graphic [of c] by (auto simp: mountPath_def list_all_iff split: if_splits)
  moreover have "escapeMountField s \<noteq> []"
    using s by (cases s) (auto simp: mountPath_def escapeMountField_def escapes_def octal_def)
  ultimately show ?thesis
    unfolding graphicText_def list_all_iff escapeMountField_def escapes_def set_concat set_map by blast
qed

lemma graphicText_word: "graphicText s \<Longrightarrow> word s"
  by (rule graphic_word) (auto simp: graphicText_def list_all_iff)

lemma mountLine_fields:
  "wf_mount m \<Longrightarrow> Fields (mountLine m) = [escapeMountField (mountDev m), escapeMountField (mountDir m), mountType m, mountOpts m, ''0'', ''0'']"
proof -
  assume m: "wf_mount m"
  have "word ''0''" by (rule graphicText_word) (simp add: graphicText_def graphic_def)
  then show ?thesis
    unfolding mountLine_def using m by (intro fields_join) (auto simp: wf_mount_def intro: graphicText_word escape_graphic)
qed

lemma mountLine_no_NL: "wf_mount m \<Longrightarrow> NL \<notin> set (mountLine m)"
proof -
  assume "wf_mount m"
  then have g: "graphicText (escapeMountField (mountDev m))" "graphicText (escapeMountField (mountDir m))" "graphicText (mountType m)" "graphicText (mountOpts m)"
    by (auto simp: wf_mount_def intro: escape_graphic)
  have "NL \<notin> set s" if "graphicText s" for s using that by (auto simp: graphicText_def list_all_iff graphic_def)
  with g show ?thesis by (simp add: mountLine_def)
qed

lemma mountTable_lines: "list_all wf_mount ms \<Longrightarrow> split_on NL (mountTable ms) = map mountLine ms @ [[]]"
  using split_on_lines [of "map mountLine ms" NL "[]"] mountLine_no_NL
  by (auto simp: mountTable_def comp_def list_all_iff)

lemma mountAtLine_line:
  "wf_mount m \<Longrightarrow> mountAtLine path found (mountLine m) = (if mountDir m = path then Some (mountDev m, mountType m) else found)"
  by (simp add: mountAtLine_def mountLine_fields unescape_escape)

lemma parseMountAtPath_table:
  assumes "list_all wf_mount ms"
  shows "parseMountAtPath (mountTable ms) path =
    map_option (\<lambda>m. (mountDev m, mountType m)) (find (\<lambda>m. mountDir m = path) (rev ms))"
proof -
  have "foldl (mountAtLine path) None (map mountLine ms) =
      map_option (\<lambda>m. (mountDev m, mountType m)) (find (\<lambda>m. mountDir m = path) (rev ms))"
    using assms by (induction ms rule: rev_induct) (simp_all add: mountAtLine_line)
  then show ?thesis unfolding parseMountAtPath_def mountTable_lines [OF assms] by (simp add: mountAtLine_def)
qed

definition mountsDevice :: "(string \<Rightarrow> string option) \<Rightarrow> string \<Rightarrow> mount \<Rightarrow> bool" where
  "mountsDevice resolve dev m \<longleftrightarrow> mountDev m = dev \<or> (resolve dev \<noteq> None \<and> resolve (mountDev m) = resolve dev)"

lemma existingMount_table:
  assumes "list_all wf_mount ms"
  shows "parseExistingMount (mountTable ms) dev resolve =
    map_option (\<lambda>m. (mountDir m, hd (split_on (CHR '','') (mountOpts m)) = ''rw'')) (find (mountsDevice resolve dev) ms)"
proof -
  have "existingMount (map mountLine ms @ [[]]) dev resolve =
      map_option (\<lambda>m. (mountDir m, hd (split_on (CHR '','') (mountOpts m)) = ''rw'')) (find (mountsDevice resolve dev) ms)"
    using assms
  proof (induction ms)
    case (Cons m ms)
    have "mountsDevice resolve dev m \<longleftrightarrow> mountDev m = dev \<or> (resolve dev \<noteq> None \<and> resolve (mountDev m) \<noteq> None \<and> resolve (mountDev m) = resolve dev)"
      by (auto simp: mountsDevice_def)
    with Cons show ?case by (auto simp: mountLine_fields unescape_escape Let_def hd_conv_nth)
  qed simp
  then show ?thesis by (simp add: parseExistingMount_def mountTable_lines assms)
qed

section \<open>Names of partitions\<close>

lemma digits_split: "d \<noteq> [] \<Longrightarrow> list_all is_digit d \<Longrightarrow> b = [] \<or> \<not> is_digit (last b) \<Longrightarrow> trailingDigits (b @ d) = d \<and> beforeDigits (b @ d) = b"
proof -
  assume d: "list_all is_digit d" and b: "b = [] \<or> \<not> is_digit (last b)"
  have "takeWhile is_digit (rev b) = []" "dropWhile is_digit (rev b) = rev b"
    using b by (cases "rev b"; auto simp: last_rev [symmetric] hd_rev)+
  with d show ?thesis
    unfolding trailingDigits_def beforeDigits_def rev_append list_all_iff
    by (subst takeWhile_append2, simp, subst dropWhile_append2, simp, simp)
qed

text \<open>The names of partitions on disks whose own name ends in a digit, and in a letter.\<close>

lemma partition_of_numbered_disk:
  assumes "is_digit (last disk)" "disk \<noteq> []" "NL \<notin> set disk" "n \<noteq> []" "list_all is_digit n"
  shows "DevicePartitionBase (disk @ ''p'' @ n) = disk"
proof -
  have "trailingDigits ((disk @ ''p'') @ n) = n \<and> beforeDigits ((disk @ ''p'') @ n) = disk @ ''p''"
    by (rule digits_split) (use assms in \<open>simp_all add: is_digit_def\<close>)
  then show ?thesis using assms by (simp add: DevicePartitionBase_def partitionSuffixP_def Let_def)
qed

lemma partition_of_lettered_disk:
  assumes "is_lower (last disk)" "disk \<noteq> []" "NL \<notin> set disk" "n \<noteq> []" "list_all is_digit n"
    and "\<not> (last disk = CHR ''p'' \<and> butlast disk \<noteq> [] \<and> is_digit (last (butlast disk)))" "\<not> pSuffixWholeDisk (disk @ n)"
  shows "DevicePartitionBase (disk @ n) = disk"
proof -
  have "trailingDigits (disk @ n) = n \<and> beforeDigits (disk @ n) = disk"
    by (rule digits_split) (use assms in \<open>simp_all add: is_digit_def is_lower_def\<close>)
  then show ?thesis using assms by (auto simp: DevicePartitionBase_def partitionSuffixP_def partitionSuffixPlain_def Let_def)
qed

section \<open>Properties\<close>

text \<open>C38: the mount table is read as the kernel writes it.  For a table of mounts whose paths may hold blanks,
  tabs, newlines and backslashes, the device found at a path is the one mounted there last, and the mount
  found for a device is its first one, writable exactly when its first option says so.\<close>

theorem mount_table_read:
  assumes "list_all wf_mount ms"
  shows "parseMountAtPath (mountTable ms) path =
      map_option (\<lambda>m. (mountDev m, mountType m)) (find (\<lambda>m. mountDir m = path) (rev ms)) \<and>
    parseExistingMount (mountTable ms) dev resolve =
      map_option (\<lambda>m. (mountDir m, hd (split_on (CHR '','') (mountOpts m)) = ''rw'')) (find (mountsDevice resolve dev) ms)"
  using parseMountAtPath_table [OF assms] existingMount_table [OF assms] by simp

definition sample_mounts :: "mount list" where
  "sample_mounts =
     [\<lparr>mountDev = ''/dev/sda1'', mountDir = ''/boot/efi'', mountType = ''ext4'', mountOpts = ''rw''\<rparr>,
      \<lparr>mountDev = ''/dev/sda2'', mountDir = ''/mnt/a b'', mountType = ''vfat'', mountOpts = ''ro,relatime''\<rparr>,
      \<lparr>mountDev = ''/dev/sdb1'', mountDir = ''/boot/efi'', mountType = ''vfat'', mountOpts = ''rw,relatime''\<rparr>]"

theorem mount_table_read_witness:
  "parseMountAtPath (mountTable sample_mounts) ''/boot/efi'' = Some (''/dev/sdb1'', ''vfat'') \<and>
   parseExistingMount (mountTable sample_mounts) ''/dev/sda2'' (\<lambda>_. None) = Some (''/mnt/a b'', False)"
proof -
  have "list_all wf_mount sample_mounts"
    by (simp add: sample_mounts_def wf_mount_def mountPath_def graphicText_def graphic_def)
  from mount_table_read [OF this, of "''/boot/efi''" "''/dev/sda2''" "\<lambda>_. None"] show ?thesis
    by (simp add: sample_mounts_def mountsDevice_def)
qed

end
