(* ===== verification/Esp_Select.thy ===== *)
theory Esp_Select
  imports Boot_Env "HOL-Library.Product_Lexorder" "HOL-Library.Multiset"
begin

text \<open>
  \<open>src/internal/bootenv/espset.go\<close>: which EFI system partitions belong to this host.  The scan decodes FAT boot
  sectors and gathers what each volume holds; \<open>SelectHost\<close> decides from those facts alone.

  A Go map from install ids to groups of partitions is represented by the list of its keys, in the order
  the scan meets them; the code only asks for their number, for the only key, or for all of them sorted.
  \<open>sort.SliceStable\<close> is insertion sort, which is what it is for up to twenty elements.
\<close>

section \<open>Volumes\<close>

definition fat32BootSigOff :: nat where "fat32BootSigOff = 66"
definition fat32VolIDOff :: nat where "fat32VolIDOff = 67"
definition fat16BootSigOff :: nat where "fat16BootSigOff = 38"
definition fat16VolIDOff :: nat where "fat16VolIDOff = 39"
definition fat16LabelOff :: nat where "fat16LabelOff = 43"
definition fat16FSTypeOff :: nat where "fat16FSTypeOff = 54"

definition upperHexDigit :: "nat \<Rightarrow> char" where
  "upperHexDigit n = char_of (if n < 10 then 48 + n else 55 + n)"

text \<open>The format \<open>%04X\<close> of a number of at most 16 bits.\<close>

definition upperHex4 :: "nat \<Rightarrow> string" where
  "upperHex4 n = map (\<lambda>i. upperHexDigit (n div 16 ^ i mod 16)) [3, 2, 1, 0]"

definition fatSerial :: "bytes \<Rightarrow> nat \<Rightarrow> string" where
  "fatSerial sector off =
     (let v = unat (le32 (sl sector off (off + 4))) in upperHex4 (v div 2 ^ 16) @ ''-'' @ upperHex4 (v mod 2 ^ 16))"

definition fatVolumeInfo :: "bytes \<Rightarrow> (string \<times> string) option" where
  "fatVolumeInfo sector =
     (if length sector < fatBPBMinSize then None
      else if sl sector fatFSTypeOff (fatFSTypeOff + fatFSTypeLen) = ''FAT32   '' \<and>
          (sector ! fat32BootSigOff = CHR 0x29 \<or> sector ! fat32BootSigOff = CHR 0x28)
      then Some (fatSerial sector fat32VolIDOff, case fat32VolumeLabel sector of Some l \<Rightarrow> l | None \<Rightarrow> [])
      else
        let ft = sl sector fat16FSTypeOff (fat16FSTypeOff + 8)
        in if (ft = ''FAT12   '' \<or> ft = ''FAT16   '' \<or> ft = ''FAT     '') \<and> sector ! fat16BootSigOff = CHR 0x29
           then Some (fatSerial sector fat16VolIDOff, trimRight (\<lambda>c. c = SP) (sl sector fat16LabelOff (fat16LabelOff + 11)))
           else None)"

record FATVolume =
  Dev :: string
  UUID :: string
  Label :: string

definition ScanFATVolumes :: "string list \<Rightarrow> (string \<Rightarrow> bytes option) \<Rightarrow> FATVolume list" where
  "ScanFATVolumes devs readFirst =
     concat (map (\<lambda>dev. case readFirst dev of
         None \<Rightarrow> []
       | Some sector \<Rightarrow> (case fatVolumeInfo sector of
             None \<Rightarrow> []
           | Some (uuid, label) \<Rightarrow> [\<lparr>Dev = dev, UUID = uuid, Label = label\<rparr>])) devs)"

definition VolumeUUID :: "(string \<Rightarrow> bytes option) \<Rightarrow> string \<Rightarrow> string option" where
  "VolumeUUID readFirst dev = (case readFirst dev of None \<Rightarrow> None | Some sector \<Rightarrow> map_option fst (fatVolumeInfo sector))"

section \<open>What a volume holds\<close>

record ESPInfo = FATVolume +
  AlpineDir :: bool
  Qualifies :: bool
  espMember :: "Member option"
  MemberErr :: bool
  ConfigList :: string

definition ValidMember :: "ESPInfo \<Rightarrow> bool" where
  "ValidMember e \<longleftrightarrow> (case espMember e of Some m \<Rightarrow> \<not> MemberErr e \<and> ESPUUID m = UUID e | None \<Rightarrow> False)"

definition CopiedMarker :: "ESPInfo \<Rightarrow> bool" where
  "CopiedMarker e \<longleftrightarrow> (case espMember e of Some m \<Rightarrow> \<not> MemberErr e \<and> ESPUUID m \<noteq> UUID e | None \<Rightarrow> False)"

definition espGeneration :: "ESPInfo \<Rightarrow> u64" where
  "espGeneration e = (if ValidMember e then (case espMember e of Some m \<Rightarrow> Generation m | None \<Rightarrow> 0) else 0)"

definition espID :: "ESPInfo \<Rightarrow> string" where
  "espID e = (case espMember e of Some m \<Rightarrow> InstallID m | None \<Rightarrow> [])"

text \<open>\<open>ProbeMounted\<close>; \<open>isDir\<close> and \<open>exists\<close> are \<open>os.Stat\<close> on the mounted volume.\<close>

definition ProbeMounted :: "FATVolume \<Rightarrow> world \<Rightarrow> string \<Rightarrow> (string \<Rightarrow> bool) \<Rightarrow> (string \<Rightarrow> bool) \<Rightarrow> ESPInfo \<times> world" where
  "ProbeMounted v w mp isDir exists =
     (case memberRead w mp of (m, w) \<Rightarrow>
      case readFile w (mp, ConfigFile) of (c, w) \<Rightarrow>
        (\<lparr>Dev = Dev v, UUID = UUID v, Label = Label v,
          AlpineDir = isDir ESPDir, Qualifies = qualifies (probeMarkers exists),
          espMember = (case m of MemberPresent x \<Rightarrow> Some x | _ \<Rightarrow> None),
          MemberErr = (case m of MemberBad _ \<Rightarrow> True | _ \<Rightarrow> False),
          ConfigList = (case c of Content raw \<Rightarrow> (case ConfigValue raw ESPUUIDsKey of Some l \<Rightarrow> l | None \<Rightarrow> []) | _ \<Rightarrow> [])\<rparr>, w))"

section \<open>The set of a host\<close>

record SelectOpts =
  List :: "string list"
  ListSource :: string
  PrimaryUUID :: string

datatype host_mode = ModeList | ModeMember | ModeLegacy

record HostMember =
  info :: ESPInfo
  Foreign :: bool

record HostSet =
  hostMode :: host_mode
  hostSource :: string
  hostID :: string
  hostMembers :: "HostMember list"
  hostExpected :: "string list"
  hostMissing :: "string list"
  hostIgnored :: "ESPInfo list"

datatype select_error =
    DuplicateUUID string "string list"
  | SeveralInstallations "string list"
  | BadConfigList string member_error
  | NoZfsbootESP nat
  | SeveralESPs "string list"
  | NoneListedPresent "string list"

definition UUIDs :: "HostSet \<Rightarrow> string list" where
  "UUIDs h = map (\<lambda>m. UUID (info m)) (hostMembers h)"

definition MaxGeneration :: "HostSet \<Rightarrow> u64" where
  "MaxGeneration h = foldl (\<lambda>g m. if espGeneration (info m) > g then espGeneration (info m) else g) 0 (hostMembers h)"

text \<open>\<open>counts[u]\<close> of \<open>countUUIDs\<close>.\<close>

definition countUUIDs :: "ESPInfo list \<Rightarrow> string \<Rightarrow> string list" where
  "countUUIDs infos u = map Dev (filter (\<lambda>i. UUID i = u) infos)"

definition infoByUUID :: "ESPInfo list \<Rightarrow> string \<Rightarrow> ESPInfo option" where
  "infoByUUID infos u = find (\<lambda>i. UUID i = u) infos"

definition dupError :: "ESPInfo list \<Rightarrow> string \<Rightarrow> select_error" where
  "dupError infos u = DuplicateUUID u (countUUIDs infos u)"

text \<open>Insertion sort on a list held in reverse, and the comparison of \<open>orderMembers\<close>.\<close>

fun insertBack :: "('a \<Rightarrow> 'a \<Rightarrow> bool) \<Rightarrow> 'a \<Rightarrow> 'a list \<Rightarrow> 'a list" where
  "insertBack lt x [] = [x]"
| "insertBack lt x (y # ys) = (if lt x y then y # insertBack lt x ys else x # y # ys)"

definition sliceStable :: "('a \<Rightarrow> 'a \<Rightarrow> bool) \<Rightarrow> 'a list \<Rightarrow> 'a list" where
  "sliceStable lt xs = rev (foldl (\<lambda>ys x. insertBack lt x ys) [] xs)"

definition memberLess :: "string \<Rightarrow> (string \<Rightarrow> nat option) \<Rightarrow> HostMember \<Rightarrow> HostMember \<Rightarrow> bool" where
  "memberLess primary rank a b =
     (let ga = espGeneration (info a); gb = espGeneration (info b);
          pa = (UUID (info a) = primary); pb = (UUID (info b) = primary)
      in if ga \<noteq> gb then ga > gb
         else if pa \<noteq> pb then pa
         else case (rank (UUID (info a)), rank (UUID (info b))) of
             (Some ra, Some rb) \<Rightarrow> if ra \<noteq> rb then ra < rb else UUID (info a) < UUID (info b)
           | _ \<Rightarrow> UUID (info a) < UUID (info b))"

definition orderMembers :: "HostMember list \<Rightarrow> string \<Rightarrow> (string \<Rightarrow> nat option) \<Rightarrow> HostMember list" where
  "orderMembers ms primary rank = sliceStable (memberLess primary rank) ms"

text \<open>The loop of \<open>selectList\<close> over the listed volumes: members and missing ones so far.\<close>

fun listLoop :: "ESPInfo list \<Rightarrow> string list \<Rightarrow> HostMember list \<Rightarrow> string list \<Rightarrow> select_error + HostMember list \<times> string list" where
  "listLoop infos [] members missing = Inr (members, missing)"
| "listLoop infos (u # list) members missing =
     (case countUUIDs infos u of
        [] \<Rightarrow> listLoop infos list members (missing @ [u])
      | [_] \<Rightarrow> (case infoByUUID infos u of
            Some i \<Rightarrow> listLoop infos list (members @ [\<lparr>info = i, Foreign = False\<rparr>]) missing
          | None \<Rightarrow> listLoop infos list members missing)
      | _ \<Rightarrow> Inl (dupError infos u))"

text \<open>The rank of a listed volume: the last position it is listed at.\<close>

definition listRank :: "string list \<Rightarrow> string \<Rightarrow> nat option" where
  "listRank list = map_of (rev (zip list [0..<length list]))"

fun firstMarked :: "ESPInfo list \<Rightarrow> string list \<Rightarrow> string" where
  "firstMarked infos [] = []"
| "firstMarked infos (u # list) =
     (case infoByUUID infos u of
        Some i \<Rightarrow> if length (countUUIDs infos u) = 1 \<and> ValidMember i then espID i else firstMarked infos list
      | None \<Rightarrow> firstMarked infos list)"

definition markForeign :: "string \<Rightarrow> HostMember \<Rightarrow> HostMember" where
  "markForeign iid m = (if ValidMember (info m) \<and> espID (info m) \<noteq> iid then m\<lparr>Foreign := True\<rparr> else m)"

definition selectList :: "ESPInfo list \<Rightarrow> string list \<Rightarrow> string \<Rightarrow> string \<Rightarrow> select_error + HostSet" where
  "selectList infos list source primary =
     bindE (listLoop infos list [] []) (\<lambda>(members, missing).
     if members = [] then Inl (NoneListedPresent list)
     else
       let members = orderMembers members primary (listRank list);
           iid = firstMarked infos list;
           members = map (markForeign iid) members;
           ignored = filter (\<lambda>i. UUID i \<notin> set list \<and> AlpineDir i) infos
       in Inr \<lparr>hostMode = ModeList, hostSource = source, hostID = iid, hostMembers = members,
               hostExpected = list, hostMissing = missing, hostIgnored = ignored\<rparr>)"

definition configSource :: "ESPInfo \<Rightarrow> string" where
  "configSource i = ''EFI/ALPINE/config of ESP '' @ UUID i"

text \<open>The loop over the lists of several unmarked volumes: the last list, and whether all agree.\<close>

definition listStep :: "string \<times> bool \<Rightarrow> ESPInfo \<Rightarrow> string \<times> bool" where
  "listStep s i =
     (if ConfigList i = [] then s
      else (ConfigList i, snd s \<and> \<not> (fst s \<noteq> [] \<and> ConfigList i \<noteq> fst s)))"

definition sortUUID :: "ESPInfo list \<Rightarrow> ESPInfo list" where
  "sortUUID = sort_key UUID"

definition selectLegacy :: "ESPInfo list \<Rightarrow> ESPInfo list \<Rightarrow> select_error + HostSet" where
  "selectLegacy infos ignored =
     (let cand = filter (\<lambda>i. Label i = FATVolumeLabel \<and> Qualifies i \<and> espMember i = None) infos;
          qual0 = filter (\<lambda>i. \<not> MemberErr i) cand;
          bad = filter MemberErr cand;
          lone = (qual0 = [] \<and> length bad = 1);
          qual = (if lone then bad else qual0);
          ignored = (if lone then filter (\<lambda>ig. UUID ig \<noteq> UUID (hd bad)) ignored else ignored)
      in case qual of
           [] \<Rightarrow> Inl (NoZfsbootESP (length infos))
         | [i] \<Rightarrow>
             if length (countUUIDs infos (UUID i)) > 1 then Inl (dupError infos (UUID i))
             else if ConfigList i \<noteq> [] then
               (case ParseUUIDList (ConfigList i) of
                  Inl e \<Rightarrow> Inl (BadConfigList (UUID i) e)
                | Inr l \<Rightarrow> selectList infos l (configSource i) [])
             else Inr \<lparr>hostMode = ModeLegacy, hostSource = [], hostID = [], hostMembers = [\<lparr>info = i, Foreign = False\<rparr>],
                       hostExpected = [UUID i], hostMissing = [], hostIgnored = ignored\<rparr>
         | _ \<Rightarrow>
             let qual = sortUUID qual;
                 (list, agree) = foldl listStep ([], True) qual
             in case (if list \<noteq> [] \<and> agree then ParseUUIDList list else Inl MemberMissing) of
                  Inr l \<Rightarrow> selectList infos l ''EFI/ALPINE/config of the unmarked ESPs'' []
                | Inl _ \<Rightarrow> Inl (SeveralESPs (map UUID qual)))"

definition groupIDs :: "ESPInfo list \<Rightarrow> string list" where
  "groupIDs infos = remdups (map espID (filter ValidMember infos))"

definition groupOf :: "ESPInfo list \<Rightarrow> string \<Rightarrow> ESPInfo list" where
  "groupOf infos iid = filter (\<lambda>i. ValidMember i \<and> espID i = iid) infos"

definition primaryMarked :: "ESPInfo list \<Rightarrow> SelectOpts \<Rightarrow> ESPInfo option" where
  "primaryMarked infos opts =
     (case infoByUUID infos (PrimaryUUID opts) of
        Some p \<Rightarrow> if PrimaryUUID opts \<noteq> [] \<and> ValidMember p then Some p else None
      | None \<Rightarrow> None)"

text \<open>The lone marked volume that gives way to an unmarked one labelled EFI.\<close>

definition strangerOnly :: "ESPInfo list \<Rightarrow> SelectOpts \<Rightarrow> bool" where
  "strangerOnly infos opts \<longleftrightarrow>
     (case groupIDs infos of
        [iid] \<Rightarrow>
          primaryMarked infos opts = None \<and>
          \<not> list_ex (\<lambda>i. Label i = FATVolumeLabel) (groupOf infos iid) \<and>
          list_ex (\<lambda>i. Label i = FATVolumeLabel \<and> Qualifies i \<and> espMember i = None \<and> \<not> MemberErr i) infos \<and>
          length (groupOf infos iid) = 1
      | _ \<Rightarrow> False)"

definition chooseID :: "ESPInfo list \<Rightarrow> SelectOpts \<Rightarrow> select_error + string" where
  "chooseID infos opts =
     (case primaryMarked infos opts of
        Some p \<Rightarrow> if length (countUUIDs infos (UUID p)) > 1 then Inl (dupError infos (UUID p)) else Inr (espID p)
      | None \<Rightarrow> (case groupIDs infos of [iid] \<Rightarrow> Inr iid | ids \<Rightarrow> Inl (SeveralInstallations (sort ids))))"

text \<open>The members of the chosen group: an error at the first volume that is present twice.\<close>

fun groupLoop :: "ESPInfo list \<Rightarrow> ESPInfo list \<Rightarrow> HostMember list \<Rightarrow> select_error + HostMember list" where
  "groupLoop infos [] members = Inr members"
| "groupLoop infos (i # is) members =
     (if length (countUUIDs infos (UUID i)) > 1 then Inl (dupError infos (UUID i))
      else groupLoop infos is (members @ [\<lparr>info = i, Foreign = False\<rparr>]))"

definition selectMarked :: "ESPInfo list \<Rightarrow> SelectOpts \<Rightarrow> ESPInfo list \<Rightarrow> select_error + HostSet" where
  "selectMarked infos opts ignored =
     bindE (chooseID infos opts) (\<lambda>iid.
     bindE (groupLoop infos (groupOf infos iid) []) (\<lambda>members.
     let members = orderMembers members (PrimaryUUID opts) (\<lambda>_. None);
         best = info (hd members)
     in if ConfigList best \<noteq> [] then
          (case ParseUUIDList (ConfigList best) of
             Inl e \<Rightarrow> Inl (BadConfigList (UUID best) e)
           | Inr l \<Rightarrow> selectList infos l (configSource best) (PrimaryUUID opts))
        else
          let present = map (\<lambda>m. UUID (info m)) members;
              named = (case espMember best of Some m \<Rightarrow> Members m | None \<Rightarrow> []);
              expected = sort (remdups (named @ present));
              more = filter (\<lambda>i. UUID i \<notin> set present \<and> (ValidMember i \<or> espMember i = None \<and> \<not> MemberErr i \<and> AlpineDir i)) infos
          in Inr \<lparr>hostMode = ModeMember, hostSource = [], hostID = iid, hostMembers = members,
                  hostExpected = expected, hostMissing = filter (\<lambda>u. u \<notin> set present) expected,
                  hostIgnored = ignored @ more\<rparr>))"

definition SelectHost :: "ESPInfo list \<Rightarrow> SelectOpts \<Rightarrow> select_error + HostSet" where
  "SelectHost infos opts =
     (if List opts \<noteq> [] then selectList infos (List opts) (ListSource opts) (PrimaryUUID opts)
      else
        let ignored = filter (\<lambda>i. \<not> ValidMember i \<and> (CopiedMarker i \<or> MemberErr i)) infos
        in if groupIDs infos = [] then selectLegacy infos ignored
           else if strangerOnly infos opts then selectLegacy infos (ignored @ groupOf infos (hd (groupIDs infos)))
           else selectMarked infos opts ignored)"

section \<open>Sorting\<close>

lemma insertBack_filter:
  "filter (\<lambda>y. f k = f y) (insertBack (\<lambda>a b. f a < (f b :: 'b :: linorder)) x ys) =
     (if f k = f x then x # filter (\<lambda>y. f k = f y) ys else filter (\<lambda>y. f k = f y) ys)"
  by (induction ys) auto

lemma insertBack_set [simp]: "set (insertBack lt x ys) = insert x (set ys)"
  by (induction ys) auto

lemma insertBack_mset: "mset (insertBack lt x ys) = add_mset x (mset ys)"
  by (induction ys) auto

lemma insertBack_sorted:
  "sorted_wrt (\<lambda>a b. f b \<le> f a) ys \<Longrightarrow> sorted_wrt (\<lambda>a b. f b \<le> f a) (insertBack (\<lambda>a b. f a < (f b :: 'b :: linorder)) x ys)"
  by (induction ys) (auto simp: not_less dest: order_trans)

lemma foldl_insertBack:
  fixes f :: "'a \<Rightarrow> 'b :: linorder"
  defines "ins \<equiv> foldl (\<lambda>ys x. insertBack (\<lambda>a b. f a < f b) x ys)"
  shows "mset (ins ys xs) = mset ys + mset xs"
    and "filter (\<lambda>y. f k = f y) (ins ys xs) = rev (filter (\<lambda>y. f k = f y) xs) @ filter (\<lambda>y. f k = f y) ys"
    and "sorted_wrt (\<lambda>a b. f b \<le> f a) ys \<Longrightarrow> sorted_wrt (\<lambda>a b. f b \<le> f a) (ins ys xs)"
  unfolding ins_def
  by (induction xs arbitrary: ys) (auto simp: insertBack_mset insertBack_filter insertBack_sorted)

lemma sliceStable_sort: "sliceStable (\<lambda>a b. f a < (f b :: 'b :: linorder)) xs = sort_key f xs"
proof -
  let ?r = "foldl (\<lambda>ys x. insertBack (\<lambda>a b. f a < f b) x ys) [] xs"
  have "sort_key f xs = rev ?r"
  proof (rule properties_for_sort_key)
    show "mset (rev ?r) = mset xs" using foldl_insertBack(1) [of f "[]" xs] by simp
    show "filter (\<lambda>x. f k = f x) (rev ?r) = filter (\<lambda>x. f k = f x) xs" for k
      using foldl_insertBack(2) [of f k "[]" xs] by (simp add: rev_filter [symmetric])
    have "sorted_wrt (\<lambda>a b. f b \<le> f a) ?r" by (rule foldl_insertBack(3)) simp
    then show "sorted (map f (rev ?r))" by (simp add: sorted_wrt_map sorted_wrt_rev)
  qed
  then show ?thesis by (simp add: sliceStable_def)
qed

lemma sort_key_perm:
  assumes "mset xs = mset ys" "inj_on f (set xs)"
  shows "sort_key f xs = sort_key (f :: 'a \<Rightarrow> 'b :: linorder) ys"
proof (rule properties_for_sort_key)
  show "mset (sort_key f ys) = mset xs" using assms(1) by simp
  show "filter (\<lambda>x. f k = f x) (sort_key f ys) = filter (\<lambda>x. f k = f x) xs" if "k \<in> set (sort_key f ys)" for k
  proof -
    have s: "set ys = set xs" using assms(1) by (metis set_mset_mset)
    have k: "k \<in> set xs" using that s by simp
    have "filter (\<lambda>x. f k = f x) zs = replicate (count (mset zs) k) k" if "set zs \<subseteq> set xs" for zs
      using that assms(2) k by (induction zs) (auto dest: inj_onD)
    from this [of xs] this [of ys] s assms(1) show ?thesis
      using sort_key_stable [of f "f k" ys] by (simp add: eq_commute)
  qed
qed simp

text \<open>The comparison of \<open>orderMembers\<close> is that of tuples.\<close>

definition memberKey :: "string \<Rightarrow> (string \<Rightarrow> nat) \<Rightarrow> HostMember \<Rightarrow> int \<times> bool \<times> nat \<times> string" where
  "memberKey primary rank m =
     (- uint (espGeneration (info m)), UUID (info m) \<noteq> primary, rank (UUID (info m)), UUID (info m))"

lemma generation_key:
  "uint b < uint a \<longleftrightarrow> b < (a :: u64)" "uint a = uint b \<longleftrightarrow> a = (b :: u64)" "uint b \<le> uint a \<longleftrightarrow> b = a \<or> b < (a :: u64)"
  by (auto simp: word_less_def word_uint_eq_iff)

lemma memberLess_unranked: "memberLess primary (\<lambda>_. None) a b \<longleftrightarrow> memberKey primary (\<lambda>_. 0) a < memberKey primary (\<lambda>_. 0) b"
  by (auto simp: memberLess_def memberKey_def Let_def less_prod_def generation_key)

lemma memberLess_ranked:
  "rank (UUID (info a)) \<noteq> None \<Longrightarrow> rank (UUID (info b)) \<noteq> None \<Longrightarrow>
     memberLess primary rank a b \<longleftrightarrow> memberKey primary (the \<circ> rank) a < memberKey primary (the \<circ> rank) b"
  by (auto simp: memberLess_def memberKey_def Let_def less_prod_def generation_key)

lemma orderMembers_unranked: "orderMembers ms primary (\<lambda>_. None) = sort_key (memberKey primary (\<lambda>_. 0)) ms"
  unfolding orderMembers_def memberLess_unranked [abs_def] by (rule sliceStable_sort)

lemma insertBack_cong: "(\<And>y. y \<in> set ys \<Longrightarrow> lt x y = lt' x y) \<Longrightarrow> insertBack lt x ys = insertBack lt' x ys"
  by (induction ys) auto

lemma sliceStable_cong:
  assumes "\<And>a b. a \<in> set xs \<Longrightarrow> b \<in> set xs \<Longrightarrow> lt a b = lt' a b"
  shows "sliceStable lt xs = sliceStable lt' xs"
proof -
  have "foldl (\<lambda>ys x. insertBack lt x ys) ys zs = foldl (\<lambda>ys x. insertBack lt' x ys) ys zs" if "set ys \<subseteq> set xs" "set zs \<subseteq> set xs" for ys zs
    using that
  proof (induction zs arbitrary: ys)
    case (Cons z zs)
    have "insertBack lt z ys = insertBack lt' z ys" by (rule insertBack_cong) (use Cons.prems assms in auto)
    with Cons show ?case by simp
  qed simp
  from this [of "[]" xs] show ?thesis by (simp add: sliceStable_def)
qed

lemma orderMembers_ranked:
  assumes "\<And>m. m \<in> set ms \<Longrightarrow> rank (UUID (info m)) \<noteq> None"
  shows "orderMembers ms primary rank = sort_key (memberKey primary (the \<circ> rank)) ms"
proof -
  have "orderMembers ms primary rank = sliceStable (\<lambda>a b. memberKey primary (the \<circ> rank) a < memberKey primary (the \<circ> rank) b) ms"
    unfolding orderMembers_def by (rule sliceStable_cong) (use assms memberLess_ranked in blast)
  then show ?thesis by (simp only: sliceStable_sort)
qed

lemma sorted_best:
  "m \<in> set (sort_key (memberKey primary rank) ms) \<Longrightarrow> espGeneration (info m) \<le> espGeneration (info (hd (sort_key (memberKey primary rank) ms)))"
proof -
  let ?k = "memberKey primary rank" and ?s = "sort_key (memberKey primary rank) ms"
  assume m: "m \<in> set ?s"
  then obtain x xs where s: "?s = x # xs" by (cases ?s) auto
  have "sorted (map ?k ?s)" by simp
  then have "?k x \<le> ?k m" using m unfolding s by auto
  then have "uint (espGeneration (info m)) \<le> uint (espGeneration (info x))"
    by (auto simp: memberKey_def less_eq_prod_def)
  then show ?thesis unfolding s by (simp add: word_le_def)
qed

section \<open>The loops in closed form\<close>

abbreviation own :: "ESPInfo \<Rightarrow> HostMember" where "own i \<equiv> \<lparr>info = i, Foreign = False\<rparr>"

definition present :: "ESPInfo list \<Rightarrow> string \<Rightarrow> bool" where
  "present infos u \<longleftrightarrow> countUUIDs infos u \<noteq> []"

definition single :: "ESPInfo list \<Rightarrow> string \<Rightarrow> bool" where
  "single infos u \<longleftrightarrow> length (countUUIDs infos u) \<le> 1"

definition listedInfos :: "ESPInfo list \<Rightarrow> string list \<Rightarrow> ESPInfo list" where
  "listedInfos infos list = map (\<lambda>u. the (infoByUUID infos u)) (filter (present infos) list)"

lemma infoByUUID_Some: "infoByUUID infos u = Some i \<Longrightarrow> i \<in> set infos \<and> UUID i = u"
  by (auto simp: infoByUUID_def find_Some_iff in_set_conv_nth)

lemma present_info: "present infos u \<longleftrightarrow> infoByUUID infos u \<noteq> None"
  by (auto simp: present_def infoByUUID_def countUUIDs_def filter_empty_conv find_None_iff)

lemma present_iff: "present infos u \<longleftrightarrow> u \<in> UUID ` set infos"
  by (auto simp: present_def countUUIDs_def filter_empty_conv)

lemma listLoop_eq:
  "listLoop infos list ms miss = Inr r \<longleftrightarrow>
     (\<forall>u \<in> set list. single infos u) \<and> r = (ms @ map own (listedInfos infos list), miss @ filter (\<lambda>u. \<not> present infos u) list)"
proof (induction list arbitrary: ms miss)
  case (Cons u list)
  consider "countUUIDs infos u = []" | d where "countUUIDs infos u = [d]" | d e ds where "countUUIDs infos u = d # e # ds"
    by (cases "countUUIDs infos u" rule: list.exhaust; metis list.exhaust)
  then show ?case
  proof cases
    case 1
    then show ?thesis using Cons.IH by (simp add: single_def present_def listedInfos_def)
  next
    case 2
    then obtain i where "infoByUUID infos u = Some i" using present_info [of infos u] by (auto simp: present_def)
    with 2 show ?thesis using Cons.IH by (simp add: single_def present_def listedInfos_def)
  next
    case 3
    then show ?thesis by (simp add: single_def)
  qed
qed (auto simp: listedInfos_def)

lemma groupLoop_eq:
  "groupLoop infos is ms = Inr r \<longleftrightarrow> (\<forall>i \<in> set is. single infos (UUID i)) \<and> r = ms @ map own is"
  by (induction infos "is" ms rule: groupLoop.induct) (auto simp: single_def)

lemma listedInfos_in: "i \<in> set (listedInfos infos list) \<Longrightarrow> i \<in> set infos \<and> UUID i \<in> set list"
  using infoByUUID_Some present_info by (fastforce simp: listedInfos_def)

lemma listedInfos_UUID: "map UUID (listedInfos infos list) = filter (present infos) list"
proof -
  have "UUID (the (infoByUUID infos u)) = u" if "present infos u" for u
    using that infoByUUID_Some present_info by fastforce
  then show ?thesis unfolding listedInfos_def map_map comp_def by (intro map_idI) simp
qed

lemma single_count: "i \<in> set infos \<Longrightarrow> single infos (UUID i) \<Longrightarrow> length (countUUIDs infos (UUID i)) = 1"
proof -
  assume i: "i \<in> set infos" "single infos (UUID i)"
  then have "countUUIDs infos (UUID i) \<noteq> []" by (auto simp: countUUIDs_def filter_empty_conv)
  with i(2) show ?thesis by (simp add: single_def le_Suc_eq)
qed

definition listHost :: "ESPInfo list \<Rightarrow> string list \<Rightarrow> string \<Rightarrow> string \<Rightarrow> HostSet" where
  "listHost infos list source primary =
     \<lparr>hostMode = ModeList, hostSource = source, hostID = firstMarked infos list,
      hostMembers = map (markForeign (firstMarked infos list)) (orderMembers (map own (listedInfos infos list)) primary (listRank list)),
      hostExpected = list, hostMissing = filter (\<lambda>u. \<not> present infos u) list,
      hostIgnored = filter (\<lambda>i. UUID i \<notin> set list \<and> AlpineDir i) infos\<rparr>"

lemma selectList_eq:
  "selectList infos list source primary = Inr hs \<longleftrightarrow>
     (\<forall>u \<in> set list. single infos u) \<and> listedInfos infos list \<noteq> [] \<and> hs = listHost infos list source primary"
proof (cases "listLoop infos list [] []")
  case (Inl e)
  then have "\<not> (\<forall>u \<in> set list. single infos u)" using listLoop_eq [of infos list "[]" "[]"] by force
  with Inl show ?thesis by (simp add: selectList_def)
next
  case (Inr r)
  then have "(\<forall>u \<in> set list. single infos u) \<and> r = (map own (listedInfos infos list), filter (\<lambda>u. \<not> present infos u) list)"
    using listLoop_eq [of infos list "[]" "[]"] by simp
  with Inr show ?thesis by (auto simp: selectList_def listHost_def Let_def)
qed

lemma listRank_Some: "u \<in> set list \<Longrightarrow> listRank list u \<noteq> None"
proof -
  assume "u \<in> set list"
  then have "u \<in> fst ` set (zip list [0..<length list])" by (simp only: set_map [symmetric] map_fst_zip length_upt)
  then show ?thesis by (simp add: listRank_def map_of_eq_None_iff)
qed

section \<open>What is selected\<close>

definition soundMembers :: "ESPInfo list \<Rightarrow> HostSet \<Rightarrow> bool" where
  "soundMembers infos hs \<longleftrightarrow> hostMembers hs \<noteq> [] \<and>
     (\<forall>m \<in> set (hostMembers hs). info m \<in> set infos \<and> length (countUUIDs infos (UUID (info m))) = 1 \<and>
        espGeneration (info m) \<le> espGeneration (info (hd (hostMembers hs))))"

definition soundMode :: "ESPInfo list \<Rightarrow> HostSet \<Rightarrow> bool" where
  "soundMode infos hs \<longleftrightarrow>
     (case hostMode hs of
        ModeMember \<Rightarrow> \<forall>i \<in> set infos. i \<in> info ` set (hostMembers hs) \<longleftrightarrow> ValidMember i \<and> espID i = hostID hs
      | ModeLegacy \<Rightarrow> \<exists>i. info ` set (hostMembers hs) = {i} \<and> Label i = FATVolumeLabel \<and> Qualifies i \<and> espMember i = None \<and>
          (\<forall>j \<in> set infos. Label j = FATVolumeLabel \<and> Qualifies j \<and> espMember j = None \<and> (MemberErr j \<longrightarrow> MemberErr i) \<longrightarrow> j = i)
      | ModeList \<Rightarrow> set (UUIDs hs) \<union> set (hostMissing hs) = set (hostExpected hs) \<and> set (UUIDs hs) \<inter> set (hostMissing hs) = {} \<and>
          (\<forall>m \<in> set (hostMembers hs). Foreign m \<longleftrightarrow> ValidMember (info m) \<and> espID (info m) \<noteq> hostID hs))"

lemma markForeign_info [simp]: "info (markForeign iid m) = info m"
  by (simp add: markForeign_def)

lemma listHost_sound:
  assumes "\<forall>u \<in> set list. single infos u" "listedInfos infos list \<noteq> []"
  shows "soundMembers infos (listHost infos list source primary) \<and> soundMode infos (listHost infos list source primary)"
proof -
  let ?ms = "map own (listedInfos infos list)" and ?rank = "listRank list" and ?iid = "firstMarked infos list"
  let ?s = "orderMembers ?ms primary ?rank"
  have order: "?s = sort_key (memberKey primary (the \<circ> ?rank)) ?ms"
    by (rule orderMembers_ranked) (use listedInfos_in listRank_Some in force)
  have set: "set ?s = own ` set (listedInfos infos list)" unfolding order by simp
  have s: "?s \<noteq> []" unfolding order using assms(2) by (metis Nil_is_map_conv length_0_conv length_sort)
  have "soundMembers infos (listHost infos list source primary)"
    unfolding soundMembers_def listHost_def
  proof (simp add: s, intro ballI conjI)
    fix m assume "m \<in> set ?s"
    then have i: "info m \<in> set (listedInfos infos list)" using set by auto
    show "info m \<in> set infos" using i listedInfos_in by blast
    show "length (countUUIDs infos (UUID (info m))) = Suc 0"
      using single_count listedInfos_in [OF i] assms(1) by simp
    show "espGeneration (info m) \<le> espGeneration (info (hd (map (markForeign ?iid) ?s)))"
      using \<open>m \<in> set ?s\<close> s sorted_best unfolding order by (simp add: hd_map)
  qed
  moreover have "soundMode infos (listHost infos list source primary)"
  proof -
    have "set (UUIDs (listHost infos list source primary)) = UUID ` set (listedInfos infos list)"
      by (simp add: UUIDs_def listHost_def set image_image)
    also have "\<dots> = set (filter (present infos) list)" by (simp only: set_map [symmetric] listedInfos_UUID)
    finally have u: "set (UUIDs (listHost infos list source primary)) = {u \<in> set list. present infos u}" by auto
    have f: "Foreign (markForeign ?iid m) \<longleftrightarrow> ValidMember (info m) \<and> espID (info m) \<noteq> ?iid" if "m \<in> set ?s" for m
      using that set by (auto simp: markForeign_def)
    show ?thesis unfolding soundMode_def u by (auto simp: listHost_def f)
  qed
  ultimately show ?thesis ..
qed

lemma selectList_sound: "selectList infos list source primary = Inr hs \<Longrightarrow> soundMembers infos hs \<and> soundMode infos hs"
  using listHost_sound by (metis selectList_eq)

lemma selectLegacy_sound: "selectLegacy infos ignored = Inr hs \<Longrightarrow> soundMembers infos hs \<and> soundMode infos hs"
proof -
  assume run: "selectLegacy infos ignored = Inr hs"
  define cand where "cand = filter (\<lambda>i. Label i = FATVolumeLabel \<and> Qualifies i \<and> espMember i = None) infos"
  define qual0 where "qual0 = filter (\<lambda>i. \<not> MemberErr i) cand"
  define bad where "bad = filter MemberErr cand"
  define lone where "lone \<longleftrightarrow> qual0 = [] \<and> length bad = 1"
  define qual where "qual = (if lone then bad else qual0)"
  note defs = cand_def [symmetric] qual0_def [symmetric] bad_def [symmetric] lone_def [symmetric] qual_def [symmetric]
  note run = run [unfolded selectLegacy_def Let_def defs]
  consider "qual = []" | i where "qual = [i]" | i j js where "qual = i # j # js"
    by (cases qual rule: list.exhaust; metis list.exhaust)
  then show ?thesis
  proof cases
    case 1
    with run show ?thesis by simp
  next
    case (2 i)
    then have mem: "i \<in> set qual" by simp
    then have i: "i \<in> set infos" "Label i = FATVolumeLabel" "Qualifies i" "espMember i = None"
      by (auto simp: qual_def qual0_def bad_def cand_def split: if_splits)
    have only: "j = i" if "j \<in> set infos" "Label j = FATVolumeLabel" "Qualifies j" "espMember j = None" "MemberErr j \<longrightarrow> MemberErr i" for j
    proof -
      have "j \<in> set cand" using that by (simp add: cand_def)
      then have "j \<in> set qual"
      proof (cases lone)
        case True
        then have "MemberErr j" using \<open>j \<in> set cand\<close> by (auto simp: lone_def qual0_def filter_empty_conv)
        then show ?thesis using True \<open>j \<in> set cand\<close> by (simp add: qual_def bad_def)
      next
        case False
        then have "\<not> MemberErr i" using mem by (simp add: qual_def qual0_def)
        then show ?thesis using False that \<open>j \<in> set cand\<close> by (simp add: qual_def qual0_def)
      qed
      then show ?thesis using 2 by simp
    qed
    show ?thesis
    proof (cases "length (countUUIDs infos (UUID i)) > 1 \<or> ConfigList i \<noteq> []")
      case True
      then show ?thesis using run by (auto simp: 2 split: if_splits sum.splits dest: selectList_sound)
    next
      case False
      then have hs: "hostMode hs = ModeLegacy" "hostMembers hs = [own i]" using run by (auto simp: 2)
      have "soundMembers infos hs"
        using False i(1) single_count [OF i(1)] by (simp add: soundMembers_def hs single_def)
      moreover have "soundMode infos hs" using i only by (simp add: soundMode_def hs)
      ultimately show ?thesis ..
    qed
  next
    case (3 i j js)
    with run show ?thesis by (auto split: if_splits sum.splits prod.splits dest: selectList_sound)
  qed
qed

lemma chooseID_group: "chooseID infos opts = Inr iid \<Longrightarrow> groupOf infos iid \<noteq> []"
proof -
  assume "chooseID infos opts = Inr iid"
  then consider p where "primaryMarked infos opts = Some p" "espID p = iid" | "groupIDs infos = [iid]"
    by (auto simp: chooseID_def split: option.splits if_splits list.splits)
  then show ?thesis
  proof cases
    case (1 p)
    then have "p \<in> set infos" "ValidMember p"
      using infoByUUID_Some by (auto simp: primaryMarked_def split: option.splits if_splits)
    then show ?thesis using 1 by (auto simp: groupOf_def filter_empty_conv)
  next
    case 2
    then have "iid \<in> set (groupIDs infos)" by simp
    then show ?thesis by (auto simp: groupIDs_def groupOf_def filter_empty_conv)
  qed
qed

lemma selectMarked_sound: "selectMarked infos opts ignored = Inr hs \<Longrightarrow> soundMembers infos hs \<and> soundMode infos hs"
proof -
  assume run: "selectMarked infos opts ignored = Inr hs"
  then obtain iid where iid: "chooseID infos opts = Inr iid" and single: "\<forall>i \<in> set (groupOf infos iid). single infos (UUID i)"
    by (auto simp: selectMarked_def groupLoop_eq)
  have loop: "groupLoop infos (groupOf infos iid) [] = Inr (map own (groupOf infos iid))" using single by (simp add: groupLoop_eq)
  define ms where "ms = sort_key (memberKey (PrimaryUUID opts) (\<lambda>_. 0)) (map own (groupOf infos iid))"
  note run = run [unfolded selectMarked_def iid bindE_simps loop orderMembers_unranked ms_def [symmetric] Let_def]
  show ?thesis
  proof (cases "ConfigList (info (hd ms)) = []")
    case False
    with run show ?thesis by (auto split: sum.splits dest: selectList_sound)
  next
    case True
    then have hs: "hostMode hs = ModeMember" "hostMembers hs = ms" "hostID hs = iid" using run by auto
    have set: "set ms = own ` set (groupOf infos iid)" by (simp add: ms_def)
    have "ms \<noteq> []" using chooseID_group [OF iid] unfolding ms_def by (metis Nil_is_map_conv length_0_conv length_sort)
    then have "soundMembers infos hs"
      using single single_count sorted_best [of _ "PrimaryUUID opts" "\<lambda>_. 0" "map own (groupOf infos iid)", folded ms_def]
      by (auto simp: soundMembers_def hs set groupOf_def)
    moreover have "soundMode infos hs" by (auto simp: soundMode_def hs set image_image groupOf_def)
    ultimately show ?thesis ..
  qed
qed

lemma SelectHost_sound: "SelectHost infos opts = Inr hs \<Longrightarrow> soundMembers infos hs \<and> soundMode infos hs"
  by (auto simp: SelectHost_def Let_def split: if_splits dest: selectList_sound selectLegacy_sound selectMarked_sound)

section \<open>Independence of the scan order\<close>

text \<open>What is selected, without the list of volumes that were passed over.\<close>

definition outcome :: "select_error + HostSet \<Rightarrow> HostSet option" where
  "outcome r = (case r of Inl _ \<Rightarrow> None | Inr hs \<Rightarrow> Some (hs\<lparr>hostIgnored := []\<rparr>))"

lemma outcome_simps [simp]:
  "outcome (Inl e) = None" "outcome (Inr hs) = Some (hs\<lparr>hostIgnored := []\<rparr>)"
  by (simp_all add: outcome_def)

lemma perm_set: "mset xs = mset ys \<Longrightarrow> set xs = set ys"
  by (metis set_mset_mset)

lemma perm_filter: "mset xs = mset ys \<Longrightarrow> mset (filter Q xs) = mset (filter Q ys)"
  by simp

lemma perm_length: "mset xs = mset ys \<Longrightarrow> length xs = length ys"
  by (metis size_mset)

lemma perm_single: "mset xs = mset ys \<Longrightarrow> length xs \<le> 1 \<Longrightarrow> xs = ys"
  by (cases xs; cases ys) auto

lemma counts_perm: "mset infos = mset infos' \<Longrightarrow> length (countUUIDs infos u) = length (countUUIDs infos' u)"
  unfolding countUUIDs_def length_map by (rule perm_length) (rule perm_filter)

lemma single_perm: "mset infos = mset infos' \<Longrightarrow> single infos u = single infos' u"
  using counts_perm [of infos infos' u] by (simp add: single_def)

lemma present_perm: "mset infos = mset infos' \<Longrightarrow> present infos u = present infos' u"
  using perm_set [of infos infos'] by (simp add: present_iff)

lemma find_filter: "find Q xs = (case filter Q xs of [] \<Rightarrow> None | x # _ \<Rightarrow> Some x)"
  by (induction xs) auto

lemma info_perm:
  assumes "mset infos = mset infos'" "single infos u"
  shows "infoByUUID infos u = infoByUUID infos' u"
proof -
  have "filter (\<lambda>i. UUID i = u) infos = filter (\<lambda>i. UUID i = u) infos'"
    by (rule perm_single [OF perm_filter [OF assms(1)]]) (use assms(2) in \<open>simp add: single_def countUUIDs_def\<close>)
  then show ?thesis by (simp add: infoByUUID_def find_filter)
qed

lemma listedInfos_perm:
  assumes "mset infos = mset infos'" "\<forall>u \<in> set list. single infos u"
  shows "listedInfos infos list = listedInfos infos' list"
proof -
  have "present infos = present infos'" using present_perm [OF assms(1)] by blast
  then show ?thesis unfolding listedInfos_def using assms info_perm [OF assms(1)] by (auto intro!: map_cong)
qed

lemma firstMarked_perm:
  assumes "mset infos = mset infos'"
  shows "firstMarked infos list = firstMarked infos' list"
proof (induction list)
  case (Cons u list)
  show ?case
  proof (cases "single infos u")
    case True
    then show ?thesis using Cons info_perm [OF assms] counts_perm [OF assms] by (simp split: option.split)
  next
    case False
    then have "length (countUUIDs infos u) \<noteq> 1" "length (countUUIDs infos' u) \<noteq> 1"
      using single_perm [OF assms, of u] by (auto simp: single_def)
    then show ?thesis using Cons by (simp split: option.split)
  qed
qed simp

lemma selectList_outcome:
  "outcome (selectList infos list source primary) =
     (if (\<forall>u \<in> set list. single infos u) \<and> listedInfos infos list \<noteq> []
      then Some ((listHost infos list source primary)\<lparr>hostIgnored := []\<rparr>) else None)"
proof (cases "selectList infos list source primary")
  case (Inl e)
  then have "\<not> ((\<forall>u \<in> set list. single infos u) \<and> listedInfos infos list \<noteq> [])"
    using selectList_eq [of infos list source primary "listHost infos list source primary"] by auto
  then show ?thesis by (simp only: Inl outcome_simps if_False)
next
  case (Inr hs)
  then show ?thesis using selectList_eq [of infos list source primary hs] by simp
qed

lemma selectList_perm:
  assumes "mset infos = mset infos'"
  shows "outcome (selectList infos list source primary) = outcome (selectList infos' list source primary)"
proof (cases "\<forall>u \<in> set list. single infos u")
  case True
  then have "\<forall>u \<in> set list. single infos' u" using single_perm [OF assms] by simp
  with True show ?thesis
    unfolding selectList_outcome
    by (simp add: listHost_def listedInfos_perm [OF assms True] firstMarked_perm [OF assms] present_perm [OF assms])
next
  case False
  then have "\<not> (\<forall>u \<in> set list. single infos' u)" using single_perm [OF assms] by simp
  with False show ?thesis unfolding selectList_outcome by (simp only: simp_thms if_False)
qed

text \<open>The lists of several unmarked volumes agree exactly when there is one list among them.\<close>

lemma foldl_listStep:
  "foldl listStep (l, a) qs =
     (last (l # filter (\<lambda>c. c \<noteq> []) (map ConfigList qs)),
      a \<and> (\<forall>x \<in> set (l # map ConfigList qs). \<forall>y \<in> set (l # map ConfigList qs). x \<noteq> [] \<longrightarrow> y \<noteq> [] \<longrightarrow> x = y))"
proof (induction qs arbitrary: l a)
  case (Cons q qs)
  have "foldl listStep (l, a) (q # qs) = foldl listStep (listStep (l, a) q) qs" by simp
  also have "\<dots> = (last (l # filter (\<lambda>c. c \<noteq> []) (map ConfigList (q # qs))),
      a \<and> (\<forall>x \<in> set (l # map ConfigList (q # qs)). \<forall>y \<in> set (l # map ConfigList (q # qs)). x \<noteq> [] \<longrightarrow> y \<noteq> [] \<longrightarrow> x = y))"
    by (cases "ConfigList q = []") (auto simp: listStep_def Cons.IH)
  finally show ?case .
qed simp

definition agreedList :: "ESPInfo list \<Rightarrow> string option" where
  "agreedList qual = (case foldl listStep ([], True) qual of (list, agree) \<Rightarrow> if list \<noteq> [] \<and> agree then Some list else None)"

lemma agree_iff:
  assumes "l \<in> S" "l \<noteq> []"
  shows "(if l \<noteq> [] \<and> (\<forall>x \<in> insert [] S. \<forall>y \<in> insert [] S. x \<noteq> [] \<longrightarrow> y \<noteq> [] \<longrightarrow> x = y) then Some l else None) = Some c \<longleftrightarrow>
    c \<noteq> [] \<and> c \<in> S \<and> (\<forall>x \<in> S. x \<noteq> [] \<longrightarrow> x = c)"
  using assms by (auto split: if_split)

lemma agreedList_Some:
  "agreedList qual = Some c \<longleftrightarrow> c \<noteq> [] \<and> c \<in> set (map ConfigList qual) \<and> (\<forall>x \<in> set (map ConfigList qual). x \<noteq> [] \<longrightarrow> x = c)"
proof -
  let ?cs = "filter (\<lambda>c. c \<noteq> []) (map ConfigList qual)"
  have last: "last ([] # ?cs) \<in> set ?cs" if "?cs \<noteq> []" using last_in_set [OF that] unfolding last_ConsR [OF that] .
  show ?thesis
  proof (cases "?cs = []")
    case True
    then have "\<forall>x \<in> set (map ConfigList qual). x = []" by (simp add: filter_empty_conv)
    with True show ?thesis by (auto simp: agreedList_def foldl_listStep)
  next
    case False
    from last [OF False] have "last ([] # ?cs) \<in> {c \<in> set (map ConfigList qual). c \<noteq> []}" by (simp only: set_filter)
    then have l: "last ([] # ?cs) \<in> set (map ConfigList qual)" "last ([] # ?cs) \<noteq> []" by blast+
    show ?thesis
      unfolding agreedList_def foldl_listStep prod.case list.set simp_thms by (rule agree_iff [OF l])
  qed
qed

lemma agreedList_perm: "mset qual = mset qual' \<Longrightarrow> agreedList qual = agreedList qual'"
proof -
  assume "mset qual = mset qual'"
  then have "set (map ConfigList qual) = set (map ConfigList qual')" using perm_set [of qual qual'] by simp
  then have "agreedList qual = Some c \<longleftrightarrow> agreedList qual' = Some c" for c unfolding agreedList_Some by (simp only:)
  from this [of "the (agreedList qual)"] this [of "the (agreedList qual')"] show ?thesis
    by (cases "agreedList qual"; cases "agreedList qual'") simp_all
qed

definition legacyList :: "ESPInfo list \<Rightarrow> string \<Rightarrow> string \<Rightarrow> HostSet option" where
  "legacyList infos c source =
     (case ParseUUIDList c of Inl _ \<Rightarrow> None | Inr l \<Rightarrow> outcome (selectList infos l source []))"

definition legacyOutcome :: "ESPInfo list \<Rightarrow> ESPInfo list \<Rightarrow> HostSet option" where
  "legacyOutcome infos qual =
     (if length qual = 0 then None
      else if length qual = 1 then
        (if \<not> single infos (UUID (hd qual)) then None
         else if ConfigList (hd qual) \<noteq> [] then legacyList infos (ConfigList (hd qual)) (configSource (hd qual))
         else Some \<lparr>hostMode = ModeLegacy, hostSource = [], hostID = [], hostMembers = [own (hd qual)],
                    hostExpected = [UUID (hd qual)], hostMissing = [], hostIgnored = []\<rparr>)
      else (case agreedList qual of None \<Rightarrow> None | Some c \<Rightarrow> legacyList infos c ''EFI/ALPINE/config of the unmarked ESPs''))"

definition legacyQual :: "ESPInfo list \<Rightarrow> ESPInfo list" where
  "legacyQual infos =
     (let cand = filter (\<lambda>i. Label i = FATVolumeLabel \<and> Qualifies i \<and> espMember i = None) infos;
          qual0 = filter (\<lambda>i. \<not> MemberErr i) cand; bad = filter MemberErr cand
      in if qual0 = [] \<and> length bad = 1 then bad else qual0)"

lemma selectLegacy_outcome: "outcome (selectLegacy infos ignored) = legacyOutcome infos (legacyQual infos)"
proof -
  consider "legacyQual infos = []" | i where "legacyQual infos = [i]" | i j js where "legacyQual infos = i # j # js"
    by (cases "legacyQual infos" rule: list.exhaust; metis list.exhaust)
  then show ?thesis
  proof cases
    case 1
    then show ?thesis by (simp add: selectLegacy_def Let_def legacyQual_def legacyOutcome_def)
  next
    case (2 i)
    then show ?thesis unfolding legacyOutcome_def selectLegacy_def legacyQual_def Let_def legacyList_def
      by (auto simp: single_def not_le split: sum.splits)
  next
    case (3 i j js)
    have "agreedList (sortUUID (i # j # js)) = agreedList (i # j # js)" by (rule agreedList_perm) (simp add: sortUUID_def)
    moreover obtain l a where f: "foldl listStep ([], True) (sortUUID (i # j # js)) = (l, a)" by fastforce
    ultimately have "agreedList (i # j # js) = (if l \<noteq> [] \<and> a then Some l else None)" by (simp add: agreedList_def)
    with 3 f show ?thesis unfolding legacyOutcome_def selectLegacy_def legacyQual_def Let_def legacyList_def
      by (simp split: sum.split)
  qed
qed

lemma selectLegacy_perm:
  assumes "mset infos = mset infos'"
  shows "outcome (selectLegacy infos ignored) = outcome (selectLegacy infos' ignored')"
proof -
  let ?cand = "\<lambda>infos. filter (\<lambda>i. Label i = FATVolumeLabel \<and> Qualifies i \<and> espMember i = None) infos"
  have m: "mset (filter (\<lambda>i. \<not> MemberErr i) (?cand infos)) = mset (filter (\<lambda>i. \<not> MemberErr i) (?cand infos'))"
    "mset (filter MemberErr (?cand infos)) = mset (filter MemberErr (?cand infos'))"
    using assms by (simp_all only: mset_filter)
  have c: "filter (\<lambda>i. \<not> MemberErr i) (?cand infos) = [] \<longleftrightarrow> filter (\<lambda>i. \<not> MemberErr i) (?cand infos') = []"
    "length (filter MemberErr (?cand infos)) = length (filter MemberErr (?cand infos'))"
    using perm_length [OF m(1)] perm_length [OF m(2)] by (simp_all only: length_0_conv [symmetric])
  have q: "mset (legacyQual infos) = mset (legacyQual infos')"
    unfolding legacyQual_def Let_def c if_distrib [of mset] m by (rule refl)
  have ll: "legacyList infos = legacyList infos'"
    by (intro ext) (simp add: legacyList_def selectList_perm [OF assms] split: sum.split)
  have si: "single infos = single infos'" using single_perm [OF assms] by blast
  have eq: "legacyQual infos = legacyQual infos'" if "length (legacyQual infos) = 1" using perm_single [OF q] that by simp
  show ?thesis
  proof (cases "length (legacyQual infos) = 1")
    case True
    show ?thesis unfolding selectLegacy_outcome legacyOutcome_def ll si eq [OF True] by (rule refl)
  next
    case False
    then have "length (legacyQual infos') \<noteq> 1" using perm_length [OF q] by simp
    then show ?thesis
      unfolding selectLegacy_outcome legacyOutcome_def ll si agreedList_perm [OF q] perm_length [OF q] by (simp only: if_False)
  qed
qed

lemma group_perm: "mset infos = mset infos' \<Longrightarrow> mset (groupOf infos iid) = mset (groupOf infos' iid)"
  unfolding groupOf_def by (rule perm_filter)

lemma groupIDs_perm:
  assumes "mset infos = mset infos'"
  shows "set (groupIDs infos) = set (groupIDs infos')" "length (groupIDs infos) = length (groupIDs infos')"
    "groupIDs infos = [iid] \<longleftrightarrow> groupIDs infos' = [iid]"
proof -
  show s: "set (groupIDs infos) = set (groupIDs infos')"
    unfolding groupIDs_def set_remdups set_map set_filter perm_set [OF assms] by (rule refl)
  show l: "length (groupIDs infos) = length (groupIDs infos')"
    using s distinct_card [of "groupIDs infos"] distinct_card [of "groupIDs infos'"] by (simp add: groupIDs_def)
  have "xs = [iid] \<longleftrightarrow> length xs = 1 \<and> set xs = {iid}" for xs :: "string list" by (cases xs) auto
  then show "groupIDs infos = [iid] \<longleftrightarrow> groupIDs infos' = [iid]" using s l by metis
qed

lemma primaryMarked_perm:
  "mset infos = mset infos' \<Longrightarrow> single infos (PrimaryUUID opts) \<Longrightarrow> primaryMarked infos opts = primaryMarked infos' opts"
  using info_perm [of infos infos' "PrimaryUUID opts"] by (simp add: primaryMarked_def)

lemma list_ex_perm: "mset xs = mset ys \<Longrightarrow> list_ex Q xs = list_ex Q ys"
  using perm_set [of xs ys] by (simp add: list_ex_iff)

lemma only_case: "(case xs of [x] \<Rightarrow> F x | _ \<Rightarrow> b) = (if length xs = 1 then F (hd xs) else b)"
  by (auto split: list.split)

lemma only_perm: "mset infos = mset infos' \<Longrightarrow> length (groupIDs infos) = 1 \<Longrightarrow> groupIDs infos = groupIDs infos'"
  using groupIDs_perm(3) [of infos infos' "hd (groupIDs infos)"] by (cases "groupIDs infos") auto

lemma strangerOnly_perm:
  assumes "mset infos = mset infos'" "single infos (PrimaryUUID opts)"
  shows "strangerOnly infos opts = strangerOnly infos' opts"
proof (cases "length (groupIDs infos) = 1")
  case True
  show ?thesis
    unfolding strangerOnly_def only_perm [OF assms(1) True] primaryMarked_perm [OF assms]
      list_ex_perm [OF group_perm [OF assms(1)]] list_ex_perm [OF assms(1)] perm_length [OF group_perm [OF assms(1)]]
    by (rule refl)
next
  case False
  then show ?thesis using groupIDs_perm(2) [OF assms(1)] by (simp add: strangerOnly_def only_case)
qed

lemma chooseID_perm:
  assumes "mset infos = mset infos'" "single infos (PrimaryUUID opts)"
  shows "chooseID infos opts = Inr iid \<longleftrightarrow> chooseID infos' opts = Inr iid"
proof (cases "primaryMarked infos opts")
  case None
  then show ?thesis using groupIDs_perm(3) [OF assms(1), of iid] primaryMarked_perm [OF assms]
    by (auto simp: chooseID_def split: list.splits)
next
  case (Some p)
  then show ?thesis using primaryMarked_perm [OF assms] counts_perm [OF assms(1), of "UUID p"] by (simp add: chooseID_def)
qed

lemma single_inj: "i \<in> set infos \<Longrightarrow> j \<in> set infos \<Longrightarrow> UUID i = UUID j \<Longrightarrow> single infos (UUID i) \<Longrightarrow> i = j"
proof -
  assume a: "i \<in> set infos" "j \<in> set infos" "UUID i = UUID j" "single infos (UUID i)"
  let ?f = "filter (\<lambda>k. UUID k = UUID i) infos"
  have "i \<in> set ?f" "j \<in> set ?f" "length ?f \<le> 1" using a by (auto simp: single_def countUUIDs_def)
  then show ?thesis by (cases ?f) auto
qed

text \<open>The set of the marked partitions of one installation, as a function of the sorted group.\<close>

definition markedOutcome :: "ESPInfo list \<Rightarrow> SelectOpts \<Rightarrow> string \<Rightarrow> HostMember list \<Rightarrow> HostSet option" where
  "markedOutcome infos opts iid members =
     (let best = info (hd members)
      in if ConfigList best \<noteq> [] then
           (case ParseUUIDList (ConfigList best) of
              Inl e \<Rightarrow> None
            | Inr l \<Rightarrow> outcome (selectList infos l (configSource best) (PrimaryUUID opts)))
         else
           let present = map (\<lambda>m. UUID (info m)) members;
               named = (case espMember best of Some m \<Rightarrow> Members m | None \<Rightarrow> []);
               expected = sort (remdups (named @ present))
           in Some \<lparr>hostMode = ModeMember, hostSource = [], hostID = iid, hostMembers = members,
                   hostExpected = expected, hostMissing = filter (\<lambda>u. u \<notin> set present) expected, hostIgnored = []\<rparr>)"

abbreviation sortedGroup :: "ESPInfo list \<Rightarrow> SelectOpts \<Rightarrow> string \<Rightarrow> HostMember list" where
  "sortedGroup infos opts iid \<equiv> sort_key (memberKey (PrimaryUUID opts) (\<lambda>_. 0)) (map own (groupOf infos iid))"

lemma selectMarked_outcome:
  "outcome (selectMarked infos opts ignored) =
     (case chooseID infos opts of
        Inl _ \<Rightarrow> None
      | Inr iid \<Rightarrow> if \<forall>i \<in> set (groupOf infos iid). single infos (UUID i) then markedOutcome infos opts iid (sortedGroup infos opts iid) else None)"
proof (cases "chooseID infos opts")
  case (Inr iid)
  show ?thesis
  proof (cases "\<forall>i \<in> set (groupOf infos iid). single infos (UUID i)")
    case True
    then have "groupLoop infos (groupOf infos iid) [] = Inr (map own (groupOf infos iid))" by (simp add: groupLoop_eq)
    with True Inr show ?thesis
      by (simp add: selectMarked_def orderMembers_unranked markedOutcome_def Let_def split: sum.split)
  next
    case False
    then obtain e where "groupLoop infos (groupOf infos iid) [] = Inl e"
      using groupLoop_eq [of infos "groupOf infos iid" "[]"] by (cases "groupLoop infos (groupOf infos iid) []") blast+
    with False Inr show ?thesis by (auto simp: selectMarked_def)
  qed
qed (simp add: selectMarked_def)

lemma sortedGroup_perm:
  assumes "mset infos = mset infos'" "\<forall>i \<in> set (groupOf infos iid). single infos (UUID i)"
  shows "sortedGroup infos opts iid = sortedGroup infos' opts iid"
proof (rule sort_key_perm)
  show "mset (map own (groupOf infos iid)) = mset (map own (groupOf infos' iid))"
    unfolding mset_map group_perm [OF assms(1)] by (rule refl)
  have "i = j" if "i \<in> set (groupOf infos iid)" "j \<in> set (groupOf infos iid)" "UUID i = UUID j" for i j
    using that assms(2) single_inj [of i infos j] by (auto simp: groupOf_def)
  then show "inj_on (memberKey (PrimaryUUID opts) (\<lambda>_. 0)) (set (map own (groupOf infos iid)))"
    by (auto simp: inj_on_def memberKey_def)
qed

lemma markedOutcome_perm:
  assumes "mset infos = mset infos'"
  shows "markedOutcome infos opts iid members = markedOutcome infos' opts iid members"
  unfolding markedOutcome_def Let_def selectList_perm [OF assms] by (rule refl)

lemma selectMarked_perm:
  assumes "mset infos = mset infos'" "single infos (PrimaryUUID opts)"
  shows "outcome (selectMarked infos opts ignored) = outcome (selectMarked infos' opts ignored')"
proof (cases "chooseID infos opts")
  case (Inl e)
  then obtain e' where "chooseID infos' opts = Inl e'"
    using chooseID_perm [OF assms] by (cases "chooseID infos' opts") auto
  then show ?thesis by (simp add: selectMarked_outcome Inl)
next
  case (Inr iid)
  then have i': "chooseID infos' opts = Inr iid" using chooseID_perm [OF assms] by simp
  have g: "set (groupOf infos iid) = set (groupOf infos' iid)" using group_perm [OF assms(1)] by (rule perm_set)
  have s: "(\<forall>i \<in> set (groupOf infos iid). single infos (UUID i)) \<longleftrightarrow> (\<forall>i \<in> set (groupOf infos' iid). single infos' (UUID i))"
    unfolding g using single_perm [OF assms(1)] by simp
  show ?thesis
    unfolding selectMarked_outcome Inr i' sum.case s [symmetric] markedOutcome_perm [OF assms(1)]
    by (rule if_cong [OF refl _ refl]) (simp only: sortedGroup_perm [OF assms(1)])
qed

lemma SelectHost_perm:
  assumes "mset infos = mset infos'" "single infos (PrimaryUUID opts)"
  shows "outcome (SelectHost infos opts) = outcome (SelectHost infos' opts)"
proof -
  have g: "groupIDs infos = [] \<longleftrightarrow> groupIDs infos' = []"
    using groupIDs_perm(2) [OF assms(1)] by (simp only: length_0_conv [symmetric])
  show ?thesis
    unfolding SelectHost_def Let_def g strangerOnly_perm [OF assms] if_distrib [of outcome]
    by (intro if_cong refl selectList_perm selectLegacy_perm selectMarked_perm assms)
qed

section \<open>Serial numbers\<close>

lemma upperHexDigit_hex: "n < 16 \<Longrightarrow> upper_hex (upperHexDigit n)"
  by (auto simp: upperHexDigit_def upper_hex_def is_digit_def)

text \<open>The serial number the scanner reports is one that MEMBER accepts.\<close>

lemma fatSerial_RE: "fatUUIDRE (fatSerial sector off)"
  by (simp add: fatUUIDRE_def fatSerial_def Let_def upperHex4_def upperHexDigit_hex upt_conv_Cons)

lemma fatVolumeInfo_RE: "fatVolumeInfo sector = Some (uuid, label) \<Longrightarrow> fatUUIDRE uuid"
  using fatSerial_RE by (auto simp: fatVolumeInfo_def Let_def split: if_splits)

section \<open>Samples\<close>

definition sample_member :: "string \<Rightarrow> string \<Rightarrow> u64 \<Rightarrow> Member" where
  "sample_member iid uuid gen =
     \<lparr>InstallID = iid, Generation = gen, ESPUUID = uuid, Members = [''AAAA-0001'', ''AAAA-0002''], Pool = [], Disk = [], Written = []\<rparr>"

definition sample_esp :: "string \<Rightarrow> string \<Rightarrow> string \<Rightarrow> Member option \<Rightarrow> ESPInfo" where
  "sample_esp dev uuid label m =
     \<lparr>Dev = dev, UUID = uuid, Label = label, AlpineDir = True, Qualifies = True, espMember = m, MemberErr = False, ConfigList = []\<rparr>"

definition sample_scan :: "ESPInfo list" where
  "sample_scan =
     [sample_esp ''/dev/sda1'' ''AAAA-0001'' ''EFI'' (Some (sample_member ''one'' ''AAAA-0001'' 3)),
      sample_esp ''/dev/sdb1'' ''AAAA-0002'' ''EFI'' (Some (sample_member ''one'' ''AAAA-0002'' 4)),
      sample_esp ''/dev/sdc1'' ''BBBB-0001'' ''EFI'' None]"

definition no_opts :: "string \<Rightarrow> SelectOpts" where
  "no_opts primary = \<lparr>List = [], ListSource = [], PrimaryUUID = primary\<rparr>"

lemma sample_selected: "map_option UUIDs (outcome (SelectHost sample_scan (no_opts []))) = Some [''AAAA-0002'', ''AAAA-0001'']"
  by code_simp

text \<open>With two volumes of the primary's serial number, only one of them marked, what is selected does depend on
  the order of the scan: one order is refused as a duplicate, the other takes the unmarked partition.\<close>

definition cloned_scan :: "ESPInfo list" where
  "cloned_scan =
     [sample_esp ''/dev/sda1'' ''AAAA-0001'' ''USB'' (Some (sample_member ''one'' ''AAAA-0001'' 3)),
      sample_esp ''/dev/sdb1'' ''AAAA-0001'' ''USB'' None,
      sample_esp ''/dev/sdc1'' ''BBBB-0001'' ''EFI'' None]"

lemma cloned_primary_order:
  "mset cloned_scan = mset [cloned_scan ! 1, cloned_scan ! 0, cloned_scan ! 2]"
  "outcome (SelectHost cloned_scan (no_opts ''AAAA-0001'')) = None"
  "map_option UUIDs (outcome (SelectHost [cloned_scan ! 1, cloned_scan ! 0, cloned_scan ! 2] (no_opts ''AAAA-0001''))) = Some [''BBBB-0001'']"
proof -
  show "mset cloned_scan = mset [cloned_scan ! 1, cloned_scan ! 0, cloned_scan ! 2]" by (simp add: cloned_scan_def)
  show "outcome (SelectHost cloned_scan (no_opts ''AAAA-0001'')) = None" by code_simp
  show "map_option UUIDs (outcome (SelectHost [cloned_scan ! 1, cloned_scan ! 0, cloned_scan ! 2] (no_opts ''AAAA-0001''))) = Some [''BBBB-0001'']"
    by code_simp
qed

section \<open>Properties\<close>





end
