(* ===== verification/Part_Table.thy ===== *)
theory Part_Table
  imports Go_Prelude
begin

text \<open>
  \<open>src/internal/parttable/parttable.go\<close>: the GPT and MBR readers the write gate of the BIOS
  backend relies on.  A disk is an optional reader: \<^const>\<open>None\<close> is \<open>os.Open\<close> failing,
  \<open>Some r\<close> an open device read through \<open>ReadAt\<close>.  The loop over the partition array keeps the
  code's \<open>uint32\<close> sector count and its \<open>int64\<close> byte offset, since both can wrap on a
  malformed header.  The section on the array specification shows that, away from those
  wraps, the loop returns exactly the used slots of the array.
\<close>

unbundle bit_operations_syntax

type_synonym disk = "reader option"

abbreviation sectorSize :: nat where "sectorSize \<equiv> 512"


section \<open>GPT\<close>

record GPTHeader =
  Signature :: bytes
  Revision :: u32
  HeaderSize :: u32
  HeaderCRC32 :: u32
  Reserved :: u32
  MyLBA :: u64
  AlternateLBA :: u64
  FirstUsableLBA :: u64
  LastUsableLBA :: u64
  DiskGUID :: bytes
  PartitionEntryLBA :: u64
  NumPartitionEntries :: u32
  PartitionEntrySize :: u32
  PartitionEntryArrayCRC32 :: u32

definition gptHeaderSize :: nat where "gptHeaderSize = 92"

definition gptSignature :: bytes where "gptSignature = ''EFI PART''"

record GPTPartitionEntry =
  TypeGUID :: bytes
  UniqueGUID :: bytes
  StartLBA :: u64
  EndLBA :: u64
  Attributes :: u64
  Name :: "u16 list"

datatype part_error =
    EOpen
  | EReadLBA nat
  | ENoGPTSignature
  | EHeaderSize u32
  | EHeaderCRC u32 u32
  | EEntrySize u32
  | EZeroEntries
  | EReadArray u64
  | ENoBootSignature
  | EFATBootSector

definition SectorCount :: "GPTPartitionEntry \<Rightarrow> u64" where
  "SectorCount e = EndLBA e - StartLBA e + 1"

text \<open>A rune of \<open>NameString\<close> is the UTF-16 unit itself (no surrogate handling).\<close>

definition utf16Decode :: "u16 list \<Rightarrow> nat list" where
  "utf16Decode s = map unat s"

definition NameString :: "GPTPartitionEntry \<Rightarrow> nat list" where
  "NameString e = utf16Decode (takeWhile (\<lambda>c. c \<noteq> 0) (Name e))"

text \<open>\<open>hash/crc32\<close> with the reflected IEEE polynomial, one bit at a time.\<close>

definition crc_bit :: "u32 \<Rightarrow> u32" where
  "crc_bit c = (if bit c 0 then drop_bit 1 c XOR 0xEDB88320 else drop_bit 1 c)"

definition crc_byte :: "u32 \<Rightarrow> byte \<Rightarrow> u32" where
  "crc_byte c b = (crc_bit ^^ 8) (c XOR of_char b)"

definition crc32ISO :: "bytes \<Rightarrow> u32" where
  "crc32ISO data = NOT (foldl crc_byte 0xFFFFFFFF data)"

lemma crc_bit_numeral:
  "crc_bit (numeral w) = (if bit (numeral w :: u32) 0 then drop_bit 1 (numeral w) XOR 0xEDB88320 else drop_bit 1 (numeral w))"
  "crc_bit 1 = 0xEDB88320" "crc_bit 0 = 0"
  by (simp_all add: crc_bit_def)

lemma crc_byte_unroll:
  "crc_byte c b =
     crc_bit (crc_bit (crc_bit (crc_bit (crc_bit (crc_bit (crc_bit (crc_bit (c XOR of_char b))))))))"
  by (simp add: crc_byte_def numeral_eq_Suc)

lemmas crc_eval = crc32ISO_def crc_byte_unroll crc_bit_numeral

definition decodeGPTHeader :: "bytes \<Rightarrow> GPTHeader" where
  "decodeGPTHeader b =
     \<lparr> Signature = sl b 0 8, Revision = le32 (drop 8 b), HeaderSize = le32 (drop 12 b),
       HeaderCRC32 = le32 (drop 16 b), Reserved = le32 (drop 20 b),
       MyLBA = le64 (drop 24 b), AlternateLBA = le64 (drop 32 b),
       FirstUsableLBA = le64 (drop 40 b), LastUsableLBA = le64 (drop 48 b),
       DiskGUID = sl b 56 72, PartitionEntryLBA = le64 (drop 72 b),
       NumPartitionEntries = le32 (drop 80 b), PartitionEntrySize = le32 (drop 84 b),
       PartitionEntryArrayCRC32 = le32 (drop 88 b) \<rparr>"

definition ReadGPTHeader :: "disk \<Rightarrow> part_error + GPTHeader" where
  "ReadGPTHeader disk =
     (case disk of
        None \<Rightarrow> Inl EOpen
      | Some r \<Rightarrow>
          (case r 512 sectorSize of
             None \<Rightarrow> Inl (EReadLBA 1)
           | Some sector \<Rightarrow>
               if sl sector 0 8 \<noteq> gptSignature then Inl ENoGPTSignature
               else
                 let hdr = decodeGPTHeader (sl sector 0 gptHeaderSize) in
                 if HeaderSize hdr \<noteq> of_nat gptHeaderSize then Inl (EHeaderSize (HeaderSize hdr))
                 else
                   let work = (sl sector 0 gptHeaderSize)
                         [16 := CHR 0x00, 17 := CHR 0x00, 18 := CHR 0x00, 19 := CHR 0x00];
                       got = crc32ISO work
                   in if got \<noteq> HeaderCRC32 hdr then Inl (EHeaderCRC (HeaderCRC32 hdr) got)
                      else Inr hdr))"

definition decodeGPTEntry :: "bytes \<Rightarrow> GPTPartitionEntry" where
  "decodeGPTEntry b =
     \<lparr> TypeGUID = sl b 0 16, UniqueGUID = sl b 16 32, StartLBA = le64 (drop 32 b),
       EndLBA = le64 (drop 40 b), Attributes = le64 (drop 48 b),
       Name = map (\<lambda>i. le16 (drop (56 + 2 * i) b)) [0..<36] \<rparr>"

definition isZeroGUID :: "bytes \<Rightarrow> bool" where
  "isZeroGUID g = (\<forall>b \<in> set g. b = CHR 0x00)"

text \<open>The inner loop of \<open>GPTPartitions\<close>: \<open>i\<close> runs over the slots of one sector while
  \<open>entryIndex\<close> (here \<open>k\<close>) is below the header's count.\<close>

fun gptSector :: "nat \<Rightarrow> nat \<Rightarrow> bytes \<Rightarrow> nat list \<Rightarrow> nat \<times> GPTPartitionEntry list
    \<Rightarrow> nat \<times> GPTPartitionEntry list" where
  "gptSector n esz sector [] st = st"
| "gptSector n esz sector (i # is) (k, out) =
     (if k < n then
        let e = decodeGPTEntry (sl sector (i * esz) (i * esz + 128)) in
        gptSector n esz sector is (k + 1, if isZeroGUID (TypeGUID e) then out else out @ [e])
      else (k, out))"

fun gptSectors :: "reader \<Rightarrow> u64 \<Rightarrow> nat \<Rightarrow> nat \<Rightarrow> nat \<Rightarrow> nat list \<Rightarrow> nat \<times> GPTPartitionEntry list
    \<Rightarrow> part_error + GPTPartitionEntry list" where
  "gptSectors r base n esz eps [] st = Inr (snd st)"
| "gptSectors r base n esz eps (s # ss) st =
     (let lba = base + of_nat s in
      case r (sint (lba * 512)) sectorSize of
        None \<Rightarrow> Inl (EReadArray lba)
      | Some sector \<Rightarrow> gptSectors r base n esz eps ss (gptSector n esz sector [0..<eps] st))"

definition entriesPerSector :: "GPTHeader \<Rightarrow> u32" where
  "entriesPerSector hdr = 512 div PartitionEntrySize hdr"

definition totalSectors :: "GPTHeader \<Rightarrow> u32" where
  "totalSectors hdr = (NumPartitionEntries hdr + entriesPerSector hdr - 1) div entriesPerSector hdr"

definition GPTPartitions :: "disk \<Rightarrow> GPTHeader \<Rightarrow> part_error + GPTPartitionEntry list" where
  "GPTPartitions disk hdr =
     (if PartitionEntrySize hdr < 128 \<or> PartitionEntrySize hdr > 512
      then Inl (EEntrySize (PartitionEntrySize hdr))
      else if NumPartitionEntries hdr = 0 then Inl EZeroEntries
      else
        (case disk of
           None \<Rightarrow> Inl EOpen
         | Some r \<Rightarrow>
             gptSectors r (PartitionEntryLBA hdr) (unat (NumPartitionEntries hdr))
               (unat (PartitionEntrySize hdr)) (unat (entriesPerSector hdr))
               [0..<unat (totalSectors hdr)] (0, [])))"


section \<open>MBR\<close>

record MBRPartitionEntry =
  Status :: byte
  Type :: byte
  MStartLBA :: u32
  MSectorCount :: u32

definition looksLikeFATBootSector :: "bytes \<Rightarrow> bool" where
  "looksLikeFATBootSector sector =
     (let jmpOK = sector ! 0 = CHR 0xEB \<or> sector ! 0 = CHR 0xE9;
          bytesPerSector = le16 (sl sector 11 13);
          sectorsPerCluster = (of_char (sector ! 13) :: 8 word)
      in jmpOK \<and> bytesPerSector = 512 \<and>
         (sectorsPerCluster \<noteq> 0 \<and> sectorsPerCluster AND (sectorsPerCluster - 1) = 0))"

definition decodeMBREntry :: "bytes \<Rightarrow> MBRPartitionEntry" where
  "decodeMBREntry raw =
     \<lparr> Status = raw ! 0, Type = raw ! 4,
       MStartLBA = le32 (sl raw 8 12), MSectorCount = le32 (sl raw 12 16) \<rparr>"

definition mbrEntries :: "bytes \<Rightarrow> MBRPartitionEntry list" where
  "mbrEntries sector =
     filter (\<lambda>e. MSectorCount e \<noteq> 0)
       (map (\<lambda>i. decodeMBREntry (sl sector (446 + i * 16) (446 + i * 16 + 16))) [0..<4])"

definition MBRPartitions :: "disk \<Rightarrow> part_error + MBRPartitionEntry list" where
  "MBRPartitions disk =
     (case disk of
        None \<Rightarrow> Inl EOpen
      | Some r \<Rightarrow>
          (case r 0 sectorSize of
             None \<Rightarrow> Inl (EReadLBA 0)
           | Some sector \<Rightarrow>
               if sector ! 510 \<noteq> CHR 0x55 \<or> sector ! 511 \<noteq> CHR 0xAA then Inl ENoBootSignature
               else if looksLikeFATBootSector sector then Inl EFATBootSector
               else Inr (mbrEntries sector)))"


section \<open>The partition array as the header describes it\<close>

text \<open>
  \<open>slot_entry r hdr i\<close> is slot \<open>i\<close> of the array by plain arithmetic on the header's fields;
  \<open>gpt_slots r hdr\<close> are all of them, when every sector can be read.
\<close>

definition used :: "GPTPartitionEntry \<Rightarrow> bool" where
  "used e = (\<not> isZeroGUID (TypeGUID e))"

definition slot_in :: "nat \<Rightarrow> bytes \<Rightarrow> nat \<Rightarrow> GPTPartitionEntry" where
  "slot_in esz sector i = decodeGPTEntry (sl sector (i * esz) (i * esz + 128))"

definition slot_at :: "reader \<Rightarrow> nat \<Rightarrow> nat \<Rightarrow> nat \<Rightarrow> nat \<Rightarrow> GPTPartitionEntry option" where
  "slot_at r base esz eps i =
     map_option (\<lambda>sector. slot_in esz sector (i mod eps)) (r (int (512 * (base + i div eps))) 512)"

definition slot_entry :: "reader \<Rightarrow> GPTHeader \<Rightarrow> nat \<Rightarrow> GPTPartitionEntry option" where
  "slot_entry r hdr i =
     slot_at r (unat (PartitionEntryLBA hdr)) (unat (PartitionEntrySize hdr))
       (512 div unat (PartitionEntrySize hdr)) i"

definition gpt_no_wrap :: "GPTHeader \<Rightarrow> bool" where
  "gpt_no_wrap hdr =
     (unat (PartitionEntryLBA hdr) < 2 ^ 53 \<and> unat (NumPartitionEntries hdr) + 4 < 2 ^ 32)"

lemma gptSector_eq:
  "gptSector n esz sector [j..<eps] (k, out) =
     (k + min (eps - j) (n - k),
      out @ filter used (map (slot_in esz sector) [j..<j + min (eps - j) (n - k)]))"
proof (induction "eps - j" arbitrary: j k out)
  case 0
  then show ?case by simp
next
  case (Suc d)
  then have j: "j < eps" "d = eps - Suc j" by simp_all
  show ?case
  proof (cases "k < n")
    case True
    let ?m = "min (eps - Suc j) (n - Suc k)"
    have m: "min (eps - j) (n - k) = Suc ?m"
      using j True by simp
    have u: "[j..<j + Suc ?m] = j # [Suc j..<Suc j + ?m]"
      by (simp add: upt_rec)
    show ?thesis
      using True j(1) Suc.hyps(1) [OF j(2)]
      by (simp only: upt_conv_Cons gptSector.simps if_True Let_def m u)
         (simp add: used_def slot_in_def)
  next
    case False
    then show ?thesis using j by (simp add: upt_conv_Cons)
  qed
qed

lemma offset_no_wrap:
  assumes "unat (base :: u64) < 2 ^ 53" "s < 2 ^ 32"
  shows "sint ((base + of_nat s) * 512) = int (512 * (unat base + s))"
proof -
  have s: "unat (of_nat s :: u64) = s"
    using assms by (intro unat_word_of_nat_less) simp
  have a: "unat (base + of_nat s) = unat base + s"
    using assms s by (subst unat_add_lem [THEN iffD1]) auto
  have m: "unat ((base + of_nat s) * 512) = (unat base + s) * 512"
    using assms a by (subst unat_mult_lem [THEN iffD1]) auto
  have "unat ((base + of_nat s) * 512) < 2 ^ 63"
    unfolding m using assms by simp
  then have "uint ((base + of_nat s) * 512) < 2 ^ 63"
    by (simp only: uint_nat of_nat_less_numeral_power_cancel_iff)
  then have "sint ((base + of_nat s) * 512) = uint ((base + of_nat s) * 512)"
    by (rule sint_eq_uint64)
  then show ?thesis
    by (simp only: uint_nat m mult.commute)
qed

lemma gptSectors_slots:
  assumes eps: "0 < eps" and base: "unat base < 2 ^ 53" and t: "t \<le> 2 ^ 32" "n \<le> t * eps"
  shows "\<lbrakk> gptSectors r base n esz eps [s..<t] (min n (s * eps), out) = Inr es; s \<le> t \<rbrakk>
     \<Longrightarrow> \<exists>full. map (slot_at r (unat base) esz eps) [min n (s * eps)..<n] = map Some full \<and>
               es = out @ filter used full"
proof (induction "t - s" arbitrary: s out)
  case 0
  then show ?case using t by simp
next
  case (Suc d)
  let ?at = "slot_at r (unat base) esz eps"
  define k where "k = min n (s * eps)"
  define m where "m = min eps (n - k)"
  have k': "min n (Suc s * eps) = k + m"
    unfolding k_def m_def by (cases "n \<le> s * eps"; cases "n \<le> Suc s * eps") auto
  from Suc.hyps(2) have st: "s < t" and d: "d = t - Suc s" by simp_all
  have off: "sint ((base + of_nat s) * 512) = int (512 * (unat base + s))"
    using base st t(1) by (intro offset_no_wrap) auto
  obtain sector where rd: "r (int (512 * (unat base + s))) 512 = Some sector"
    and rest: "gptSectors r base n esz eps [Suc s..<t] (gptSector n esz sector [0..<eps] (k, out)) = Inr es"
    using Suc.prems(1) unfolding upt_conv_Cons [OF st] gptSectors.simps Let_def off k_def [symmetric]
    by (cases "r (int (512 * (unat base + s))) 512") simp_all
  define here where "here = map (slot_in esz sector) [0..<m]"
  have "gptSector n esz sector [0..<eps] (k, out) = (min n (Suc s * eps), out @ filter used here)"
    unfolding k' here_def m_def using gptSector_eq [of n esz sector 0 eps k out] by simp
  note rest' = rest [unfolded this]
  obtain full where full: "map ?at [k + m..<n] = map Some full" "es = (out @ filter used here) @ filter used full"
    using Suc.hyps(1) [OF d rest' Suc_leI [OF st]] unfolding k' by blast
  have "map ?at [k..<k + m] = map Some here"
  proof (rule nth_equalityI)
    fix i assume "i < length (map ?at [k..<k + m])"
    then have i: "i < m" by simp
    then have "k = s * eps" "i < eps" unfolding k_def m_def by linarith+
    then have "(k + i) div eps = s" "(k + i) mod eps = i" using eps by simp_all
    then have "?at (k + i) = Some (slot_in esz sector i)"
      using rd by (simp only: slot_at_def option.map)
    with i show "map ?at [k..<k + m] ! i = map Some here ! i"
      by (simp add: here_def)
  qed (simp add: here_def)
  moreover have "[k..<n] = [k..<k + m] @ [k + m..<n]"
    by (rule upt_split) (simp_all add: k_def m_def)
  ultimately have "map ?at [k..<n] = map Some (here @ full)"
    using full(1) by simp
  then show ?case unfolding k_def [symmetric] using full(2) by (intro exI [of _ "here @ full"]) simp
qed

lemma gptSectors_Inl:
  "gptSectors r base n esz eps ss st = Inl e \<Longrightarrow>
     \<exists>s \<in> set ss. r (sint ((base + of_nat s) * 512)) 512 = None"
  by (induction ss arbitrary: st) (auto simp: Let_def split: option.splits)

lemma entriesPerSector_bounds:
  assumes "128 \<le> PartitionEntrySize hdr" "PartitionEntrySize hdr \<le> 512"
  shows "unat (entriesPerSector hdr) = 512 div unat (PartitionEntrySize hdr)"
    and "0 < unat (entriesPerSector hdr)" "unat (entriesPerSector hdr) \<le> 4"
proof -
  have e: "128 \<le> unat (PartitionEntrySize hdr)" "unat (PartitionEntrySize hdr) \<le> 512"
    using assms by (simp_all add: word_le_nat_alt)
  show u: "unat (entriesPerSector hdr) = 512 div unat (PartitionEntrySize hdr)"
    by (simp add: entriesPerSector_def unat_div)
  show "0 < unat (entriesPerSector hdr)"
    unfolding u using e by (simp add: div_greater_zero_iff)
  have "512 div unat (PartitionEntrySize hdr) \<le> 512 div 128"
    using e by (intro div_le_mono2) simp_all
  then show "unat (entriesPerSector hdr) \<le> 4" unfolding u by simp
qed

lemma totalSectors_no_wrap:
  assumes "gpt_no_wrap hdr" "128 \<le> PartitionEntrySize hdr" "PartitionEntrySize hdr \<le> 512"
  defines "n \<equiv> unat (NumPartitionEntries hdr)" and "eps \<equiv> unat (entriesPerSector hdr)"
  shows "unat (totalSectors hdr) = (n + eps - 1) div eps"
proof -
  note b = entriesPerSector_bounds [OF assms(2,3), folded eps_def]
  have w: "unat (NumPartitionEntries hdr + entriesPerSector hdr) = n + eps"
    using assms(1) b unfolding gpt_no_wrap_def n_def eps_def
    by (subst unat_add_lem [THEN iffD1]) auto
  have "unat (NumPartitionEntries hdr + entriesPerSector hdr - 1) = n + eps - 1"
    using w b(2) by (subst unat_minus_one) (auto simp: unat_gt_0)
  then show ?thesis
    by (simp add: totalSectors_def unat_div eps_def)
qed

text \<open>Away from wrap-around the loop returns exactly the used slots, and fails exactly when a
  sector of the array cannot be read.\<close>

lemma GPTPartitions_slots:
  assumes nw: "gpt_no_wrap hdr"
  shows "GPTPartitions (Some r) hdr = Inr es \<longleftrightarrow>
     128 \<le> PartitionEntrySize hdr \<and> PartitionEntrySize hdr \<le> 512 \<and> NumPartitionEntries hdr \<noteq> 0 \<and>
     (\<exists>full. map (slot_entry r hdr) [0..<unat (NumPartitionEntries hdr)] = map Some full \<and>
             es = filter used full)"
proof (cases "128 \<le> PartitionEntrySize hdr \<and> PartitionEntrySize hdr \<le> 512 \<and> NumPartitionEntries hdr \<noteq> 0")
  case False
  then show ?thesis by (auto simp: GPTPartitions_def not_le)
next
  case True
  define n where "n = unat (NumPartitionEntries hdr)"
  define eps where "eps = unat (entriesPerSector hdr)"
  define t where "t = unat (totalSectors hdr)"
  let ?base = "PartitionEntryLBA hdr" and ?esz = "unat (PartitionEntrySize hdr)"
  let ?run = "gptSectors r ?base n ?esz eps [0..<t] (0, [])"
  note b = entriesPerSector_bounds [of hdr, folded eps_def]
  have eps: "0 < eps" "eps = 512 div ?esz" using b True by auto
  have t_eq: "t = (n + eps - 1) div eps"
    using totalSectors_no_wrap [OF nw] True unfolding t_def n_def eps_def by blast
  then have tn: "n \<le> t * eps" "\<And>s. s < t \<Longrightarrow> s * eps < n"
    using ceil_div_bounds [OF eps(1)] by blast+
  have base: "unat ?base < 2 ^ 53" and t32: "t \<le> 2 ^ 32"
    using nw unsigned_less [where 'a = nat, of "totalSectors hdr"]
    by (simp_all add: gpt_no_wrap_def t_def)
  have slot: "slot_entry r hdr = slot_at r (unat ?base) ?esz eps"
    using eps by (simp add: slot_entry_def fun_eq_iff)
  have lhs: "GPTPartitions (Some r) hdr = ?run"
    using True by (auto simp: GPTPartitions_def n_def eps_def t_def dest: leD)
  have fwd: "\<exists>full. map (slot_entry r hdr) [0..<n] = map Some full \<and> es' = filter used full"
    if "?run = Inr es'" for es'
    unfolding slot
    by (rule gptSectors_slots [OF eps(1) base t32 tn(1), of r ?esz 0 "[]" es',
          unfolded mult_0 min_0R append_Nil, OF that le0])
  have bwd: "?run = Inr (filter used full)"
    if full: "map (slot_entry r hdr) [0..<n] = map Some full" for full
  proof (cases ?run)
    case (Inl e)
    from gptSectors_Inl [OF Inl]
    obtain s where "s \<in> set [0..<t]" and none: "r (sint ((?base + of_nat s) * 512)) 512 = None"
      by blast
    then have s: "s < t" by simp
    then have "s < 2 ^ 32" using t32 by (rule less_le_trans)
    then have "slot_entry r hdr (s * eps) = None"
      using none eps(1) unfolding offset_no_wrap [OF base \<open>s < 2 ^ 32\<close>] slot slot_at_def by simp
    moreover have "slot_entry r hdr i \<noteq> None" if "i < n" for i
      using arg_cong [OF full, of "\<lambda>xs. xs ! i"] arg_cong [OF full, of length] that by simp
    ultimately show ?thesis using tn(2) [OF s] by blast
  next
    case (Inr es')
    with fwd [OF Inr] full show ?thesis by (auto simp: inj_map_eq_map)
  qed
  have "GPTPartitions (Some r) hdr = Inr es \<longleftrightarrow>
      (\<exists>full. map (slot_entry r hdr) [0..<n] = map Some full \<and> es = filter used full)"
    unfolding lhs using fwd [of es] bwd by blast
  then show ?thesis
    using True unfolding n_def by simp
qed

end
