(* ===== verification/Extent_Gate.thy ===== *)
theory Extent_Gate
  imports Part_Table Layout
begin

text \<open>
  The safety gate of every BIOS write, \<open>CheckStage2ExtentFree\<close> of
  \<open>src/internal/bootenv/bootenv.go\<close>: nothing in the disk's partition table may claim a sector
  of the stage2 extent (LBA 34 to 97), except a partition that is exactly that extent.
  The lemmas give the gate's verdict in both table formats as a statement about sets of
  sectors, and show what a header whose entry count wraps does to it.
\<close>

datatype gate_error =
    GateGPTHeader part_error
  | GateNoTable part_error
  | GateEntrySizeZero
  | GateArrayOverlap u64 u64
  | GateArrayRead part_error
  | GateGPTOverlap GPTPartitionEntry
  | GateMBROverlap MBRPartitionEntry

definition lbaRangesOverlap :: "u64 \<Rightarrow> u64 \<Rightarrow> u64 \<Rightarrow> u64 \<Rightarrow> bool" where
  "lbaRangesOverlap aStart aEnd bStart bEnd = (aStart \<le> bEnd \<and> bStart \<le> aEnd)"

definition gateEntriesPerSector :: "GPTHeader \<Rightarrow> nat" where
  "gateEntriesPerSector hdr =
     (let eps = SectorSize div unat (PartitionEntrySize hdr) in if eps < 1 then 1 else eps)"

definition arraySectors :: "GPTHeader \<Rightarrow> u64" where
  "arraySectors hdr =
     (ucast (NumPartitionEntries hdr) + of_nat (gateEntriesPerSector hdr) - 1)
       div of_nat (gateEntriesPerSector hdr)"

definition gptConflict :: "u64 \<Rightarrow> u64 \<Rightarrow> GPTPartitionEntry \<Rightarrow> bool" where
  "gptConflict extentStart extentEnd e =
     (\<not> (StartLBA e = extentStart \<and> EndLBA e = extentEnd) \<and>
      lbaRangesOverlap extentStart extentEnd (StartLBA e) (EndLBA e))"

definition checkGPTExtentFree :: "disk \<Rightarrow> GPTHeader \<Rightarrow> u64 \<Rightarrow> u64 \<Rightarrow> gate_error + unit" where
  "checkGPTExtentFree disk hdr extentStart extentEnd =
     (if PartitionEntrySize hdr = 0 then Inl GateEntrySizeZero
      else
        let arrayStart = PartitionEntryLBA hdr;
            arrayEnd = arrayStart + arraySectors hdr - 1
        in if arraySectors hdr > 0 \<and> lbaRangesOverlap extentStart extentEnd arrayStart arrayEnd
           then Inl (GateArrayOverlap arrayStart arrayEnd)
           else
             bindE (mapErr GateArrayRead (GPTPartitions disk hdr)) (\<lambda>entries.
               case find (gptConflict extentStart extentEnd) entries of
                 Some e \<Rightarrow> Inl (GateGPTOverlap e)
               | None \<Rightarrow> Inr ()))"

definition mbrStart :: "MBRPartitionEntry \<Rightarrow> u64" where
  "mbrStart e = ucast (MStartLBA e)"

definition mbrEnd :: "MBRPartitionEntry \<Rightarrow> u64" where
  "mbrEnd e = mbrStart e + ucast (MSectorCount e) - 1"

definition mbrConflict :: "u64 \<Rightarrow> u64 \<Rightarrow> MBRPartitionEntry \<Rightarrow> bool" where
  "mbrConflict extentStart extentEnd e =
     (\<not> (mbrStart e = extentStart \<and> mbrEnd e = extentEnd) \<and>
      lbaRangesOverlap extentStart extentEnd (mbrStart e) (mbrEnd e))"

definition CheckStage2ExtentFree :: "disk \<Rightarrow> gate_error + unit" where
  "CheckStage2ExtentFree disk =
     (let extentStart = of_nat Stage2LBA;
          extentEnd = extentStart + of_nat Stage2Sectors - 1
      in case ReadGPTHeader disk of
           Inr hdr \<Rightarrow> checkGPTExtentFree disk hdr extentStart extentEnd
         | Inl err \<Rightarrow>
             if err \<noteq> ENoGPTSignature then Inl (GateGPTHeader err)
             else
               bindE (mapErr GateNoTable (MBRPartitions disk)) (\<lambda>entries.
                 case find (mbrConflict extentStart extentEnd) entries of
                   Some e \<Rightarrow> Inl (GateMBROverlap e)
                 | None \<Rightarrow> Inr ()))"


section \<open>The gate as a statement about sectors\<close>

text \<open>The sectors of the stage2 extent; a claim \<open>first .. last\<close> on sectors is clear of them when
  it is the extent itself or ends before it or begins after it.\<close>

definition extent_lbas :: "nat set" where
  "extent_lbas = {Stage2LBA ..< Stage2LBA + Stage2Sectors}"

definition clear_of_extent :: "nat \<Rightarrow> nat \<Rightarrow> bool" where
  "clear_of_extent a b \<longleftrightarrow>
     (a = Stage2LBA \<and> b = Stage2LBA + Stage2Sectors - 1) \<or>
     b < Stage2LBA \<or> Stage2LBA + Stage2Sectors \<le> a"

lemma clear_of_extent_disjoint:
  "clear_of_extent a b \<Longrightarrow> {a .. b} = extent_lbas \<or> {a .. b} \<inter> extent_lbas = {}"
  by (auto simp: clear_of_extent_def extent_lbas_def layout_defs)

lemma conflict_iff:
  "(\<not> (s = 34 \<and> e = 97) \<and> lbaRangesOverlap 34 97 s e) \<longleftrightarrow> \<not> clear_of_extent (unat s) (unat e)"
proof -
  have "s = 34 \<and> e = 97 \<longleftrightarrow> unat s = 34 \<and> unat e = 97"
    by (auto simp: word_unat_eq_iff)
  moreover have "lbaRangesOverlap 34 97 s e \<longleftrightarrow> 34 \<le> unat e \<and> unat s \<le> 97"
    by (simp add: lbaRangesOverlap_def word_le_nat_alt)
  ultimately show ?thesis
    unfolding clear_of_extent_def layout_defs by linarith
qed

lemma find_None_all: "find P xs = None \<longleftrightarrow> (\<forall>x \<in> set xs. \<not> P x)"
  by (auto simp: find_None_iff)

lemma find_verdict:
  "(case find P xs of Some e \<Rightarrow> Inl (g e) | None \<Rightarrow> Inr ()) = Inr () \<longleftrightarrow> (\<forall>x \<in> set xs. \<not> P x)"
  using find_None_all [of P xs] by (cases "find P xs") auto

lemma extent_words: "of_nat Stage2LBA = (34 :: u64)" "(34 :: u64) + of_nat Stage2Sectors - 1 = 97"
  by (simp_all add: layout_defs)

lemma mbrEnd_unat:
  assumes "MSectorCount e \<noteq> 0"
  shows "unat (mbrEnd e) = unat (MStartLBA e) + unat (MSectorCount e) - 1"
proof -
  have b: "unat (MStartLBA e) < 2 ^ 32" "unat (MSectorCount e) < 2 ^ 32" "0 < unat (MSectorCount e)"
    using unat_u32_less assms by (simp_all add: unat_gt_0)
  have u: "unat (ucast (MStartLBA e) :: u64) = unat (MStartLBA e)"
    "unat (ucast (MSectorCount e) :: u64) = unat (MSectorCount e)"
    by simp_all
  have a: "unat (ucast (MStartLBA e) + ucast (MSectorCount e) :: u64) = unat (MStartLBA e) + unat (MSectorCount e)"
    using b u by (subst unat_add_lem [THEN iffD1]) simp_all
  have "(ucast (MStartLBA e) + ucast (MSectorCount e) :: u64) \<noteq> 0"
    using a b(3) by (metis add_gr_0 less_numeral_extra(3) unat_0)
  from unat_minus_one [OF this] show ?thesis
    by (simp only: mbrEnd_def mbrStart_def a)
qed

text \<open>The verdict on an MBR disk.\<close>

lemma gate_mbr_iff:
  assumes "ReadGPTHeader disk = Inl ENoGPTSignature" "MBRPartitions disk = Inr es"
  shows "CheckStage2ExtentFree disk = Inr () \<longleftrightarrow>
    (\<forall>e \<in> set es. clear_of_extent (unat (MStartLBA e)) (unat (mbrEnd e)))"
proof -
  have "unat (mbrStart e) = unat (MStartLBA e)" for e
    by (simp add: mbrStart_def)
  then have "mbrConflict 34 97 e \<longleftrightarrow> \<not> clear_of_extent (unat (MStartLBA e)) (unat (mbrEnd e))" for e
    unfolding mbrConflict_def conflict_iff by simp
  then show ?thesis
    unfolding CheckStage2ExtentFree_def Let_def assms extent_words
    by (simp add: find_verdict)
qed

text \<open>The verdict on a GPT disk whose header does not make the arithmetic wrap.\<close>

lemma arraySectors_no_wrap:
  assumes "gpt_no_wrap hdr" "128 \<le> PartitionEntrySize hdr" "PartitionEntrySize hdr \<le> 512"
  shows "unat (arraySectors hdr) = unat (totalSectors hdr)"
proof -
  note b = entriesPerSector_bounds [OF assms(2,3)]
  define n eps where "n = unat (NumPartitionEntries hdr)" and "eps = unat (entriesPerSector hdr)"
  have g: "gateEntriesPerSector hdr = eps"
    using b by (simp add: gateEntriesPerSector_def eps_def layout_defs Let_def)
  have eps: "0 < eps" "eps \<le> 4" using b by (simp_all add: eps_def)
  have e: "unat (of_nat eps :: u64) = eps"
    using eps by (intro unat_word_of_nat_less) simp
  have s: "unat (ucast (NumPartitionEntries hdr) + of_nat eps :: u64) = n + eps"
    using e eps unat_u32_less [of "NumPartitionEntries hdr"]
    by (subst unat_add_lem [THEN iffD1]) (simp_all add: n_def)
  then have "(ucast (NumPartitionEntries hdr) + of_nat eps :: u64) \<noteq> 0"
    using eps by (metis add_is_0 less_numeral_extra(3) unat_0)
  from unat_minus_one [OF this]
  have "unat (arraySectors hdr) = (n + eps - 1) div eps"
    by (simp add: arraySectors_def g unat_div s e)
  then show ?thesis
    using totalSectors_no_wrap [OF assms] by (simp add: n_def eps_def)
qed

definition array_last :: "GPTHeader \<Rightarrow> nat" where
  "array_last hdr =
     unat (PartitionEntryLBA hdr) + unat (totalSectors hdr) - 1"

lemma all_slots_iff:
  "(\<exists>full. map f [0..<n] = map Some full \<and> (\<forall>x \<in> set (filter P full). Q x)) \<longleftrightarrow>
   (\<forall>i < n. \<exists>x. f i = Some x \<and> (P x \<longrightarrow> Q x))"
proof
  assume "\<exists>full. map f [0..<n] = map Some full \<and> (\<forall>x \<in> set (filter P full). Q x)"
  then obtain full where full: "map f [0..<n] = map Some full" "\<forall>x \<in> set (filter P full). Q x" by blast
  then have len: "length full = n" by (metis length_map diff_zero length_upt)
  show "\<forall>i < n. \<exists>x. f i = Some x \<and> (P x \<longrightarrow> Q x)"
  proof (intro allI impI)
    fix i assume "i < n"
    then have "f i = Some (full ! i)" "full ! i \<in> set full"
      using arg_cong [OF full(1), of "\<lambda>xs. xs ! i"] len by simp_all
    with full(2) show "\<exists>x. f i = Some x \<and> (P x \<longrightarrow> Q x)" by auto
  qed
next
  assume a: "\<forall>i < n. \<exists>x. f i = Some x \<and> (P x \<longrightarrow> Q x)"
  then have "map f [0..<n] = map Some (map (the \<circ> f) [0..<n])" by auto
  moreover have "\<forall>x \<in> set (filter P (map (the \<circ> f) [0..<n])). Q x" using a by auto
  ultimately show "\<exists>full. map f [0..<n] = map Some full \<and> (\<forall>x \<in> set (filter P full). Q x)" by blast
qed

lemma array_end_no_wrap:
  assumes "gpt_no_wrap hdr" "unat (arraySectors hdr) = unat (totalSectors hdr)" "0 < arraySectors hdr"
  shows "unat (PartitionEntryLBA hdr + arraySectors hdr - 1) = array_last hdr"
proof -
  have p: "0 < unat (arraySectors hdr)" using assms(3) by (simp add: word_less_nat_alt)
  have "unat (PartitionEntryLBA hdr + arraySectors hdr) = unat (PartitionEntryLBA hdr) + unat (arraySectors hdr)"
    using assms(1,2) unat_u32_less [of "totalSectors hdr"]
    by (subst unat_add_lem [THEN iffD1]) (simp_all add: gpt_no_wrap_def)
  moreover from this p have "PartitionEntryLBA hdr + arraySectors hdr \<noteq> 0"
    by (metis add_is_0 less_numeral_extra(3) unat_0)
  ultimately show ?thesis
    unfolding array_last_def using assms(2) unat_minus_one by metis
qed

lemma gate_gpt_iff:
  assumes hdr: "ReadGPTHeader (Some r) = Inr hdr" and nw: "gpt_no_wrap hdr"
  shows "CheckStage2ExtentFree (Some r) = Inr () \<longleftrightarrow>
     128 \<le> PartitionEntrySize hdr \<and> PartitionEntrySize hdr \<le> 512 \<and> NumPartitionEntries hdr \<noteq> 0 \<and>
     \<not> (unat (PartitionEntryLBA hdr) \<le> 97 \<and> 34 \<le> array_last hdr) \<and>
     (\<forall>i < unat (NumPartitionEntries hdr). \<exists>e. slot_entry r hdr i = Some e \<and>
        (used e \<longrightarrow> clear_of_extent (unat (StartLBA e)) (unat (EndLBA e))))"
proof (cases "128 \<le> PartitionEntrySize hdr \<and> PartitionEntrySize hdr \<le> 512 \<and> NumPartitionEntries hdr \<noteq> 0")
  case False
  then have "\<nexists>es. GPTPartitions (Some r) hdr = Inr es"
    using GPTPartitions_slots [OF nw] by blast
  with False show ?thesis
    unfolding CheckStage2ExtentFree_def checkGPTExtentFree_def Let_def hdr by auto
next
  case True
  then have nz: "PartitionEntrySize hdr \<noteq> 0" by auto
  let ?s = "PartitionEntryLBA hdr" and ?n = "unat (NumPartitionEntries hdr)"
  have tt: "unat (arraySectors hdr) = unat (totalSectors hdr)"
    using arraySectors_no_wrap [OF nw] True by blast
  have "0 < ?n" using True by (simp add: unat_gt_0)
  moreover have "?n \<le> unat (totalSectors hdr) * unat (entriesPerSector hdr)"
    using totalSectors_no_wrap [OF nw] entriesPerSector_bounds True ceil_div_bounds(1) by metis
  ultimately have pos: "0 < arraySectors hdr"
    using tt by (cases "unat (arraySectors hdr)") (auto simp: word_less_nat_alt)
  have ov: "lbaRangesOverlap 34 97 ?s (?s + arraySectors hdr - 1) \<longleftrightarrow>
      unat ?s \<le> 97 \<and> 34 \<le> array_last hdr"
    using array_end_no_wrap [OF nw tt pos] by (auto simp: lbaRangesOverlap_def word_le_nat_alt)
  have conf: "gptConflict 34 97 e \<longleftrightarrow> \<not> clear_of_extent (unat (StartLBA e)) (unat (EndLBA e))" for e
    unfolding gptConflict_def conflict_iff by simp
  have "CheckStage2ExtentFree (Some r) = Inr () \<longleftrightarrow>
      \<not> (unat ?s \<le> 97 \<and> 34 \<le> array_last hdr) \<and>
      (\<exists>es. GPTPartitions (Some r) hdr = Inr es \<and> (\<forall>e \<in> set es. \<not> gptConflict 34 97 e))"
    using nz pos ov unfolding CheckStage2ExtentFree_def checkGPTExtentFree_def Let_def hdr extent_words
    by (simp add: find_verdict)
  also have "(\<exists>es. GPTPartitions (Some r) hdr = Inr es \<and> (\<forall>e \<in> set es. \<not> gptConflict 34 97 e)) \<longleftrightarrow>
      (\<forall>i < ?n. \<exists>e. slot_entry r hdr i = Some e \<and>
        (used e \<longrightarrow> clear_of_extent (unat (StartLBA e)) (unat (EndLBA e))))"
    unfolding GPTPartitions_slots [OF nw] conf not_not all_slots_iff [symmetric]
    using True by blast
  finally show ?thesis using True by blast
qed

text \<open>An array that stays clear of the extent keeps every one of its sectors clear of it.\<close>

lemma slot_sector_outside:
  assumes nw: "gpt_no_wrap hdr" and "i < unat (NumPartitionEntries hdr)"
    and "128 \<le> PartitionEntrySize hdr" "PartitionEntrySize hdr \<le> 512"
    and "\<not> (unat (PartitionEntryLBA hdr) \<le> 97 \<and> 34 \<le> array_last hdr)"
  defines "l \<equiv> unat (PartitionEntryLBA hdr) + i div (512 div unat (PartitionEntrySize hdr))"
  shows "l < 34 \<or> 97 < l"
proof -
  note b = entriesPerSector_bounds [OF assms(3,4)]
  let ?eps = "unat (entriesPerSector hdr)"
  have "unat (NumPartitionEntries hdr) \<le> unat (totalSectors hdr) * ?eps"
    using totalSectors_no_wrap [OF nw assms(3,4)] ceil_div_bounds(1) [OF b(2)] by metis
  then have "i div ?eps < unat (totalSectors hdr)"
    using assms(2) b(2) by (simp add: less_mult_imp_div_less)
  then show ?thesis
    using assms(5) unfolding l_def b(1) [symmetric] array_last_def by linarith
qed

text \<open>
  When the entry count makes \<open>totalSectors\<close> wrap to 0, the array read is empty and the gate
  looks at no entry at all: with the array placed beyond the extent it accepts every disk.
\<close>

lemma gate_wrap_accepts:
  assumes "PartitionEntrySize hdr = 128" "NumPartitionEntries hdr = 0xFFFFFFFF"
    "98 \<le> PartitionEntryLBA hdr" "PartitionEntryLBA hdr < 2 ^ 53"
  shows "checkGPTExtentFree (Some r) hdr 34 97 = Inr ()"
proof -
  have "entriesPerSector hdr = 4" by (simp add: entriesPerSector_def assms)
  then have "totalSectors hdr = 0" by (simp add: totalSectors_def assms)
  then have "GPTPartitions (Some r) hdr = Inr []"
    by (simp add: GPTPartitions_def assms)
  moreover have "\<not> lbaRangesOverlap 34 97 (PartitionEntryLBA hdr) x" for x
    using assms(3) by (simp add: lbaRangesOverlap_def word_le_nat_alt)
  ultimately show ?thesis
    by (simp add: checkGPTExtentFree_def assms Let_def)
qed


section \<open>A sample GPT disk\<close>

text \<open>A header with four 128-byte slots at LBA 2, the first of them the stage2 extent itself.\<close>

definition sample_header :: bytes where
  "sample_header = [
      CHR 0x45, CHR 0x46, CHR 0x49, CHR 0x20, CHR 0x50, CHR 0x41, CHR 0x52, CHR 0x54,
      CHR 0x00, CHR 0x00, CHR 0x01, CHR 0x00, CHR 0x5C, CHR 0x00, CHR 0x00, CHR 0x00,
      CHR 0xAF, CHR 0xDC, CHR 0x54, CHR 0xD0, CHR 0x00, CHR 0x00, CHR 0x00, CHR 0x00,
      CHR 0x01, CHR 0x00, CHR 0x00, CHR 0x00, CHR 0x00, CHR 0x00, CHR 0x00, CHR 0x00,
      CHR 0x00, CHR 0x00, CHR 0x00, CHR 0x00, CHR 0x00, CHR 0x00, CHR 0x00, CHR 0x00,
      CHR 0x22, CHR 0x00, CHR 0x00, CHR 0x00, CHR 0x00, CHR 0x00, CHR 0x00, CHR 0x00,
      CHR 0x64, CHR 0x00, CHR 0x00, CHR 0x00, CHR 0x00, CHR 0x00, CHR 0x00, CHR 0x00,
      CHR 0x01, CHR 0x02, CHR 0x03, CHR 0x04, CHR 0x05, CHR 0x06, CHR 0x07, CHR 0x08,
      CHR 0x09, CHR 0x0A, CHR 0x0B, CHR 0x0C, CHR 0x0D, CHR 0x0E, CHR 0x0F, CHR 0x10,
      CHR 0x02, CHR 0x00, CHR 0x00, CHR 0x00, CHR 0x00, CHR 0x00, CHR 0x00, CHR 0x00,
      CHR 0x04, CHR 0x00, CHR 0x00, CHR 0x00, CHR 0x80, CHR 0x00, CHR 0x00, CHR 0x00,
      CHR 0x00, CHR 0x00, CHR 0x00, CHR 0x00]"

definition sample_entry :: bytes where
  "sample_entry = [
      CHR 0x01, CHR 0x02, CHR 0x03, CHR 0x04, CHR 0x05, CHR 0x06, CHR 0x07, CHR 0x08,
      CHR 0x09, CHR 0x0A, CHR 0x0B, CHR 0x0C, CHR 0x0D, CHR 0x0E, CHR 0x0F, CHR 0x10,
      CHR 0x00, CHR 0x00, CHR 0x00, CHR 0x00, CHR 0x00, CHR 0x00, CHR 0x00, CHR 0x00,
      CHR 0x00, CHR 0x00, CHR 0x00, CHR 0x00, CHR 0x00, CHR 0x00, CHR 0x00, CHR 0x00,
      CHR 0x22, CHR 0x00, CHR 0x00, CHR 0x00, CHR 0x00, CHR 0x00, CHR 0x00, CHR 0x00,
      CHR 0x61, CHR 0x00, CHR 0x00, CHR 0x00, CHR 0x00, CHR 0x00, CHR 0x00, CHR 0x00,
      CHR 0x00, CHR 0x00, CHR 0x00, CHR 0x00, CHR 0x00, CHR 0x00, CHR 0x00, CHR 0x00]"

definition sample_disk :: reader where
  "sample_disk off n =
     (if off < 0 then None
      else if off = 512 then Some (take n (sample_header @ replicate n (CHR 0x00)))
      else if off = 1024 then Some (take n (sample_entry @ replicate n (CHR 0x00)))
      else Some (replicate n (CHR 0x00)))"

lemma length_sample: "length sample_header = 92" "length sample_entry = 56"
  by (simp_all add: sample_header_def sample_entry_def)

lemma sample_crc:
  "crc32ISO (sample_header [16 := CHR 0x00, 17 := CHR 0x00, 18 := CHR 0x00, 19 := CHR 0x00])
     = HeaderCRC32 (decodeGPTHeader sample_header)"
  by (simp add: sample_header_def crc_eval decodeGPTHeader_def le32_def)

lemma sample_fields:
  "sl sample_header 0 8 = gptSignature" "HeaderSize (decodeGPTHeader sample_header) = 92"
  "PartitionEntryLBA (decodeGPTHeader sample_header) = 2"
  "NumPartitionEntries (decodeGPTHeader sample_header) = 4"
  "PartitionEntrySize (decodeGPTHeader sample_header) = 128"
  by (simp_all add: sample_header_def sl_def gptSignature_def decodeGPTHeader_def le32_def le64_def)

lemma sample_read: "ReadGPTHeader (Some sample_disk) = Inr (decodeGPTHeader sample_header)"
proof -
  define sec where "sec = take 512 (sample_header @ replicate 512 (CHR 0x00))"
  have "sample_disk 512 512 = Some sec"
    by (simp add: sample_disk_def sec_def)
  moreover have "sl sec 0 8 = sl sample_header 0 8" "sl sec 0 92 = sample_header"
    by (simp_all add: sec_def sl_def length_sample min_def)
  ultimately show ?thesis
    by (simp add: ReadGPTHeader_def gptHeaderSize_def sample_fields Let_def sample_crc)
qed

lemma sample_sector_slots:
  fixes sec :: bytes
  defines "sec \<equiv> take 512 (sample_entry @ replicate 512 (CHR 0x00))"
  shows "slot_in 128 sec 0 = decodeGPTEntry (sample_entry @ replicate 72 (CHR 0x00))"
    and "0 < i \<Longrightarrow> i < 4 \<Longrightarrow> slot_in 128 sec i = decodeGPTEntry (replicate 128 (CHR 0x00))"
proof -
  show "slot_in 128 sec 0 = decodeGPTEntry (sample_entry @ replicate 72 (CHR 0x00))"
    by (simp add: slot_in_def sec_def sl_def length_sample)
  assume i: "0 < i" "i < 4"
  then have "sl sec (i * 128) (i * 128 + 128) = replicate 128 (CHR 0x00)"
    by (simp add: sec_def sl_def length_sample)
  then show "slot_in 128 sec i = decodeGPTEntry (replicate 128 (CHR 0x00))"
    by (simp add: slot_in_def)
qed

lemma sample_slots:
  assumes "i < 4"
  shows "\<exists>e. slot_entry sample_disk (decodeGPTHeader sample_header) i = Some e \<and>
    (used e \<longrightarrow> clear_of_extent (unat (StartLBA e)) (unat (EndLBA e)))"
proof (cases "i = 0")
  case True
  have "slot_entry sample_disk (decodeGPTHeader sample_header) 0
      = Some (decodeGPTEntry (sample_entry @ replicate 72 (CHR 0x00)))"
    by (simp add: slot_entry_def slot_at_def sample_fields sample_disk_def sample_sector_slots [simplified])
  moreover have "StartLBA (decodeGPTEntry (sample_entry @ replicate 72 (CHR 0x00))) = 34"
    "EndLBA (decodeGPTEntry (sample_entry @ replicate 72 (CHR 0x00))) = 97"
    by (simp_all add: decodeGPTEntry_def sample_entry_def le64_def)
  ultimately show ?thesis using True by (simp add: clear_of_extent_def layout_defs)
next
  case False
  have "slot_entry sample_disk (decodeGPTHeader sample_header) i
      = Some (decodeGPTEntry (replicate 128 (CHR 0x00)))"
    using assms False
    by (simp add: slot_entry_def slot_at_def sample_fields sample_disk_def sample_sector_slots [simplified])
  moreover have "\<not> used (decodeGPTEntry (replicate 128 (CHR 0x00)))"
    by (simp add: used_def decodeGPTEntry_def isZeroGUID_def sl_def)
  ultimately show ?thesis by simp
qed


text \<open>An MBR disk with one partition, and nothing at LBA 1.\<close>

definition sample_mbr :: reader where
  "sample_mbr off n =
     (if off = 0 then Some (take n (replicate 446 (CHR 0x00) @
        [CHR 0x00, CHR 0x00, CHR 0x00, CHR 0x00, CHR 0x2E, CHR 0x00, CHR 0x00, CHR 0x00,
         CHR 0x00, CHR 0x08, CHR 0x00, CHR 0x00, CHR 0x00, CHR 0x10, CHR 0x00, CHR 0x00] @
        replicate 48 (CHR 0x00) @ [CHR 0x55, CHR 0xAA]))
      else if off < 0 then None else Some (replicate n (CHR 0x00)))"

abbreviation sample_part :: MBRPartitionEntry where
  "sample_part \<equiv> \<lparr>Status = CHR 0x00, Type = CHR 0x2E, MStartLBA = 0x800, MSectorCount = 0x1000\<rparr>"

lemma sample_mbr_no_gpt: "ReadGPTHeader (Some sample_mbr) = Inl ENoGPTSignature"
proof -
  have "replicate 8 (CHR 0x00) \<noteq> gptSignature"
    by (simp add: gptSignature_def numeral_eq_Suc)
  then show ?thesis
    by (simp add: ReadGPTHeader_def sample_mbr_def sl_def)
qed

lemma sample_mbr_parts: "MBRPartitions (Some sample_mbr) = Inr [sample_part]"
  by code_simp

lemma sample_mbr_accepted: "CheckStage2ExtentFree (Some sample_mbr) = Inr ()"
  unfolding gate_mbr_iff [OF sample_mbr_no_gpt sample_mbr_parts]
  by (simp add: clear_of_extent_def layout_defs mbrEnd_unat)


section \<open>Properties\<close>

text \<open>C1: on a GPT disk whose header does not make the table arithmetic wrap, the gate accepts
  exactly when the entry size and count are usable, the partition array itself stays clear of the
  stage2 extent, and every slot of the array can be read and is unused, is the extent itself or
  lies wholly before or after it.\<close>

theorem gate_gpt_exact:
  assumes "ReadGPTHeader (Some r) = Inr hdr" "gpt_no_wrap hdr"
  shows "CheckStage2ExtentFree (Some r) = Inr () \<longleftrightarrow>
     128 \<le> PartitionEntrySize hdr \<and> PartitionEntrySize hdr \<le> 512 \<and> NumPartitionEntries hdr \<noteq> 0 \<and>
     \<not> (unat (PartitionEntryLBA hdr) \<le> 97 \<and> 34 \<le> array_last hdr) \<and>
     (\<forall>i < unat (NumPartitionEntries hdr). \<exists>e. slot_entry r hdr i = Some e \<and>
        (used e \<longrightarrow> clear_of_extent (unat (StartLBA e)) (unat (EndLBA e))))"
  using assms by (rule gate_gpt_iff)

theorem gate_gpt_exact_witness:
  "CheckStage2ExtentFree (Some sample_disk) = Inr ()"
proof -
  let ?h = "decodeGPTHeader sample_header"
  have "gpt_no_wrap ?h" by (simp add: gpt_no_wrap_def sample_fields)
  moreover have "totalSectors ?h = 1"
    by (simp add: totalSectors_def entriesPerSector_def sample_fields)
  then have "array_last ?h = 2" by (simp add: array_last_def sample_fields)
  ultimately show ?thesis
    using gate_gpt_exact [OF sample_read] sample_slots by (simp add: sample_fields)
qed

text \<open>C2: on a disk without a GPT signature, once the gate has accepted, every partition of the MBR
  table either is the stage2 extent or shares no sector with it.\<close>

theorem gate_protects_mbr:
  assumes "ReadGPTHeader disk = Inl ENoGPTSignature" "MBRPartitions disk = Inr es"
    and "CheckStage2ExtentFree disk = Inr ()" "e \<in> set es"
  shows "{unat (MStartLBA e) ..< unat (MStartLBA e) + unat (MSectorCount e)} = extent_lbas \<or>
     {unat (MStartLBA e) ..< unat (MStartLBA e) + unat (MSectorCount e)} \<inter> extent_lbas = {}"
proof -
  have "MSectorCount e \<noteq> 0"
    using assms(2,4) by (auto simp: MBRPartitions_def mbrEntries_def split: option.splits if_splits)
  from mbrEnd_unat [OF this] this
  have "{unat (MStartLBA e) ..< unat (MStartLBA e) + unat (MSectorCount e)} = {unat (MStartLBA e) .. unat (mbrEnd e)}"
    by (auto simp: unat_gt_0 [symmetric])
  moreover have "clear_of_extent (unat (MStartLBA e)) (unat (mbrEnd e))"
    using gate_mbr_iff [OF assms(1,2)] assms(3,4) by blast
  ultimately show ?thesis using clear_of_extent_disjoint by simp
qed

theorem gate_protects_mbr_witness:
  "\<exists>es e. MBRPartitions (Some sample_mbr) = Inr es \<and> e \<in> set es \<and>
     ({unat (MStartLBA e) ..< unat (MStartLBA e) + unat (MSectorCount e)} = extent_lbas \<or>
      {unat (MStartLBA e) ..< unat (MStartLBA e) + unat (MSectorCount e)} \<inter> extent_lbas = {})"
  using gate_protects_mbr [OF sample_mbr_no_gpt sample_mbr_parts sample_mbr_accepted, of sample_part]
    sample_mbr_parts
  by (intro exI [of _ "[sample_part]"] exI [of _ sample_part]) simp

end
