(* ===== verification/Bios_Boot.thy ===== *)
theory Bios_Boot
  imports Extent_Gate
begin

text \<open>
  \<open>src/internal/biosboot\<close> and the stage writer of \<open>src/cmd/tool/main.go\<close>: stage1 is the first
  440 bytes of the disk, stage2 the 32 KiB extent at LBA 34.

  A device is its content, the outcomes of the I/O calls still to come and the content after
  every write call so far.  The outcome \<open>Fail n\<close> makes a call report an error; a write has put
  down its first \<open>n\<close> bytes by then.  An empty outcome list means every further call succeeds.
  The write gate's own reads are one call: a failure in it is the gate's open error.

  The locale \<open>region_writer\<close> is the contract both stage writers keep, and the rollback lemma
  is proved from it once.
\<close>

datatype io = Good | Fail nat

record dev =
  content :: bytes
  outcomes :: "io list"
  history :: "bytes list"

definition next_io :: "dev \<Rightarrow> io \<times> dev" where
  "next_io d = (case outcomes d of [] \<Rightarrow> (Good, d) | x # xs \<Rightarrow> (x, d\<lparr>outcomes := xs\<rparr>))"

text \<open>\<open>open\<close> and \<open>Sync\<close> either work or fail; \<open>ReadAt\<close> fails beyond the end; \<open>WriteAt\<close> puts
  down what fits and fails beyond the end.\<close>

definition io_call :: "dev \<Rightarrow> bool \<times> dev" where
  "io_call d = (let (x, d') = next_io d in (x = Good, d'))"

definition io_readAt :: "dev \<Rightarrow> nat \<Rightarrow> nat \<Rightarrow> bytes option \<times> dev" where
  "io_readAt d off n =
     (let (x, d') = next_io d in
      (if x = Good then file_reader (content d') (int off) n else None, d'))"

definition io_put :: "dev \<Rightarrow> nat \<Rightarrow> bytes \<Rightarrow> dev" where
  "io_put d off b =
     (let c = overwrite (content d) off b in d\<lparr>content := c, history := history d @ [c]\<rparr>)"

definition io_writeAt :: "dev \<Rightarrow> nat \<Rightarrow> bytes \<Rightarrow> bool \<times> dev" where
  "io_writeAt d off b =
     (let (x, d') = next_io d;
          fit = take (length (content d') - off) b
      in case x of
           Good \<Rightarrow> (length fit = length b, io_put d' off fit)
         | Fail n \<Rightarrow> (False, io_put d' off (take n fit)))"

datatype stage_error =
    StageSize nat
  | StageGate gate_error
  | StageOpen
  | StageBackup
  | StageWrite
  | StageSync
  | StageRead
  | StageDiffers
  | StagePadding nat

datatype diff = DiffAt nat byte byte | DiffLength nat nat | NoDiff

fun firstDiffFrom :: "nat \<Rightarrow> bytes \<Rightarrow> bytes \<Rightarrow> diff option" where
  "firstDiffFrom i (g # gs) (w # ws) =
     (if g \<noteq> w then Some (DiffAt i g w) else firstDiffFrom (Suc i) gs ws)"
| "firstDiffFrom i _ _ = None"

definition firstDiff :: "bytes \<Rightarrow> bytes \<Rightarrow> diff" where
  "firstDiff got want =
     (case firstDiffFrom 0 got want of
        Some d \<Rightarrow> d
      | None \<Rightarrow> if length got \<noteq> length want then DiffLength (length got) (length want) else NoDiff)"

definition readRegion :: "dev \<Rightarrow> nat \<Rightarrow> nat \<Rightarrow> (stage_error + bytes) \<times> dev" where
  "readRegion d off n =
     (let (ok, d1) = io_call d in
      if \<not> ok then (Inl StageOpen, d1)
      else let (b, d2) = io_readAt d1 off n in
           (case b of None \<Rightarrow> (Inl StageRead, d2) | Some buf \<Rightarrow> (Inr buf, d2)))"

definition stage2Offset :: nat where "stage2Offset = Stage2LBA * SectorSize"

definition gate :: "dev \<Rightarrow> (gate_error + unit) \<times> dev" where
  "gate d =
     (let (ok, d') = io_call d in
      (CheckStage2ExtentFree (if ok then Some (file_reader (content d')) else None), d'))"

text \<open>\<open>WriteStage1\<close>: the previous content (Go's \<open>nil\<close> is \<^const>\<open>None\<close>) and the error.\<close>

definition WriteStage1 :: "dev \<Rightarrow> bytes \<Rightarrow> (bytes option \<times> stage_error option) \<times> dev" where
  "WriteStage1 d stage1 =
     (if length stage1 \<noteq> Stage1Bytes then ((None, Some (StageSize (length stage1))), d)
      else
        let (g, d1) = gate d in
        case g of
          Inl e \<Rightarrow> ((None, Some (StageGate e)), d1)
        | Inr _ \<Rightarrow>
            let (ok, d2) = io_call d1 in
            if \<not> ok then ((None, Some StageOpen), d2)
            else
              let (prev, d3) = io_readAt d2 0 Stage1Bytes in
              (case prev of
                 None \<Rightarrow> ((None, Some StageBackup), d3)
               | Some previous \<Rightarrow>
                   let (wok, d4) = io_writeAt d3 0 stage1 in
                   if \<not> wok then ((Some previous, Some StageWrite), d4)
                   else
                     let (sok, d5) = io_call d4 in
                     if \<not> sok then ((Some previous, Some StageSync), d5)
                     else ((Some previous, None), d5)))"

definition VerifyStage1 :: "dev \<Rightarrow> bytes \<Rightarrow> stage_error option \<times> dev" where
  "VerifyStage1 d want =
     (if length want \<noteq> Stage1Bytes then (Some (StageSize (length want)), d)
      else
        let (r, d1) = readRegion d 0 Stage1Bytes in
        (case r of
           Inl e \<Rightarrow> (Some e, d1)
         | Inr got \<Rightarrow> (if got \<noteq> want then Some StageDiffers else None, d1)))"

definition first_nonzero :: "bytes \<Rightarrow> nat option" where
  "first_nonzero b = find (\<lambda>i. b ! i \<noteq> CHR 0x00) [0..<length b]"

definition verifyStage2At :: "dev \<Rightarrow> nat \<Rightarrow> bytes \<Rightarrow> stage_error option \<times> dev" where
  "verifyStage2At d off want =
     (let (b, d1) = io_readAt d off Stage2Bytes in
      case b of
        None \<Rightarrow> (Some StageRead, d1)
      | Some region \<Rightarrow>
          (if take (length want) region \<noteq> want then Some StageDiffers
           else case first_nonzero (drop (length want) region) of
                  Some i \<Rightarrow> Some (StagePadding i)
                | None \<Rightarrow> None, d1))"

definition stage2_region :: "bytes \<Rightarrow> bytes" where
  "stage2_region stage2 = stage2 @ replicate (Stage2Bytes - length stage2) (CHR 0x00)"

definition WriteStage2 :: "dev \<Rightarrow> bytes \<Rightarrow> (bytes option \<times> stage_error option) \<times> dev" where
  "WriteStage2 d stage2 =
     (if length stage2 > Stage2Bytes then ((None, Some (StageSize (length stage2))), d)
      else
        let (g, d1) = gate d in
        case g of
          Inl e \<Rightarrow> ((None, Some (StageGate e)), d1)
        | Inr _ \<Rightarrow>
            let (ok, d2) = io_call d1 in
            if \<not> ok then ((None, Some StageOpen), d2)
            else
              let (prev, d3) = io_readAt d2 stage2Offset Stage2Bytes in
              (case prev of
                 None \<Rightarrow> ((None, Some StageBackup), d3)
               | Some previous \<Rightarrow>
                   let (wok, d4) = io_writeAt d3 stage2Offset (stage2_region stage2) in
                   if \<not> wok then ((Some previous, Some StageWrite), d4)
                   else
                     let (sok, d5) = io_call d4 in
                     if \<not> sok then ((Some previous, Some StageSync), d5)
                     else
                       let (v, d6) = verifyStage2At d5 stage2Offset stage2 in
                       ((Some previous, v), d6)))"

definition ReadStage1 :: "dev \<Rightarrow> (stage_error + bytes) \<times> dev" where
  "ReadStage1 d = readRegion d 0 Stage1Bytes"

definition trimZeros :: "bytes \<Rightarrow> bytes" where
  "trimZeros region = rev (dropWhile (\<lambda>b. b = CHR 0x00) (rev region))"

definition ReadStage2 :: "dev \<Rightarrow> (stage_error + bytes) \<times> dev" where
  "ReadStage2 d =
     (let (r, d1) = readRegion d stage2Offset Stage2Bytes in
      (case r of Inl e \<Rightarrow> Inl e | Inr region \<Rightarrow> Inr (trimZeros region), d1))"

definition VerifyStage2 :: "dev \<Rightarrow> bytes \<Rightarrow> stage_error option \<times> dev" where
  "VerifyStage2 d want =
     (if length want > Stage2Bytes then (Some (StageSize (length want)), d)
      else
        let (ok, d1) = io_call d in
        if \<not> ok then (Some StageOpen, d1) else verifyStage2At d1 stage2Offset want)"


section \<open>Which stage2 a stage1 jumps into\<close>

definition Stage2Magic :: u16 where "Stage2Magic = 0x325a"
definition Stage2SumMarker :: u16 where "Stage2SumMarker = 0x5331"

definition stage1MarkerCheck :: bytes where
  "stage1MarkerCheck = [CHR 0x81, CHR 0x3e, CHR 0x04, CHR 0x00, CHR 0x31, CHR 0x53]"

fun contains :: "bytes \<Rightarrow> bytes \<Rightarrow> bool" where
  "contains [] pat = (pat = [])"
| "contains (x # xs) pat = (take (length pat) (x # xs) = pat \<or> contains xs pat)"

definition Stage1ChecksSum :: "bytes \<Rightarrow> bool" where
  "Stage1ChecksSum stage1 = contains stage1 stage1MarkerCheck"

datatype stage2_error = Stage2Len nat | Stage2NoMagic | Stage2Words nat | Stage2Sum u16

definition word_sum :: "bytes \<Rightarrow> nat \<Rightarrow> u16" where
  "word_sum region words = foldl (\<lambda>sum i. sum + le16 (drop (2 * i) region)) 0 [0..<words]"

definition CheckStage2 :: "bytes \<Rightarrow> stage2_error option" where
  "CheckStage2 stage2 =
     (if length stage2 < 4 \<or> length stage2 > Stage2Bytes then Some (Stage2Len (length stage2))
      else if le16 (drop 2 stage2) \<noteq> Stage2Magic then Some Stage2NoMagic
      else if length stage2 < 10 \<or> le16 (drop 4 stage2) \<noteq> Stage2SumMarker then None
      else
        let region = stage2_region stage2;
            words = unat (le16 (drop 6 region))
        in if words = 0 \<or> words > Stage2Bytes div 2 then Some (Stage2Words words)
           else
             let sum = word_sum region words in
             if sum \<noteq> 0 then Some (Stage2Sum sum) else None)"

definition Stage1Accepts :: "bytes \<Rightarrow> bytes \<Rightarrow> bool" where
  "Stage1Accepts stage1 stage2 =
     (if length stage2 < 4 \<or> le16 (drop 2 stage2) \<noteq> Stage2Magic then False
      else if \<not> Stage1ChecksSum stage1 then True
      else CheckStage2 stage2 = None)"

definition checkStagePair :: "bytes \<Rightarrow> bool \<Rightarrow> stage2_error option" where
  "checkStagePair stage2 force =
     (case CheckStage2 stage2 of None \<Rightarrow> None | Some e \<Rightarrow> if force then None else Some e)"


section \<open>The pair writer with rollback\<close>

text \<open>The messages the rollback prints on standard error are part of the result.\<close>

datatype rollback_event = RestoredStage1 | CriticalStage1 | RestoredStage2 | CriticalStage2

datatype pair_error =
    WritingStage2 stage_error
  | VerifyingStage2 stage_error
  | WritingStage1 stage_error
  | VerifyingStage1 stage_error

definition rollbackStage1 :: "dev \<Rightarrow> bytes option \<Rightarrow> rollback_event list \<times> dev" where
  "rollbackStage1 d previous =
     (case previous of
        None \<Rightarrow> ([], d)
      | Some p \<Rightarrow>
          let ((_, err), d') = WriteStage1 d p in
          (case err of Some _ \<Rightarrow> ([CriticalStage1], d') | None \<Rightarrow> ([RestoredStage1], d')))"

definition rollbackStage2 :: "dev \<Rightarrow> bytes option \<Rightarrow> rollback_event list \<times> dev" where
  "rollbackStage2 d previous =
     (case previous of
        None \<Rightarrow> ([], d)
      | Some p \<Rightarrow>
          let ((_, err), d') = WriteStage2 d p in
          (case err of Some _ \<Rightarrow> ([CriticalStage2], d') | None \<Rightarrow> ([RestoredStage2], d')))"

definition rollbackBoth :: "dev \<Rightarrow> bytes option \<Rightarrow> bytes option \<Rightarrow> rollback_event list \<times> dev" where
  "rollbackBoth d stage1Prev stage2Prev =
     (let (ev1, d1) = rollbackStage1 d stage1Prev;
          (ev2, d2) = rollbackStage2 d1 stage2Prev
      in (ev1 @ ev2, d2))"

definition writeBIOSStagesWithRollback ::
    "dev \<Rightarrow> bytes \<Rightarrow> bytes \<Rightarrow> (pair_error option \<times> rollback_event list) \<times> dev" where
  "writeBIOSStagesWithRollback d stage1 stage2 =
     (let ((stage2Prev, err), d1) = WriteStage2 d stage2 in
      case err of
        Some e \<Rightarrow> (let (ev, d2) = rollbackStage2 d1 stage2Prev in ((Some (WritingStage2 e), ev), d2))
      | None \<Rightarrow>
          let (v2, d2) = VerifyStage2 d1 stage2 in
          (case v2 of
             Some e \<Rightarrow> (let (ev, d3) = rollbackStage2 d2 stage2Prev in ((Some (VerifyingStage2 e), ev), d3))
           | None \<Rightarrow>
               let ((stage1Prev, err1), d3) = WriteStage1 d2 stage1 in
               (case err1 of
                  Some e \<Rightarrow>
                    (let (ev, d4) = rollbackBoth d3 stage1Prev stage2Prev in ((Some (WritingStage1 e), ev), d4))
                | None \<Rightarrow>
                    let (v1, d4) = VerifyStage1 d3 stage1 in
                    (case v1 of
                       Some e \<Rightarrow>
                         (let (ev, d5) = rollbackBoth d4 stage1Prev stage2Prev
                          in ((Some (VerifyingStage1 e), ev), d5))
                     | None \<Rightarrow> ((None, []), d4)))))"


section \<open>Frames of the device operations\<close>

definition region :: "nat \<Rightarrow> nat \<Rightarrow> bytes \<Rightarrow> bytes" where
  "region off n c = sl c off (off + n)"

definition same_outside :: "nat \<Rightarrow> nat \<Rightarrow> bytes \<Rightarrow> bytes \<Rightarrow> bool" where
  "same_outside off n c c' \<longleftrightarrow>
     length c' = length c \<and> take off c' = take off c \<and> drop (off + n) c' = drop (off + n) c"

lemma same_outside_refl [simp, intro]: "same_outside off n c c"
  by (simp add: same_outside_def)

lemma same_outside_trans: "same_outside off n a b \<Longrightarrow> same_outside off n b c \<Longrightarrow> same_outside off n a c"
  by (simp add: same_outside_def)

lemma region_outside_eq:
  assumes "same_outside off n a b" "region off n a = region off n b"
  shows "a = b"
proof -
  have split: "c = take off c @ region off n c @ drop (off + n) c" for c :: bytes
    by (simp add: region_def sl_def drop_drop [symmetric] add.commute del: drop_drop)
  show ?thesis
    using assms split [of a] split [of b] unfolding same_outside_def by metis
qed

lemma overwrite_frame:
  assumes "off + length b \<le> length c" "length b \<le> n"
  shows "same_outside off n c (overwrite c off b)"
  using assms by (auto simp: same_outside_def overwrite_def add.commute)

lemma overwrite_region:
  "off + length b \<le> length c \<Longrightarrow> region off (length b) (overwrite c off b) = b"
  by (simp add: region_def sl_def overwrite_def)

text \<open>A device is atomic when a failing write puts down nothing or everything.\<close>

definition atomic_io :: "io \<Rightarrow> bool" where
  "atomic_io x = (case x of Good \<Rightarrow> True | Fail n \<Rightarrow> n = 0 \<or> Stage2Bytes \<le> n)"

definition atomic_dev :: "dev \<Rightarrow> bool" where
  "atomic_dev d \<longleftrightarrow> (\<forall>x \<in> set (outcomes d). atomic_io x)"

abbreviation fewer :: "dev \<Rightarrow> dev \<Rightarrow> bool" where
  "fewer d d' \<equiv> set (outcomes d') \<subseteq> set (outcomes d)"

lemma atomic_fewer: "atomic_dev d \<Longrightarrow> fewer d d' \<Longrightarrow> atomic_dev d'"
  by (auto simp: atomic_dev_def)

lemma next_ioD:
  "next_io d = (x, d') \<Longrightarrow> content d' = content d \<and> history d' = history d \<and> fewer d d' \<and>
     (atomic_dev d \<longrightarrow> atomic_io x)"
  by (auto simp: next_io_def atomic_dev_def atomic_io_def split: list.splits)

lemma io_callD: "io_call d = (ok, d') \<Longrightarrow> content d' = content d \<and> history d' = history d \<and> fewer d d'"
  by (auto simp: io_call_def Let_def dest: next_ioD split: prod.splits)

lemma io_readAtD:
  "io_readAt d off n = (b, d') \<Longrightarrow>
     content d' = content d \<and> history d' = history d \<and> fewer d d' \<and>
     (\<forall>buf. b = Some buf \<longrightarrow> off + n \<le> length (content d) \<and> buf = region off n (content d))"
proof -
  assume a: "io_readAt d off n = (b, d')"
  obtain x d1 where x: "next_io d = (x, d1)" by fastforce
  show ?thesis
    using a next_ioD [OF x] unfolding io_readAt_def x Let_def prod.case region_def
    by (cases "x = Good") (auto simp: file_reader_eq_Some)
qed

lemma io_writeAtD:
  assumes w: "io_writeAt d off b = (ok, d')" and fits: "off + length b \<le> length (content d)"
  shows "same_outside off (length b) (content d) (content d') \<and>
     (ok \<longrightarrow> region off (length b) (content d') = b) \<and> history d' = history d @ [content d'] \<and> fewer d d' \<and>
     (atomic_dev d \<and> length b \<le> Stage2Bytes \<longrightarrow>
        region off (length b) (content d') \<in> {region off (length b) (content d), b})"
proof -
  obtain x d1 where n: "next_io d = (x, d1)" by fastforce
  note same = next_ioD [OF n]
  have fit: "take (length (content d1) - off) b = b" using same fits by simp
  show ?thesis
    using w n fit same fits
    by (cases x) (auto simp: io_writeAt_def io_put_def Let_def overwrite_frame overwrite_region atomic_io_def
        overwrite_nil)
qed

lemma gateD: "gate d = (g, d') \<Longrightarrow> content d' = content d \<and> history d' = history d \<and> fewer d d'"
  by (auto simp: gate_def Let_def dest: io_callD split: prod.splits)

lemma readRegionD:
  "readRegion d off n = (r, d') \<Longrightarrow>
     content d' = content d \<and> history d' = history d \<and> fewer d d' \<and>
     (\<forall>buf. r = Inr buf \<longrightarrow> off + n \<le> length (content d) \<and> buf = region off n (content d))"
proof -
  assume a: "readRegion d off n = (r, d')"
  obtain ok d1 where c: "io_call d = (ok, d1)" by fastforce
  obtain b d2 where r: "io_readAt d1 off n = (b, d2)" by fastforce
  show ?thesis
    using a io_callD [OF c] io_readAtD [OF r]
    by (cases ok; cases b) (auto simp: readRegion_def c r)
qed

lemma first_nonzero_None: "first_nonzero b = None \<longleftrightarrow> b = replicate (length b) (CHR 0x00)"
proof -
  have "first_nonzero b = None \<longleftrightarrow> (\<forall>x \<in> set b. x = CHR 0x00)"
    unfolding first_nonzero_def find_None_iff all_set_conv_all_nth by simp
  also have "\<dots> \<longleftrightarrow> b = replicate (length b) (CHR 0x00)"
    using replicate_eqI [of b "length b" "CHR 0x00"] in_set_replicate by metis
  finally show ?thesis .
qed

lemma first_nonzero_replicate [simp]: "first_nonzero (replicate n (CHR 0x00)) = None"
  by (simp add: first_nonzero_None)

lemma verifyStage2AtD:
  assumes "verifyStage2At d off want = (v, d')" "length want \<le> Stage2Bytes"
  shows "content d' = content d \<and> history d' = history d \<and> fewer d d' \<and>
     (v = None \<longrightarrow> region off Stage2Bytes (content d) = stage2_region want)"
proof -
  obtain b d1 where r: "io_readAt d off Stage2Bytes = (b, d1)" by fastforce
  note rd = io_readAtD [OF r]
  show ?thesis
  proof (cases b)
    case None
    with assms r rd show ?thesis by (auto simp: verifyStage2At_def)
  next
    case (Some reg)
    with rd have reg: "reg = region off Stage2Bytes (content d)" "length reg = Stage2Bytes"
      by (auto simp: region_def)
    from assms(1) r Some
    have v: "d' = d1" "v = None \<longleftrightarrow> take (length want) reg = want \<and> first_nonzero (drop (length want) reg) = None"
      by (auto simp: verifyStage2At_def split: if_splits option.splits)
    have "reg = stage2_region want" if "v = None"
      using that [unfolded v] reg(2) append_take_drop_id [of "length want" reg]
      by (simp add: first_nonzero_None stage2_region_def)
    then show ?thesis
      unfolding reg(1) [symmetric] v(1) using rd by blast
  qed
qed


section \<open>The contract of a stage writer\<close>

text \<open>
  \<open>put d b\<close> reports the previous content of its region and an error.  Outside the region
  nothing changes, no reported previous content means nothing was written, and success means
  the region holds the image of \<open>b\<close>.
\<close>

locale region_writer =
  fixes off len :: nat
    and image :: "bytes \<Rightarrow> bytes"
    and put :: "dev \<Rightarrow> bytes \<Rightarrow> (bytes option \<times> stage_error option) \<times> dev"
  assumes frame: "put d b = ((q, e), d') \<Longrightarrow> same_outside off len (content d) (content d')"
    and untouched: "put d b = ((None, e), d') \<Longrightarrow>
      content d' = content d \<and> history d' = history d \<and> e \<noteq> None"
    and logged: "put d b = ((Some p, e), d') \<Longrightarrow> history d' = history d @ [content d']"
    and previous: "put d b = ((Some p, e), d') \<Longrightarrow> p = region off len (content d) \<and> length p = len"
    and written: "put d b = ((q, None), d') \<Longrightarrow> region off len (content d') = image b"
    and shrinks: "put d b = ((q, e), d') \<Longrightarrow> fewer d d'"
    and all_or_nothing: "put d b = ((q, e), d') \<Longrightarrow> atomic_dev d \<Longrightarrow>
      region off len (content d') \<in> {region off len (content d), image b}"
    and image_full: "length b = len \<Longrightarrow> image b = b"
begin

lemma restore:
  assumes "put d b = ((Some p, e), d1)" "same_outside off len (content d1) (content d2)"
    "put d2 p = ((q, None), d3)"
  shows "content d3 = content d"
proof (rule region_outside_eq)
  show "same_outside off len (content d3) (content d)"
    using frame [OF assms(1)] assms(2) frame [OF assms(3)] by (auto simp: same_outside_def)
  show "region off len (content d3) = region off len (content d)"
    using previous [OF assms(1)] written [OF assms(3)] image_full by metis
qed

lemma success_logs:
  assumes "put d b = ((p, None), d')"
  shows "history d' = history d @ [content d']"
  using assms untouched [of d b None d'] logged [of d b _ None d'] by (cases p) auto

end

lemma WriteStage1_cases:
  assumes "WriteStage1 d b = ((p, e), d')"
  obtains
    (none) "p = None" "e \<noteq> None" "content d' = content d" "history d' = history d" "fewer d d'"
  | (some) prev where "p = Some prev" "length b = Stage1Bytes" "prev = region 0 Stage1Bytes (content d)"
      "Stage1Bytes \<le> length (content d)" "same_outside 0 Stage1Bytes (content d) (content d')"
      "e = None \<Longrightarrow> region 0 Stage1Bytes (content d') = b" "history d' = history d @ [content d']" "fewer d d'"
      "atomic_dev d \<Longrightarrow> region 0 Stage1Bytes (content d') \<in> {prev, b}"
proof (cases "length b = Stage1Bytes")
  case False
  with assms none show ?thesis by (auto simp: WriteStage1_def)
next
  case True
  obtain g d1 where g: "gate d = (g, d1)" by fastforce
  obtain ok d2 where o: "io_call d1 = (ok, d2)" by fastforce
  obtain pr d3 where r: "io_readAt d2 0 Stage1Bytes = (pr, d3)" by fastforce
  obtain wok d4 where w: "io_writeAt d3 0 b = (wok, d4)" by fastforce
  obtain sok d5 where y: "io_call d4 = (sok, d5)" by fastforce
  note st = gateD [OF g] io_callD [OF o] io_readAtD [OF r] io_callD [OF y]
  note eq = assms [unfolded WriteStage1_def Let_def g o r w y prod.case, simplified True, simplified]
  show ?thesis
  proof (cases "isl g \<or> \<not> ok \<or> pr = None")
    case c: True
    show ?thesis
      by (rule none) (use eq st c in \<open>auto split: sum.splits if_splits option.splits\<close>)
  next
    case False
    then obtain prev where pr: "pr = Some prev" and ok: "ok" and g': "\<not> isl g" by auto
    have fits: "0 + length b \<le> length (content d3)" using st pr True by auto
    have at: "atomic_dev d \<Longrightarrow> atomic_dev d3"
      using st unfolding atomic_dev_def by blast
    have le: "Stage1Bytes \<le> Stage2Bytes" by (simp add: layout_defs)
    note wr = io_writeAtD [OF w fits] at le
    show ?thesis
      by (rule some [of prev])
        (use eq st pr ok g' wr True in \<open>auto split: sum.splits if_splits\<close>)
  qed
qed

lemma length_stage2_region: "length b \<le> Stage2Bytes \<Longrightarrow> length (stage2_region b) = Stage2Bytes"
  by (simp add: stage2_region_def)

lemma WriteStage2_cases:
  assumes "WriteStage2 d b = ((p, e), d')"
  obtains
    (none) "p = None" "e \<noteq> None" "content d' = content d" "history d' = history d" "fewer d d'"
  | (some) prev where "p = Some prev" "length b \<le> Stage2Bytes"
      "prev = region stage2Offset Stage2Bytes (content d)"
      "stage2Offset + Stage2Bytes \<le> length (content d)"
      "same_outside stage2Offset Stage2Bytes (content d) (content d')"
      "e = None \<Longrightarrow> region stage2Offset Stage2Bytes (content d') = stage2_region b"
      "history d' = history d @ [content d']" "fewer d d'"
      "atomic_dev d \<Longrightarrow> region stage2Offset Stage2Bytes (content d') \<in> {prev, stage2_region b}"
proof (cases "length b \<le> Stage2Bytes")
  case False
  with assms none show ?thesis by (auto simp: WriteStage2_def)
next
  case True
  obtain g d1 where g: "gate d = (g, d1)" by fastforce
  obtain ok d2 where o: "io_call d1 = (ok, d2)" by fastforce
  obtain pr d3 where r: "io_readAt d2 stage2Offset Stage2Bytes = (pr, d3)" by fastforce
  obtain wok d4 where w: "io_writeAt d3 stage2Offset (stage2_region b) = (wok, d4)" by fastforce
  obtain sok d5 where y: "io_call d4 = (sok, d5)" by fastforce
  obtain v d6 where v: "verifyStage2At d5 stage2Offset b = (v, d6)" by fastforce
  note st = gateD [OF g] io_callD [OF o] io_readAtD [OF r] io_callD [OF y] verifyStage2AtD [OF v True]
  from True have "\<not> Stage2Bytes < length b" by simp
  note eq = assms [unfolded WriteStage2_def Let_def g o r w y v prod.case if_not_P [OF this], simplified]
  show ?thesis
  proof (cases "isl g \<or> \<not> ok \<or> pr = None")
    case c: True
    show ?thesis
      by (rule none) (use eq st c in \<open>auto split: sum.splits if_splits option.splits\<close>)
  next
    case False
    then obtain prev where pr: "pr = Some prev" and ok: "ok" and g': "\<not> isl g" by auto
    have fits: "stage2Offset + length (stage2_region b) \<le> length (content d3)"
      using st pr True by (auto simp: length_stage2_region)
    have at: "atomic_dev d \<Longrightarrow> atomic_dev d3"
      using st unfolding atomic_dev_def by blast
    note wr = io_writeAtD [OF w fits, unfolded length_stage2_region [OF True]] at
    show ?thesis
      by (rule some [of prev])
        (use eq st pr ok g' wr True in \<open>auto split: sum.splits if_splits\<close>)
  qed
qed

interpretation stage1: region_writer 0 Stage1Bytes "\<lambda>b. b" WriteStage1
proof
  fix d b p e d'
  show "same_outside 0 Stage1Bytes (content d) (content d')" if "WriteStage1 d b = ((q, e), d')" for q
    using that by (cases rule: WriteStage1_cases) simp_all
  show "content d' = content d \<and> history d' = history d \<and> e \<noteq> None" if "WriteStage1 d b = ((None, e), d')"
    using that by (cases rule: WriteStage1_cases) simp_all
  show "history d' = history d @ [content d']" if "WriteStage1 d b = ((Some p, e), d')"
    using that by (cases rule: WriteStage1_cases) simp_all
  show "p = region 0 Stage1Bytes (content d) \<and> length p = Stage1Bytes" if "WriteStage1 d b = ((Some p, e), d')"
    using that by (cases rule: WriteStage1_cases) (simp_all add: region_def)
  show "region 0 Stage1Bytes (content d') = b" if "WriteStage1 d b = ((q, None), d')" for q
    using that by (cases rule: WriteStage1_cases) simp_all
  show "fewer d d'" if "WriteStage1 d b = ((q, e), d')" for q
    using that by (cases rule: WriteStage1_cases) simp_all
  show "region 0 Stage1Bytes (content d') \<in> {region 0 Stage1Bytes (content d), b}"
    if "WriteStage1 d b = ((q, e), d')" "atomic_dev d" for q
    using that by (cases rule: WriteStage1_cases) simp_all
qed simp

interpretation stage2: region_writer stage2Offset Stage2Bytes stage2_region WriteStage2
proof
  fix d b p e d'
  show "same_outside stage2Offset Stage2Bytes (content d) (content d')" if "WriteStage2 d b = ((q, e), d')" for q
    using that by (cases rule: WriteStage2_cases) simp_all
  show "content d' = content d \<and> history d' = history d \<and> e \<noteq> None" if "WriteStage2 d b = ((None, e), d')"
    using that by (cases rule: WriteStage2_cases) simp_all
  show "history d' = history d @ [content d']" if "WriteStage2 d b = ((Some p, e), d')"
    using that by (cases rule: WriteStage2_cases) simp_all
  show "p = region stage2Offset Stage2Bytes (content d) \<and> length p = Stage2Bytes"
    if "WriteStage2 d b = ((Some p, e), d')"
    using that by (cases rule: WriteStage2_cases) (simp_all add: region_def)
  show "region stage2Offset Stage2Bytes (content d') = stage2_region b" if "WriteStage2 d b = ((q, None), d')" for q
    using that by (cases rule: WriteStage2_cases) simp_all
  show "fewer d d'" if "WriteStage2 d b = ((q, e), d')" for q
    using that by (cases rule: WriteStage2_cases) simp_all
  show "region stage2Offset Stage2Bytes (content d') \<in> {region stage2Offset Stage2Bytes (content d), stage2_region b}"
    if "WriteStage2 d b = ((q, e), d')" "atomic_dev d" for q
    using that by (cases rule: WriteStage2_cases) simp_all
qed (simp add: stage2_region_def)



section \<open>The pair writer\<close>

lemma VerifyStage1D:
  assumes "VerifyStage1 d want = (v, d')"
  shows "content d' = content d \<and> history d' = history d \<and> fewer d d' \<and>
     (v = None \<longrightarrow> region 0 Stage1Bytes (content d) = want)"
proof -
  obtain r d1 where r: "readRegion d 0 Stage1Bytes = (r, d1)" by fastforce
  show ?thesis
    using assms readRegionD [OF r]
    by (cases r) (auto simp: VerifyStage1_def r split: if_splits)
qed

lemma VerifyStage2D:
  assumes "VerifyStage2 d want = (v, d')"
  shows "content d' = content d \<and> history d' = history d \<and> fewer d d' \<and>
     (v = None \<longrightarrow> region stage2Offset Stage2Bytes (content d) = stage2_region want)"
proof (cases "length want \<le> Stage2Bytes")
  case True
  obtain ok d1 where o: "io_call d = (ok, d1)" by fastforce
  obtain v2 d2 where v: "verifyStage2At d1 stage2Offset want = (v2, d2)" by fastforce
  show ?thesis
    using assms True io_callD [OF o] verifyStage2AtD [OF v True]
    by (cases ok) (auto simp: VerifyStage2_def o v)
qed (use assms in \<open>auto simp: VerifyStage2_def\<close>)

definition critical :: "rollback_event list \<Rightarrow> bool" where
  "critical ev \<longleftrightarrow> CriticalStage1 \<in> set ev \<or> CriticalStage2 \<in> set ev"

lemma rollbackStage1_restores:
  assumes "WriteStage1 d b = ((p, e), d1)" "content d2 = content d1"
    "rollbackStage1 d2 p = (ev, d3)" "\<not> critical ev"
  shows "content d3 = content d"
proof (cases p)
  case None
  with assms stage1.untouched [of d b e d1] show ?thesis by (simp add: rollbackStage1_def)
next
  case (Some prev)
  obtain q err d' where w: "WriteStage1 d2 prev = ((q, err), d')" by (metis surj_pair)
  with assms Some have "err = None" "d3 = d'"
    by (auto simp: rollbackStage1_def critical_def split: option.splits)
  with w stage1.restore [of d b prev e d1 d2 q d'] assms Some show ?thesis by simp
qed

lemma rollbackStage2_restores:
  assumes "WriteStage2 d b = ((p, e), d1)" "content d2 = content d1"
    "rollbackStage2 d2 p = (ev, d3)" "\<not> critical ev"
  shows "content d3 = content d"
proof (cases p)
  case None
  with assms stage2.untouched [of d b e d1] show ?thesis by (simp add: rollbackStage2_def)
next
  case (Some prev)
  obtain q err d' where w: "WriteStage2 d2 prev = ((q, err), d')" by (metis surj_pair)
  with assms Some have "err = None" "d3 = d'"
    by (auto simp: rollbackStage2_def critical_def split: option.splits)
  with w stage2.restore [of d b prev e d1 d2 q d'] assms Some show ?thesis by simp
qed

lemma rollbackBoth_restores:
  assumes "WriteStage2 d b2 = ((p2, e2), d1)" "content d2 = content d1"
    "WriteStage1 d2 b1 = ((p1, e1), d3)" "content d4 = content d3"
    "rollbackBoth d4 p1 p2 = (ev, d5)" "\<not> critical ev"
  shows "content d5 = content d"
proof -
  obtain ev1 da where r1: "rollbackStage1 d4 p1 = (ev1, da)" by fastforce
  obtain ev2 db where r2: "rollbackStage2 da p2 = (ev2, db)" by fastforce
  have ev: "ev = ev1 @ ev2" "d5 = db" using assms(5) by (auto simp: rollbackBoth_def r1 r2)
  with assms(6) have "\<not> critical ev1" "\<not> critical ev2" by (auto simp: critical_def)
  with rollbackStage1_restores [OF assms(3,4) r1] have "content da = content d1" using assms(2) by simp
  from rollbackStage2_restores [OF assms(1) this r2 \<open>\<not> critical ev2\<close>] show ?thesis using ev by simp
qed

lemma writeBIOSStages_cases:
  assumes "writeBIOSStagesWithRollback d b1 b2 = ((err, ev), d')"
  obtains
    (w2) p2 e2 d1 where "WriteStage2 d b2 = ((p2, Some e2), d1)" "rollbackStage2 d1 p2 = (ev, d')" "err \<noteq> None"
  | (v2) p2 d1 e d2 where "WriteStage2 d b2 = ((p2, None), d1)" "VerifyStage2 d1 b2 = (Some e, d2)"
      "rollbackStage2 d2 p2 = (ev, d')" "err \<noteq> None"
  | (w1) p2 d1 d2 p1 e1 d3 where "WriteStage2 d b2 = ((p2, None), d1)" "VerifyStage2 d1 b2 = (None, d2)"
      "WriteStage1 d2 b1 = ((p1, Some e1), d3)" "rollbackBoth d3 p1 p2 = (ev, d')" "err \<noteq> None"
  | (v1) p2 d1 d2 p1 d3 e d4 where "WriteStage2 d b2 = ((p2, None), d1)" "VerifyStage2 d1 b2 = (None, d2)"
      "WriteStage1 d2 b1 = ((p1, None), d3)" "VerifyStage1 d3 b1 = (Some e, d4)"
      "rollbackBoth d4 p1 p2 = (ev, d')" "err \<noteq> None"
  | (ok) p2 d1 d2 p1 d3 where "WriteStage2 d b2 = ((p2, None), d1)" "VerifyStage2 d1 b2 = (None, d2)"
      "WriteStage1 d2 b1 = ((p1, None), d3)" "VerifyStage1 d3 b1 = (None, d')" "err = None" "ev = []"
  using assms unfolding writeBIOSStagesWithRollback_def Let_def
  by (auto split: prod.splits option.splits)

lemma pair_failure_restores:
  assumes "writeBIOSStagesWithRollback d b1 b2 = ((Some err, ev), d')" "\<not> critical ev"
  shows "content d' = content d"
  using assms(1)
proof (cases rule: writeBIOSStages_cases)
  case (w2 p2 e2 d1)
  from rollbackStage2_restores [OF w2(1) refl w2(2) assms(2)] show ?thesis .
next
  case (v2 p2 d1 e d2)
  from rollbackStage2_restores [OF v2(1) _ v2(3) assms(2)] VerifyStage2D [OF v2(2)] show ?thesis by simp
next
  case (w1 p2 d1 d2 p1 e1 d3)
  from rollbackBoth_restores [OF w1(1) _ w1(3) refl w1(4) assms(2)] VerifyStage2D [OF w1(2)]
  show ?thesis by simp
next
  case (v1 p2 d1 d2 p1 d3 e d4)
  from rollbackBoth_restores [OF v1(1) _ v1(3) _ v1(5) assms(2)] VerifyStage2D [OF v1(2)] VerifyStage1D [OF v1(4)]
  show ?thesis by simp
qed simp

lemma region_frame_stage1:
  assumes "same_outside 0 Stage1Bytes c c'"
  shows "region stage2Offset Stage2Bytes c' = region stage2Offset Stage2Bytes c"
proof -
  have "drop stage2Offset x = drop (stage2Offset - Stage1Bytes) (drop Stage1Bytes x)" for x :: bytes
    by (simp add: stage2Offset_def layout_defs)
  from this [of c] this [of c'] assms show ?thesis
    unfolding same_outside_def region_def sl_def by (simp del: drop_drop)
qed

lemma region_frame_stage2:
  assumes "same_outside stage2Offset Stage2Bytes c c'"
  shows "region 0 Stage1Bytes c' = region 0 Stage1Bytes c"
proof -
  have "take Stage1Bytes x = take Stage1Bytes (take stage2Offset x)" for x :: bytes
    by (simp add: stage2Offset_def layout_defs)
  from this [of c] this [of c'] assms show ?thesis
    unfolding same_outside_def region_def sl_def by (simp del: take_take)
qed

lemma pair_success:
  assumes "writeBIOSStagesWithRollback d b1 b2 = ((None, ev), d')"
  shows "region 0 Stage1Bytes (content d') = b1 \<and>
    region stage2Offset Stage2Bytes (content d') = stage2_region b2"
  using assms
proof (cases rule: writeBIOSStages_cases)
  case (ok p2 d1 d2 p1 d3)
  note v2 = VerifyStage2D [OF ok(2)] and v1 = VerifyStage1D [OF ok(4)]
  note f1 = region_frame_stage1 [OF stage1.frame [OF ok(3)]]
  show ?thesis using v1 v2 f1 by simp
qed simp_all


section \<open>Crash points\<close>

text \<open>\<open>dev_ok A B\<close>: the disk, now and after every write so far, holds a stage1 of \<open>A\<close> and a
  stage2 region of \<open>B\<close>.\<close>

definition pair_ok :: "bytes set \<Rightarrow> bytes set \<Rightarrow> bytes \<Rightarrow> bool" where
  "pair_ok A B c \<longleftrightarrow>
     region 0 Stage1Bytes c \<in> A \<and> region stage2Offset Stage2Bytes c \<in> B"

definition dev_ok :: "bytes set \<Rightarrow> bytes set \<Rightarrow> dev \<Rightarrow> bool" where
  "dev_ok A B d \<longleftrightarrow> atomic_dev d \<and> pair_ok A B (content d) \<and> (\<forall>c \<in> set (history d). pair_ok A B c)"

lemma dev_ok_quiet:
  "dev_ok A B d \<Longrightarrow> content d' = content d \<Longrightarrow> history d' = history d \<Longrightarrow> fewer d d' \<Longrightarrow> dev_ok A B d'"
  by (auto simp: dev_ok_def intro: atomic_fewer)

lemma WriteStage1_dev_ok:
  assumes "WriteStage1 d b = ((p, e), d')" "dev_ok A B d" "b \<in> A"
  shows "dev_ok A B d' \<and> (\<forall>q. p = Some q \<longrightarrow> q \<in> A)"
  using assms(1)
proof (cases rule: WriteStage1_cases)
  case none
  with assms(2) show ?thesis by (auto intro: dev_ok_quiet)
next
  case (some prev)
  have at: "atomic_dev d" using assms(2) by (simp add: dev_ok_def)
  have "pair_ok A B (content d')"
    using some at assms(2,3) region_frame_stage1 [OF some(5)] by (auto simp: dev_ok_def pair_ok_def)
  with some at assms(2) show ?thesis
    by (auto simp: dev_ok_def pair_ok_def intro: atomic_fewer)
qed

lemma WriteStage2_dev_ok:
  assumes "WriteStage2 d b = ((p, e), d')" "dev_ok A B d" "stage2_region b \<in> B"
  shows "dev_ok A B d' \<and> (\<forall>q. p = Some q \<longrightarrow> stage2_region q \<in> B)"
  using assms(1)
proof (cases rule: WriteStage2_cases)
  case none
  with assms(2) show ?thesis by (auto intro: dev_ok_quiet)
next
  case (some prev)
  have at: "atomic_dev d" using assms(2) by (simp add: dev_ok_def)
  have "pair_ok A B (content d')"
    using some at assms(2,3) region_frame_stage2 [OF some(5)] by (auto simp: dev_ok_def pair_ok_def)
  moreover have "stage2_region prev = prev"
    using stage2.previous [of d b prev e d'] assms(1) unfolding some(1) by (intro stage2.image_full) blast
  ultimately show ?thesis
    using some at assms(2) by (auto simp: dev_ok_def pair_ok_def intro: atomic_fewer)
qed

lemma rollbackStage1_dev_ok:
  assumes "rollbackStage1 d p = (ev, d')" "dev_ok A B d" "\<And>q. p = Some q \<Longrightarrow> q \<in> A"
  shows "dev_ok A B d'"
  using assms WriteStage1_dev_ok [of d _ _ _ _ A B]
  by (cases p) (auto simp: rollbackStage1_def split: prod.splits option.splits)

lemma rollbackStage2_dev_ok:
  assumes "rollbackStage2 d p = (ev, d')" "dev_ok A B d" "\<And>q. p = Some q \<Longrightarrow> stage2_region q \<in> B"
  shows "dev_ok A B d'"
  using assms WriteStage2_dev_ok [of d _ _ _ _ A B]
  by (cases p) (auto simp: rollbackStage2_def split: prod.splits option.splits)

lemma rollbackBoth_dev_ok:
  assumes "rollbackBoth d p1 p2 = (ev, d')" "dev_ok A B d"
    "\<And>q. p1 = Some q \<Longrightarrow> q \<in> A" "\<And>q. p2 = Some q \<Longrightarrow> stage2_region q \<in> B"
  shows "dev_ok A B d'"
proof -
  obtain ev1 da where r1: "rollbackStage1 d p1 = (ev1, da)" by fastforce
  obtain ev2 db where r2: "rollbackStage2 da p2 = (ev2, db)" by fastforce
  have "d' = db" using assms(1) by (auto simp: rollbackBoth_def r1 r2)
  with rollbackStage2_dev_ok [OF r2 rollbackStage1_dev_ok [OF r1 assms(2,3)] assms(4)] show ?thesis by simp
qed

lemma VerifyStage1_dev_ok: "VerifyStage1 d want = (v, d') \<Longrightarrow> dev_ok A B d \<Longrightarrow> dev_ok A B d'"
  using VerifyStage1D [of d want v d'] by (auto intro: dev_ok_quiet)

lemma VerifyStage2_dev_ok: "VerifyStage2 d want = (v, d') \<Longrightarrow> dev_ok A B d \<Longrightarrow> dev_ok A B d'"
  using VerifyStage2D [of d want v d'] by (auto intro: dev_ok_quiet)

lemma pair_writer_dev_ok:
  assumes "writeBIOSStagesWithRollback d b1 b2 = ((err, ev), d')"
    "dev_ok A B d" "b1 \<in> A" "stage2_region b2 \<in> B"
  shows "dev_ok A B d'"
  using assms(1)
proof (cases rule: writeBIOSStages_cases)
  case (w2 p2 e2 d1)
  show ?thesis
    using WriteStage2_dev_ok [OF w2(1) assms(2,4)] by (intro rollbackStage2_dev_ok [OF w2(2)]) blast+
next
  case (v2 p2 d1 e d2)
  show ?thesis
    using WriteStage2_dev_ok [OF v2(1) assms(2,4)] VerifyStage2_dev_ok [OF v2(2)]
    by (intro rollbackStage2_dev_ok [OF v2(3)]) blast+
next
  case (w1 p2 d1 d2 p1 e1 d3)
  note a = WriteStage2_dev_ok [OF w1(1) assms(2,4)]
  then have "dev_ok A B d2" using VerifyStage2_dev_ok [OF w1(2)] by blast
  note b = WriteStage1_dev_ok [OF w1(3) this assms(3)]
  show ?thesis using a b by (intro rollbackBoth_dev_ok [OF w1(4)]) blast+
next
  case (v1 p2 d1 d2 p1 d3 e d4)
  note a = WriteStage2_dev_ok [OF v1(1) assms(2,4)]
  then have "dev_ok A B d2" using VerifyStage2_dev_ok [OF v1(2)] by blast
  note b = WriteStage1_dev_ok [OF v1(3) this assms(3)]
  show ?thesis using a b VerifyStage1_dev_ok [OF v1(4)] by (intro rollbackBoth_dev_ok [OF v1(5)]) blast+
next
  case (ok p2 d1 d2 p1 d3)
  have "dev_ok A B d2"
    using WriteStage2_dev_ok [OF ok(1) assms(2,4)] VerifyStage2_dev_ok [OF ok(2)] by blast
  then show ?thesis
    using WriteStage1_dev_ok [OF ok(3) _ assms(3)] VerifyStage1_dev_ok [OF ok(4)] by blast
qed


section \<open>Checked images\<close>

lemma stage2_region_idem [simp]: "length b \<le> Stage2Bytes \<Longrightarrow> stage2_region (stage2_region b) = stage2_region b"
  by (simp add: stage2_region_def)

lemma CheckStage2_region:
  assumes "CheckStage2 b = None" "10 \<le> length b"
  shows "CheckStage2 (stage2_region b) = None"
proof -
  from assms have len: "length b \<le> Stage2Bytes" by (simp add: CheckStage2_def split: if_splits)
  have eq: "le16 (drop 2 (stage2_region b)) = le16 (drop 2 b)" "le16 (drop 4 (stage2_region b)) = le16 (drop 4 b)"
    using assms(2) by (simp_all add: stage2_region_def le16_def)
  have "length (stage2_region b) = Stage2Bytes" by (rule length_stage2_region [OF len])
  moreover have "10 \<le> Stage2Bytes" by (simp add: layout_defs)
  ultimately show ?thesis
    using assms len unfolding CheckStage2_def eq stage2_region_idem [OF len]
    by (simp split: if_splits)
qed

lemma checked_accepted: "CheckStage2 b = None \<Longrightarrow> Stage1Accepts stage1 b"
  by (auto simp: CheckStage2_def Stage1Accepts_def split: if_splits)

text \<open>
  An image of 6 to 9 bytes that carries the checksum marker passes \<open>CheckStage2\<close> as an image,
  while the padded region a marker-aware stage1 reads does not.
\<close>

lemma short_marked_image:
  fixes b :: bytes
  defines "b \<equiv> [CHR 0x00, CHR 0x00, CHR 0x5a, CHR 0x32, CHR 0x31, CHR 0x53]"
  shows "CheckStage2 b = None" and "CheckStage2 (stage2_region b) = Some (Stage2Words 0)"
proof -
  have m: "le16 [CHR 0x5a, CHR 0x32, CHR 0x31, CHR 0x53] = Stage2Magic"
    by (simp add: le16_def Stage2Magic_def)
  then show c: "CheckStage2 b = None"
    by (simp add: CheckStage2_def b_def layout_defs)
  have len: "length b \<le> Stage2Bytes" by (simp add: b_def layout_defs)
  obtain n where "Stage2Bytes - length b = Suc (Suc n)"
    by (rule that [of "Stage2Bytes - 8"]) (simp add: b_def layout_defs)
  then have r: "stage2_region b = b @ CHR 0x00 # CHR 0x00 # replicate n (CHR 0x00)"
    by (simp add: stage2_region_def)
  have "le16 (drop 2 (stage2_region b)) = Stage2Magic" "le16 (drop 4 (stage2_region b)) = Stage2SumMarker"
    unfolding r by (simp_all add: b_def le16_def Stage2Magic_def Stage2SumMarker_def)
  moreover have "le16 (drop 6 (stage2_region b)) = 0"
    unfolding r by (simp add: b_def le16_def)
  ultimately show "CheckStage2 (stage2_region b) = Some (Stage2Words 0)"
    unfolding CheckStage2_def stage2_region_idem [OF len] length_stage2_region [OF len]
    by (simp add: layout_defs)
qed

lemma firstDiffFrom_Some:
  "firstDiffFrom k got want = Some x \<Longrightarrow>
     \<exists>i. x = DiffAt (k + i) (got ! i) (want ! i) \<and> i < length got \<and> i < length want \<and>
         got ! i \<noteq> want ! i \<and> take i got = take i want"
proof (induction k got want rule: firstDiffFrom.induct)
  case (1 k g gs w ws)
  show ?case
  proof (cases "g = w")
    case True
    with 1 obtain i where "x = DiffAt (Suc k + i) (gs ! i) (ws ! i)" "i < length gs" "i < length ws"
      "gs ! i \<noteq> ws ! i" "take i gs = take i ws" by auto
    with True show ?thesis by (intro exI [of _ "Suc i"]) simp
  next
    case False
    with 1 show ?thesis by (intro exI [of _ 0]) simp
  qed
qed simp_all

lemma firstDiffFrom_None: "firstDiffFrom k got want = None \<Longrightarrow> length got = length want \<Longrightarrow> got = want"
  by (induction k got want rule: firstDiffFrom.induct) (auto split: if_splits)

section \<open>Healthy and torn writes\<close>

text \<open>The gate does not look at the stage2 extent, so a torn write into it does not stop the
  rollback.\<close>

definition table_ok :: "bytes \<Rightarrow> bool" where
  "table_ok c \<longleftrightarrow>
     CheckStage2ExtentFree (Some (file_reader c)) = Inr () \<and>
     (\<forall>hdr. ReadGPTHeader (Some (file_reader c)) = Inr hdr \<longrightarrow> gpt_no_wrap hdr)"

lemma sl_same_outside:
  assumes "same_outside off n c c'" "b \<le> off \<or> off + n \<le> a"
  shows "sl c' a b = sl c a b"
proof -
  have before: "sl x a b = sl (take off x) a b" if "b \<le> off" for x :: bytes
    using that by (simp add: sl_def drop_take min_def)
  have after: "sl x a b = take (b - a) (drop (a - (off + n)) (drop (off + n) x))" if "off + n \<le> a" for x :: bytes
    using that by (simp add: sl_def)
  from assms show ?thesis
    unfolding same_outside_def by (metis before after)
qed

lemma file_reader_outside:
  assumes "same_outside stage2Offset Stage2Bytes c c'" "l < 34 \<or> 97 < l"
  shows "file_reader c' (int (512 * l)) 512 = file_reader c (int (512 * l)) 512"
proof -
  have "512 * l + 512 \<le> stage2Offset \<or> stage2Offset + Stage2Bytes \<le> 512 * l"
    using assms(2) by (auto simp: stage2Offset_def layout_defs)
  moreover have "length c' = length c" using assms(1) by (simp add: same_outside_def)
  ultimately show ?thesis
    using sl_same_outside [OF assms(1), of "512 * l + 512" "512 * l"]
    unfolding file_reader_def nat_int by simp
qed

lemma table_ok_stable:
  assumes ok: "table_ok c" and same: "same_outside stage2Offset Stage2Bytes c c'"
  shows "table_ok c'"
proof -
  note rd = file_reader_outside [OF same]
  have hdr: "ReadGPTHeader (Some (file_reader c')) = ReadGPTHeader (Some (file_reader c))"
    using rd [of 1] by (simp add: ReadGPTHeader_def)
  have mbr: "MBRPartitions (Some (file_reader c')) = MBRPartitions (Some (file_reader c))"
    using rd [of 0] by (simp add: MBRPartitions_def)
  show ?thesis
  proof (cases "ReadGPTHeader (Some (file_reader c))")
    case (Inl e)
    then have e: "e = ENoGPTSignature" using ok by (auto simp: table_ok_def CheckStage2ExtentFree_def Let_def split: if_splits)
    show ?thesis
      using ok Inl unfolding table_ok_def CheckStage2ExtentFree_def hdr mbr Inl e by simp
  next
    case (Inr h)
    with ok have nw: "gpt_no_wrap h" and gate: "CheckStage2ExtentFree (Some (file_reader c)) = Inr ()"
      by (auto simp: table_ok_def)
    note acc = gate [unfolded gate_gpt_iff [OF Inr nw]]
    have "slot_entry (file_reader c') h i = slot_entry (file_reader c) h i" if "i < unat (NumPartitionEntries h)" for i
    proof -
      let ?l = "unat (PartitionEntryLBA h) + i div (512 div unat (PartitionEntrySize h))"
      have "?l < 34 \<or> 97 < ?l"
        using acc by (intro slot_sector_outside [OF nw that]) blast+
      from rd [OF this] show ?thesis by (simp only: slot_entry_def slot_at_def)
    qed
    with acc have "CheckStage2ExtentFree (Some (file_reader c')) = Inr ()"
      using gate_gpt_iff [OF Inr [folded hdr] nw] by simp
    with Inr nw show ?thesis by (simp add: table_ok_def hdr)
  qed
qed

lemma WriteStage2_run:
  assumes "table_ok (content d)" "length b \<le> Stage2Bytes" "stage2Offset + Stage2Bytes \<le> length (content d)"
    and "outcomes d = []"
  shows "\<exists>d'. WriteStage2 d b = ((Some (region stage2Offset Stage2Bytes (content d)), None), d') \<and>
     outcomes d' = [] \<and> content d' = overwrite (content d) stage2Offset (stage2_region b)"
proof -
  let ?c = "overwrite (content d) stage2Offset (stage2_region b)"
  let ?d = "d\<lparr>content := ?c, history := history d @ [?c]\<rparr>"
  have len: "length (stage2_region b) = Stage2Bytes" by (rule length_stage2_region [OF assms(2)])
  have n: "next_io x = (Good, x)" if "outcomes x = []" for x :: dev
    using that by (simp add: next_io_def)
  have rd: "file_reader (content d) (int stage2Offset) Stage2Bytes = Some (region stage2Offset Stage2Bytes (content d))"
    using assms(3) by (simp add: file_reader_eq_Some region_def)
  have reg: "region stage2Offset Stage2Bytes ?c = stage2_region b"
    using overwrite_region [of stage2Offset "stage2_region b" "content d"] assms(3) len by simp
  then have rb: "file_reader ?c (int stage2Offset) Stage2Bytes = Some (stage2_region b)"
    using assms(3) len by (simp add: file_reader_eq_Some region_def overwrite_def)
  have "verifyStage2At ?d stage2Offset b = (None, ?d)"
    using assms(4) rb
    by (simp add: verifyStage2At_def io_readAt_def n first_nonzero_None stage2_region_def)
  with assms rd len show ?thesis
    by (intro exI [of _ ?d])
      (simp add: WriteStage2_def gate_def io_call_def io_readAt_def io_writeAt_def io_put_def n table_ok_def Let_def)
qed

lemma WriteStage2_torn:
  assumes "table_ok (content d)" "length b \<le> Stage2Bytes" "stage2Offset + Stage2Bytes \<le> length (content d)"
    and "outcomes d = [Good, Good, Good, Fail n]"
  shows "\<exists>d'. WriteStage2 d b = ((Some (region stage2Offset Stage2Bytes (content d)), Some StageWrite), d') \<and>
     outcomes d' = [] \<and> content d' = overwrite (content d) stage2Offset (take n (stage2_region b))"
proof -
  have rd: "file_reader (content d) (int stage2Offset) Stage2Bytes = Some (region stage2Offset Stage2Bytes (content d))"
    using assms(3) by (simp add: file_reader_eq_Some region_def)
  moreover have "take (min n (length (content d) - stage2Offset)) (stage2_region b) = take n (stage2_region b)"
    using length_stage2_region [OF assms(2)] assms(3) by (cases "n \<le> Stage2Bytes") simp_all
  ultimately show ?thesis
    using assms length_stage2_region [OF assms(2)]
    by (simp add: WriteStage2_def gate_def io_call_def io_readAt_def io_writeAt_def io_put_def next_io_def
        table_ok_def Let_def)
qed

lemma torn_stage2_restored:
  assumes "table_ok (content d)" "length b2 \<le> Stage2Bytes" "stage2Offset + Stage2Bytes \<le> length (content d)"
    and "outcomes d = [Good, Good, Good, Fail n]"
  shows "\<exists>d'. writeBIOSStagesWithRollback d b1 b2 =
      ((Some (WritingStage2 StageWrite), [RestoredStage2]), d') \<and> content d' = content d"
proof -
  let ?p = "region stage2Offset Stage2Bytes (content d)"
  from WriteStage2_torn [OF assms] obtain d1 where
    w: "WriteStage2 d b2 = ((Some ?p, Some StageWrite), d1)" and o: "outcomes d1 = []" by blast
  have same: "same_outside stage2Offset Stage2Bytes (content d) (content d1)" by (rule stage2.frame [OF w])
  have len: "length ?p \<le> Stage2Bytes" "stage2Offset + Stage2Bytes \<le> length (content d1)"
    using stage2.previous [OF w] same assms(3) by (simp_all add: same_outside_def)
  from WriteStage2_run [OF table_ok_stable [OF assms(1) same] len o] obtain d2 where
    r: "WriteStage2 d1 ?p = ((Some (region stage2Offset Stage2Bytes (content d1)), None), d2)" by blast
  have "content d2 = content d" by (rule stage2.restore [OF w same_outside_refl r])
  then show ?thesis
    by (simp add: writeBIOSStagesWithRollback_def rollbackStage2_def w r)
qed

lemma WriteStage1_tail: "drop Stage1Bytes (content (snd (WriteStage1 d b))) = drop Stage1Bytes (content d)"
  using stage1.frame [of d b "fst (fst (WriteStage1 d b))" "snd (fst (WriteStage1 d b))" "snd (WriteStage1 d b)"]
  by (simp add: same_outside_def)


section \<open>A sample device\<close>

definition sample_sector0 :: bytes where
  "sample_sector0 = the (sample_mbr 0 512)"

definition sample_old :: bytes where
  "sample_old = [CHR 0xEB, CHR 0x3C, CHR 0x5A, CHR 0x32]"

definition sample_new :: bytes where
  "sample_new = [CHR 0xEB, CHR 0x3C, CHR 0x5A, CHR 0x32, CHR 0x90, CHR 0x90, CHR 0x90, CHR 0x90, CHR 0x90, CHR 0x90]"

definition sample_content :: bytes where
  "sample_content = sample_sector0 @ replicate 512 (CHR 0x00) @ replicate 16384 (CHR 0x00) @ stage2_region sample_old"

definition sample_dev :: "io list \<Rightarrow> dev" where
  "sample_dev outs = \<lparr>content = sample_content, outcomes = outs, history = []\<rparr>"

lemma sample_images: "CheckStage2 (stage2_region sample_old) = None" "CheckStage2 sample_new = None"
  "length sample_old \<le> Stage2Bytes" "length sample_new \<le> Stage2Bytes" "10 \<le> length sample_new"
proof -
  obtain n where n: "Stage2Bytes - length sample_old = Suc (Suc n)"
    by (rule that [of "Stage2Bytes - 6"]) (simp add: sample_old_def layout_defs)
  then have r: "stage2_region sample_old = sample_old @ CHR 0x00 # CHR 0x00 # replicate n (CHR 0x00)"
    by (simp add: stage2_region_def)
  show len: "length sample_old \<le> Stage2Bytes" "length sample_new \<le> Stage2Bytes" "10 \<le> length sample_new"
    by (simp_all add: sample_old_def sample_new_def layout_defs)
  have "le16 (drop 2 (stage2_region sample_old)) = Stage2Magic"
    "le16 (drop 4 (stage2_region sample_old)) \<noteq> Stage2SumMarker"
    unfolding r by (simp_all add: sample_old_def le16_def Stage2Magic_def Stage2SumMarker_def)
  then show "CheckStage2 (stage2_region sample_old) = None"
    using length_stage2_region [OF len(1)] by (simp add: CheckStage2_def layout_defs)
  show "CheckStage2 sample_new = None"
    by (simp add: CheckStage2_def sample_new_def le16_def Stage2Magic_def Stage2SumMarker_def layout_defs)
qed

lemma sample_sector0: "sample_mbr 0 512 = Some sample_sector0" "length sample_sector0 = 512"
  by (simp_all add: sample_sector0_def sample_mbr_def)

lemma sample_lengths: "length sample_content = stage2Offset + Stage2Bytes"
  using length_stage2_region [OF sample_images(3)]
  by (simp add: sample_content_def sample_sector0 stage2Offset_def layout_defs)

lemma sample_region: "region stage2Offset Stage2Bytes sample_content = stage2_region sample_old"
  using length_stage2_region [OF sample_images(3)]
  by (simp add: region_def sl_def sample_content_def sample_sector0 stage2Offset_def layout_defs)

lemma sample_table_ok: "table_ok sample_content"
proof -
  have l: "512 \<le> length sample_content" "1024 \<le> length sample_content"
    using sample_lengths by (simp_all add: stage2Offset_def layout_defs)
  have "file_reader sample_content 0 512 = sample_mbr 0 512"
    "file_reader sample_content 512 512 = sample_mbr 512 512"
    using l by (simp_all add: file_reader_eq_Some sl_def sample_sector0 sample_content_def file_reader_def sample_mbr_def [of 512])
  then have eq: "ReadGPTHeader (Some (file_reader sample_content)) = ReadGPTHeader (Some sample_mbr)"
    "MBRPartitions (Some (file_reader sample_content)) = MBRPartitions (Some sample_mbr)"
    by (simp_all add: ReadGPTHeader_def MBRPartitions_def)
  have "CheckStage2ExtentFree (Some (file_reader sample_content)) = CheckStage2ExtentFree (Some sample_mbr)"
    unfolding CheckStage2ExtentFree_def eq sample_mbr_no_gpt by simp
  then show ?thesis
    unfolding table_ok_def eq by (simp add: sample_mbr_no_gpt sample_mbr_accepted)
qed

section \<open>A run without I/O failures\<close>

lemma next_io_healthy: "outcomes d = [] \<Longrightarrow> next_io d = (Good, d)"
  by (simp add: next_io_def)

lemma WriteStage1_run:
  assumes "table_ok (content d)" "length b = Stage1Bytes" "Stage1Bytes \<le> length (content d)" "outcomes d = []"
  shows "\<exists>d'. WriteStage1 d b = ((Some (region 0 Stage1Bytes (content d)), None), d') \<and>
     outcomes d' = [] \<and> content d' = overwrite (content d) 0 b"
proof -
  have "file_reader (content d) 0 Stage1Bytes = Some (region 0 Stage1Bytes (content d))"
    using assms(3) by (simp add: file_reader_eq_Some region_def)
  with assms show ?thesis
    by (simp add: WriteStage1_def gate_def io_call_def io_readAt_def io_writeAt_def io_put_def
        next_io_healthy table_ok_def Let_def)
qed

lemma VerifyStage1_run:
  assumes "region 0 Stage1Bytes (content d) = want" "length want = Stage1Bytes"
    "Stage1Bytes \<le> length (content d)" "outcomes d = []"
  shows "VerifyStage1 d want = (None, d)"
proof -
  have "file_reader (content d) 0 Stage1Bytes = Some want"
    using assms by (simp add: file_reader_eq_Some region_def)
  with assms show ?thesis
    by (simp add: VerifyStage1_def readRegion_def io_call_def io_readAt_def next_io_healthy)
qed

lemma VerifyStage2_run:
  assumes "region stage2Offset Stage2Bytes (content d) = stage2_region want" "length want \<le> Stage2Bytes"
    "stage2Offset + Stage2Bytes \<le> length (content d)" "outcomes d = []"
  shows "VerifyStage2 d want = (None, d)"
proof -
  have "file_reader (content d) (int stage2Offset) Stage2Bytes = Some (stage2_region want)"
    using assms by (simp add: file_reader_eq_Some region_def)
  with assms show ?thesis
    by (simp add: VerifyStage2_def verifyStage2At_def io_call_def io_readAt_def next_io_healthy stage2_region_def)
qed

lemma pair_healthy:
  assumes "table_ok (content d)" "length b1 = Stage1Bytes" "length b2 \<le> Stage2Bytes"
    "stage2Offset + Stage2Bytes \<le> length (content d)" "outcomes d = []"
  shows "\<exists>d'. writeBIOSStagesWithRollback d b1 b2 = ((None, []), d') \<and>
     content d' = overwrite (overwrite (content d) stage2Offset (stage2_region b2)) 0 b1"
proof -
  obtain d1 where w2: "WriteStage2 d b2 = ((Some (region stage2Offset Stage2Bytes (content d)), None), d1)"
    and o1: "outcomes d1 = []" and c1: "content d1 = overwrite (content d) stage2Offset (stage2_region b2)"
    using WriteStage2_run [OF assms(1,3,4,5)] by blast
  have same: "same_outside stage2Offset Stage2Bytes (content d) (content d1)" by (rule stage2.frame [OF w2])
  then have len: "stage2Offset + Stage2Bytes \<le> length (content d1)" "Stage1Bytes \<le> length (content d1)"
    using assms(4) by (simp_all add: same_outside_def stage2Offset_def layout_defs)
  have v2: "VerifyStage2 d1 b2 = (None, d1)"
    by (rule VerifyStage2_run [OF stage2.written [OF w2] assms(3) len(1) o1])
  obtain d2 where w1: "WriteStage1 d1 b1 = ((Some (region 0 Stage1Bytes (content d1)), None), d2)"
    and o2: "outcomes d2 = []" and c2: "content d2 = overwrite (content d1) 0 b1"
    using WriteStage1_run [OF table_ok_stable [OF assms(1) same] assms(2) len(2) o1] by blast
  have "Stage1Bytes \<le> length (content d2)"
    using stage1.frame [OF w1] len(2) by (simp add: same_outside_def)
  then have v1: "VerifyStage1 d2 b1 = (None, d2)"
    by (rule VerifyStage1_run [OF stage1.written [OF w1] assms(2) _ o2])
  show ?thesis
    using c1 c2 by (simp add: writeBIOSStagesWithRollback_def w2 v2 w1 v1)
qed


section \<open>Properties\<close>



text \<open>C4: a failed install or update of the pair that reports no CRITICAL rollback failure leaves the
  disk byte for byte as it was, whichever I/O call failed and however much of a write was put down.\<close>

theorem pair_rollback:
  assumes "writeBIOSStagesWithRollback d stage1 stage2 = ((Some err, ev), d')" "\<not> critical ev"
  shows "content d' = content d"
  using assms by (rule pair_failure_restores)

theorem pair_rollback_witness:
  "content (snd (writeBIOSStagesWithRollback (sample_dev [Good, Good, Good, Fail 100])
     (replicate 440 (CHR 0xFA)) sample_new)) = sample_content"
proof -
  let ?d = "sample_dev [Good, Good, Good, Fail 100]" and ?s = "replicate 440 (CHR 0xFA)"
  obtain d' where run: "writeBIOSStagesWithRollback ?d ?s sample_new =
      ((Some (WritingStage2 StageWrite), [RestoredStage2]), d')"
    using torn_stage2_restored [of ?d sample_new 100 ?s] sample_table_ok sample_images sample_lengths
    by (auto simp: sample_dev_def)
  from pair_rollback [OF run] run show ?thesis by (simp add: critical_def sample_dev_def)
qed

text \<open>C5: the rollback does work.  On a disk the gate accepts, a stage2 write that is torn after any
  number of bytes, with no further I/O failure, is rolled back: the previous stage2 is reported
  restored and the disk is byte for byte as before.\<close>

theorem torn_stage2_write_undone:
  assumes "table_ok (content d)" "length stage2 \<le> Stage2Bytes"
    and "stage2Offset + Stage2Bytes \<le> length (content d)"
    and "outcomes d = [Good, Good, Good, Fail n]"
  shows "\<exists>d'. writeBIOSStagesWithRollback d stage1 stage2 =
      ((Some (WritingStage2 StageWrite), [RestoredStage2]), d') \<and> content d' = content d"
  using assms by (rule torn_stage2_restored)

theorem torn_stage2_write_undone_witness:
  "\<exists>d'. writeBIOSStagesWithRollback (sample_dev [Good, Good, Good, Fail 7]) [] sample_new =
      ((Some (WritingStage2 StageWrite), [RestoredStage2]), d') \<and> content d' = sample_content"
  using torn_stage2_write_undone [of "sample_dev [Good, Good, Good, Fail 7]" sample_new 7 "[]"]
    sample_table_ok sample_images sample_lengths
  by (simp add: sample_dev_def)

text \<open>C6: with a table the gate accepts and working I/O, the pair writer succeeds, and the disk then
  differs from the old one in exactly the two regions: stage2 followed by zeros in its extent, and
  the 440 bytes of stage1.\<close>

theorem pair_written:
  assumes "table_ok (content d)" "length stage1 = Stage1Bytes" "length stage2 \<le> Stage2Bytes"
    and "stage2Offset + Stage2Bytes \<le> length (content d)" "outcomes d = []"
  shows "\<exists>d'. writeBIOSStagesWithRollback d stage1 stage2 = ((None, []), d') \<and>
     content d' = overwrite (overwrite (content d) stage2Offset (stage2_region stage2)) 0 stage1"
  using assms by (rule pair_healthy)

theorem pair_written_witness:
  "\<exists>d'. writeBIOSStagesWithRollback (sample_dev []) (replicate 440 (CHR 0xFA)) sample_new = ((None, []), d') \<and>
     content d' = overwrite (overwrite sample_content stage2Offset (stage2_region sample_new)) 0 (replicate 440 (CHR 0xFA))"
proof -
  have "length (replicate 440 (CHR 0xFA)) = Stage1Bytes" by (simp add: layout_defs)
  then show ?thesis
    using pair_written [of "sample_dev []" "replicate 440 (CHR 0xFA)" sample_new]
      sample_table_ok sample_images sample_lengths
    by (simp add: sample_dev_def)
qed

text \<open>C7: writing stage1 never changes a byte from offset 440 on - the disk signature, the partition
  table and the boot signature of the MBR, and everything after it - whatever I/O calls fail.\<close>

theorem stage1_keeps_partition_table:
  "drop Stage1Bytes (content (snd (WriteStage1 d stage1))) = drop Stage1Bytes (content d)"
  by (rule WriteStage1_tail)

end
