(* ===== verification/Sha256.thy ===== *)
theory Sha256
  imports Go_Prelude
begin

text \<open>
  SHA-256 as \<open>src/internal/payloadsum/blksum.go\<close> computes it block by block (\<open>sha256Blocks\<close>), and
  \<open>crypto/sha256.Sum256\<close> as that compression run over the padded message.  The chaining lemma is
  what the per-block table of the BIOS loader rests on.
\<close>

unbundle bit_operations_syntax

definition sha256K :: "u32 list" where
  "sha256K = concat [
    [0x428a2f98, 0x71374491, 0xb5c0fbcf, 0xe9b5dba5, 0x3956c25b, 0x59f111f1, 0x923f82a4, 0xab1c5ed5],
    [0xd807aa98, 0x12835b01, 0x243185be, 0x550c7dc3, 0x72be5d74, 0x80deb1fe, 0x9bdc06a7, 0xc19bf174],
    [0xe49b69c1, 0xefbe4786, 0x0fc19dc6, 0x240ca1cc, 0x2de92c6f, 0x4a7484aa, 0x5cb0a9dc, 0x76f988da],
    [0x983e5152, 0xa831c66d, 0xb00327c8, 0xbf597fc7, 0xc6e00bf3, 0xd5a79147, 0x06ca6351, 0x14292967],
    [0x27b70a85, 0x2e1b2138, 0x4d2c6dfc, 0x53380d13, 0x650a7354, 0x766a0abb, 0x81c2c92e, 0x92722c85],
    [0xa2bfe8a1, 0xa81a664b, 0xc24b8b70, 0xc76c51a3, 0xd192e819, 0xd6990624, 0xf40e3585, 0x106aa070],
    [0x19a4c116, 0x1e376c08, 0x2748774c, 0x34b0bcb5, 0x391c0cb3, 0x4ed8aa4a, 0x5b9cca4f, 0x682e6ff3],
    [0x748f82ee, 0x78a5636f, 0x84c87814, 0x8cc70208, 0x90befffa, 0xa4506ceb, 0xbef9a3f7, 0xc67178f2]]"

definition sha256_init :: "u32 list" where
  "sha256_init = [0x6a09e667, 0xbb67ae85, 0x3c6ef372, 0xa54ff53a, 0x510e527f, 0x9b05688c, 0x1f83d9ab, 0x5be0cd19]"

definition be32 :: "bytes \<Rightarrow> u32" where
  "be32 b = word_of_nat (be_val (take 4 b))"

text \<open>The message schedule \<open>w[0..63]\<close> of one 64-byte block.\<close>

definition schedule_step :: "u32 list \<Rightarrow> nat \<Rightarrow> u32 list" where
  "schedule_step w i =
     (let x = w ! (i - 15); y = w ! (i - 2);
          s0 = word_rotr 7 x XOR word_rotr 18 x XOR drop_bit 3 x;
          s1 = word_rotr 17 y XOR word_rotr 19 y XOR drop_bit 10 y
      in w @ [w ! (i - 16) + s0 + w ! (i - 7) + s1])"

definition schedule :: "bytes \<Rightarrow> u32 list" where
  "schedule p = foldl schedule_step (map (\<lambda>i. be32 (drop (4 * i) p)) [0..<16]) [16..<64]"

type_synonym sha_vars = "u32 \<times> u32 \<times> u32 \<times> u32 \<times> u32 \<times> u32 \<times> u32 \<times> u32"

fun round_step :: "sha_vars \<Rightarrow> u32 \<times> u32 \<Rightarrow> sha_vars" where
  "round_step (a, b, c, d, e, f, g, hh) (k, w) =
     (let t1 = hh + (word_rotr 6 e XOR word_rotr 11 e XOR word_rotr 25 e) + ((e AND f) XOR (NOT e AND g)) + k + w;
          t2 = (word_rotr 2 a XOR word_rotr 13 a XOR word_rotr 22 a) + ((a AND b) XOR (a AND c) XOR (b AND c))
      in (t1 + t2, a, b, c, d + t1, e, f, g))"

definition sha256Block :: "u32 list \<Rightarrow> bytes \<Rightarrow> u32 list" where
  "sha256Block h p =
     (let (a, b, c, d, e, f, g, hh) =
        foldl round_step (h ! 0, h ! 1, h ! 2, h ! 3, h ! 4, h ! 5, h ! 6, h ! 7) (zip sha256K (schedule p))
      in [h ! 0 + a, h ! 1 + b, h ! 2 + c, h ! 3 + d, h ! 4 + e, h ! 5 + f, h ! 6 + g, h ! 7 + hh])"

function sha256Blocks :: "u32 list \<Rightarrow> bytes \<Rightarrow> u32 list" where
  "sha256Blocks h p = (if length p \<ge> 64 then sha256Blocks (sha256Block h (take 64 p)) (drop 64 p) else h)"
  by pat_completeness auto
termination
  by (relation "measure (\<lambda>(h, p). length p)") auto

declare sha256Blocks.simps [simp del]

definition state_bytes :: "u32 list \<Rightarrow> bytes" where
  "state_bytes h = concat (map (\<lambda>x. be_bytes 4 (unat x)) h)"

definition sha_pad :: "nat \<Rightarrow> bytes" where
  "sha_pad n = CHR 0x80 # replicate ((119 - n mod 64) mod 64) (CHR 0x00) @ be_bytes 8 (8 * n)"

definition Sum256 :: "bytes \<Rightarrow> bytes" where
  "Sum256 p = state_bytes (sha256Blocks sha256_init (p @ sha_pad (length p)))"


section \<open>Chaining\<close>

lemma length_sha256Block [simp]: "length (sha256Block h p) = 8"
  by (simp add: sha256Block_def split: prod.splits)

lemma length_sha256Blocks: "length h = 8 \<Longrightarrow> length (sha256Blocks h p) = 8"
proof (induction h p rule: sha256Blocks.induct)
  case (1 h p)
  then show ?case by (subst sha256Blocks.simps) simp
qed

lemma sha256Blocks_append:
  "64 dvd length a \<Longrightarrow> sha256Blocks h (a @ b) = sha256Blocks (sha256Blocks h a) b"
proof (induction "length a" arbitrary: a h rule: less_induct)
  case less
  show ?case
  proof (cases "length a \<ge> 64")
    case True
    let ?h = "sha256Block h (take 64 a)"
    have "sha256Blocks h (a @ b) = sha256Blocks ?h (drop 64 a @ b)"
      using True by (subst sha256Blocks.simps) simp
    also have "\<dots> = sha256Blocks (sha256Blocks ?h (drop 64 a)) b"
      using True less.prems by (intro less.hyps) (auto simp: dvd_diff_nat)
    also have "sha256Blocks ?h (drop 64 a) = sha256Blocks h a"
      using True by (subst (2) sha256Blocks.simps) simp
    finally show ?thesis .
  next
    case False
    with less.prems have "a = []" by (metis dvd_imp_le length_greater_0_conv)
    then show ?thesis by (subst (2) sha256Blocks.simps) simp
  qed
qed

lemma length_state_bytes: "length (state_bytes h) = 4 * length h"
  by (induction h) (simp_all add: state_bytes_def)

lemma length_Sum256 [simp]: "length (Sum256 p) = 32"
  by (simp add: Sum256_def length_state_bytes length_sha256Blocks sha256_init_def)

lemma sha_pad_aligned: "64 dvd n + length (sha_pad n)"
proof -
  define r where "r = n mod 64"
  have r: "r < 64" by (simp add: r_def)
  have len: "length (sha_pad n) = 9 + (119 - r) mod 64" by (simp add: sha_pad_def r_def)
  have "(n + length (sha_pad n)) mod 64 = (r + (9 + (119 - r) mod 64)) mod 64"
    unfolding len by (simp only: r_def mod_add_left_eq)
  also have "\<dots> = 0"
  proof (cases "r \<le> 55")
    case True
    then have "119 - r = (55 - r) + 64" by simp
    then have "(119 - r) mod 64 = 55 - r" by (simp only: mod_add_self2) simp
    then show ?thesis using True by simp
  next
    case False
    then have "(119 - r) mod 64 = 119 - r" by simp
    moreover have "r + (9 + (119 - r)) = 128" using r by simp
    ultimately show ?thesis by simp
  qed
  finally show ?thesis by (simp add: dvd_eq_mod_eq_0)
qed

text \<open>The chaining state is recovered from its 32 bytes.\<close>

definition bytes_state :: "bytes \<Rightarrow> u32 list" where
  "bytes_state b = map (\<lambda>i. be32 (drop (4 * i) b)) [0..<8]"

lemma be32_be_bytes: "be32 (be_bytes 4 (unat (x :: u32)) @ r) = x"
proof -
  have "unat x mod 256 ^ 4 = unat x" using unat_u32_less [of x] by simp
  then have "be_val (be_bytes 4 (unat x)) = unat x" by simp
  then show ?thesis by (simp add: be32_def del: be_val_be_bytes)
qed

lemma bytes_state_bytes:
  assumes "length h = 8"
  shows "bytes_state (state_bytes h) = h"
proof (rule nth_equalityI)
  fix i assume "i < length (bytes_state (state_bytes h))"
  then have i: "i < 8" by (simp add: bytes_state_def)
  have d: "drop (4 * i) (state_bytes h) = state_bytes (drop i h)" for i and h :: "u32 list"
  proof (induction i arbitrary: h)
    case (Suc i)
    then show ?case by (cases h) (simp_all add: state_bytes_def)
  qed simp
  have "drop i h = h ! i # drop (Suc i) h" using i assms by (simp add: Cons_nth_drop_Suc)
  then have "state_bytes (drop i h) = be_bytes 4 (unat (h ! i)) @ state_bytes (drop (Suc i) h)"
    by (simp add: state_bytes_def)
  then show "bytes_state (state_bytes h) ! i = h ! i"
    using i by (simp add: bytes_state_def d be32_be_bytes)
qed (simp add: bytes_state_def assms)

end
