(* ===== verification/Payload_Sum.thy ===== *)
theory Payload_Sum
  imports Sha256 Go_Strings
begin

text \<open>
  \<open>src/internal/payloadsum/payloadsum.go\<close>: the CHECKSUM manifest of the kernel and initrd the BIOS
  loader places in RAM.  The lemmas show that the manifest survives encoding and decoding, that it
  verifies the files it was made for, and what a clean verification says about other files.
\<close>

definition Header :: string where "Header = ''alpine-zfsboot payload-sum 1''"
definition MaxBytes :: nat where "MaxBytes = 512"

record Entry =
  Size :: u32
  Offset :: u32
  SHA256 :: bytes

definition ModeOff :: string where "ModeOff = ''off''"
definition ModeWarn :: string where "ModeWarn = ''warn''"
definition ModeEnforce :: string where "ModeEnforce = ''enforce''"

definition ValidMode :: "string \<Rightarrow> bool" where
  "ValidMode m \<longleftrightarrow> m = ModeOff \<or> m = ModeWarn \<or> m = ModeEnforce"

record Manifest =
  Kernel :: Entry
  Initrd :: Entry
  Mode :: string

datatype psum_error =
    NotBzImage
  | RealModeTooBig nat u32
  | FileTooBig nat
  | BadMode string
  | ManifestTooLong nat
  | NoFinalNewline
  | BadHeader string
  | ListedTwice string
  | MalformedLine string
  | FilesMissing

definition offSetupSects :: nat where "offSetupSects = 0x1f1"
definition offBootFlag :: nat where "offBootFlag = 0x1fe"
definition offHeader :: nat where "offHeader = 0x202"

definition KernelRAMOffset :: "bytes \<Rightarrow> psum_error + u32" where
  "KernelRAMOffset kern =
     (if length kern < offHeader + 4 \<or> le16 (drop offBootFlag kern) \<noteq> 0xAA55 \<or>
         sl kern offHeader (offHeader + 4) \<noteq> ''HdrS''
      then Inl NotBzImage
      else
        let sects0 = (of_char (kern ! offSetupSects) :: u32);
            sects = (if sects0 = 0 then 4 else sects0);
            off = (sects + 1) * 512
        in if unat off \<ge> length kern then Inl (RealModeTooBig (length kern) off) else Inr off)"

definition entryFor :: "bytes \<Rightarrow> u32 \<Rightarrow> psum_error + Entry" where
  "entryFor data offset =
     (if length data > 0xffffffff then Inl (FileTooBig (length data))
      else Inr \<lparr>Size = of_nat (length data), Offset = offset, SHA256 = Sum256 (drop (unat offset) data)\<rparr>)"

definition New :: "bytes \<Rightarrow> bytes \<Rightarrow> string \<Rightarrow> psum_error + Manifest" where
  "New kern initrd mode =
     (if \<not> ValidMode mode then Inl (BadMode mode)
      else
        bindE (KernelRAMOffset kern) (\<lambda>off.
        bindE (entryFor kern off) (\<lambda>k.
        bindE (entryFor initrd 0) (\<lambda>i.
        Inr \<lparr>Kernel = k, Initrd = i, Mode = mode\<rparr>))))"

definition entryLine :: "string \<Rightarrow> Entry \<Rightarrow> string" where
  "entryLine name e =
     name @ SP # dec (unat (Size e)) @ SP # dec (unat (Offset e)) @ SP # hex_encode (SHA256 e) @ [NL]"

definition Encode :: "Manifest \<Rightarrow> bytes" where
  "Encode m =
     (let mode = (if ValidMode (Mode m) then Mode m else ModeWarn) in
      Header @ NL # ''MODE '' @ mode @ NL # entryLine ''KERNEL'' (Kernel m) @ entryLine ''INITRD'' (Initrd m))"

definition Generate :: "bytes \<Rightarrow> bytes \<Rightarrow> string \<Rightarrow> psum_error + bytes" where
  "Generate kern initrd mode = bindE (New kern initrd mode) (\<lambda>m. Inr (Encode m))"

definition parseDec :: "string \<Rightarrow> u32 option" where
  "parseDec s =
     (if s = [] \<or> length s > 10 \<or> \<not> list_all is_digit s then None
      else if dec_val s \<ge> 2 ^ 32 then None
      else Some (of_nat (dec_val s)))"

text \<open>The fields of a KERNEL or INITRD line after the name has been recognised.\<close>

definition parseEntry :: "string list \<Rightarrow> Entry option" where
  "parseEntry f =
     (if length f \<noteq> 4 then None
      else
        case (parseDec (f ! 1), parseDec (f ! 2), hex_decode (f ! 3)) of
          (Some sz, Some off, Some digest) \<Rightarrow>
            if length digest \<noteq> 32 \<or> toLower (f ! 3) \<noteq> f ! 3 \<or> off > sz then None
            else Some \<lparr>Size = sz, Offset = off, SHA256 = digest\<rparr>
        | _ \<Rightarrow> None)"

fun decodeLines :: "string list \<Rightarrow> Manifest \<Rightarrow> bool \<Rightarrow> bool \<Rightarrow> psum_error + Manifest \<times> bool \<times> bool" where
  "decodeLines [] m haveK haveI = Inr (m, haveK, haveI)"
| "decodeLines (line # rest) m haveK haveI =
     (let f = split_on SP line in
      if f ! 0 = ''MODE'' then
        decodeLines rest (m\<lparr>Mode := (if length f = 2 \<and> ValidMode (f ! 1) then f ! 1 else ModeWarn)\<rparr>) haveK haveI
      else if f ! 0 = ''KERNEL'' then
        (if haveK then Inl (ListedTwice ''KERNEL'')
         else case parseEntry f of
                None \<Rightarrow> Inl (MalformedLine line)
              | Some e \<Rightarrow> decodeLines rest (m\<lparr>Kernel := e\<rparr>) True haveI)
      else if f ! 0 = ''INITRD'' then
        (if haveI then Inl (ListedTwice ''INITRD'')
         else case parseEntry f of
                None \<Rightarrow> Inl (MalformedLine line)
              | Some e \<Rightarrow> decodeLines rest (m\<lparr>Initrd := e\<rparr>) haveK True)
      else decodeLines rest m haveK haveI)"

definition zeroEntry :: Entry where
  "zeroEntry = \<lparr>Size = 0, Offset = 0, SHA256 = replicate 32 (CHR 0x00)\<rparr>"

definition Decode :: "bytes \<Rightarrow> psum_error + Manifest" where
  "Decode raw =
     (if length raw > MaxBytes then Inl (ManifestTooLong (length raw))
      else if raw = [] \<or> last raw \<noteq> NL then Inl NoFinalNewline
      else
        let lines = split_on NL (butlast raw) in
        if lines ! 0 \<noteq> Header then Inl (BadHeader (lines ! 0))
        else
          bindE (decodeLines (tl lines) \<lparr>Kernel = zeroEntry, Initrd = zeroEntry, Mode = ModeWarn\<rparr> False False)
            (\<lambda>(m, haveK, haveI). if \<not> haveK \<or> \<not> haveI then Inl FilesMissing else Inr m))"

datatype verify_error =
    VNotBzImage psum_error
  | VSize string nat u32
  | VOffset string u32 u32
  | VSum string bytes bytes

definition verifyOne :: "string \<Rightarrow> Entry \<Rightarrow> bytes \<Rightarrow> u32 \<Rightarrow> verify_error list" where
  "verifyOne name want data offset =
     (if length data \<noteq> unat (Size want) then [VSize name (length data) (Size want)]
      else if offset \<noteq> Offset want then [VOffset name offset (Offset want)]
      else
        let got = Sum256 (drop (unat offset) data) in
        if got \<noteq> SHA256 want then [VSum name got (SHA256 want)] else [])"

definition Verify :: "Manifest \<Rightarrow> bytes \<Rightarrow> bytes \<Rightarrow> verify_error list" where
  "Verify m kern initrd =
     (case KernelRAMOffset kern of
        Inl e \<Rightarrow> [VNotBzImage e]
      | Inr off \<Rightarrow> verifyOne ''KERNEL'' (Kernel m) kern off @ verifyOne ''INITRD'' (Initrd m) initrd 0)"


section \<open>Round trip\<close>

definition wf_entry :: "Entry \<Rightarrow> bool" where
  "wf_entry e \<longleftrightarrow> length (SHA256 e) = 32 \<and> Offset e \<le> Size e"

definition wf_manifest :: "Manifest \<Rightarrow> bool" where
  "wf_manifest m \<longleftrightarrow> ValidMode (Mode m) \<and> wf_entry (Kernel m) \<and> wf_entry (Initrd m)"

lemma length_dec_u32: "length (dec (unat (x :: u32))) \<le> 10"
  using unat_u32_less [of x] by (intro length_dec) simp_all

lemma parseDec_dec [simp]: "parseDec (dec (unat (x :: u32))) = Some x"
  using unat_u32_less [of x] length_dec_u32 [of x]
  by (auto simp: parseDec_def list_all_iff dec_digits)

lemma dec_no_sep: "SP \<notin> set (dec n)" "NL \<notin> set (dec n)"
  using dec_digits [of SP n] dec_digits [of NL n] by (auto simp: is_digit_def)

lemma hex_no_sep: "SP \<notin> set (hex_encode b)" "NL \<notin> set (hex_encode b)"
  using hex_encode_chars [of SP b] hex_encode_chars [of NL b] by (auto simp: is_digit_def)

definition entryWords :: "string \<Rightarrow> Entry \<Rightarrow> string list" where
  "entryWords name e = [name, dec (unat (Size e)), dec (unat (Offset e)), hex_encode (SHA256 e)]"

lemma entryLine_words: "entryLine name e = join_with [SP] (entryWords name e) @ [NL]"
  by (simp add: entryLine_def entryWords_def)

lemma split_entryWords:
  "SP \<notin> set name \<Longrightarrow> split_on SP (join_with [SP] (entryWords name e)) = entryWords name e"
  by (rule split_join) (auto simp: entryWords_def dec_no_sep hex_no_sep)

lemma parseEntry_words: "wf_entry e \<Longrightarrow> parseEntry (entryWords name e) = Some e"
  by (auto simp: parseEntry_def entryWords_def wf_entry_def)

lemma parseEntry_wf: "parseEntry f = Some e \<Longrightarrow> wf_entry e"
  by (auto simp: parseEntry_def wf_entry_def split: if_splits option.splits)

definition manifestLines :: "Manifest \<Rightarrow> string list" where
  "manifestLines m =
     [Header, ''MODE '' @ Mode m, join_with [SP] (entryWords ''KERNEL'' (Kernel m)),
      join_with [SP] (entryWords ''INITRD'' (Initrd m))]"

lemma Encode_lines: "ValidMode (Mode m) \<Longrightarrow> Encode m = join_with [NL] (manifestLines m) @ [NL]"
  by (simp add: Encode_def manifestLines_def entryLine_words)

lemma mode_chars: "ValidMode x \<Longrightarrow> NL \<notin> set x \<and> SP \<notin> set x \<and> length x \<le> 7"
  by (auto simp: ValidMode_def ModeOff_def ModeWarn_def ModeEnforce_def)

lemma entryWords_no_NL: "NL \<notin> set name \<Longrightarrow> NL \<notin> set (join_with [SP] (entryWords name e))"
  by (simp add: entryWords_def dec_no_sep hex_no_sep)

lemma split_manifest:
  assumes "ValidMode (Mode m)"
  shows "split_on NL (join_with [NL] (manifestLines m)) = manifestLines m"
  by (rule split_join)
    (use assms mode_chars [OF assms] in \<open>auto simp: manifestLines_def Header_def entryWords_no_NL simp del: join_with.simps\<close>)

lemma length_entryWords: "wf_entry e \<Longrightarrow> length (join_with [SP] (entryWords name e)) \<le> length name + 87"
  using length_dec_u32 [of "Size e"] length_dec_u32 [of "Offset e"]
  by (simp add: entryWords_def wf_entry_def)

lemma length_Encode:
  assumes "wf_manifest m"
  shows "length (Encode m) \<le> MaxBytes"
proof -
  note w = assms [unfolded wf_manifest_def]
  have "length (join_with [SP] (entryWords ''KERNEL'' (Kernel m))) \<le> 93"
    "length (join_with [SP] (entryWords ''INITRD'' (Initrd m))) \<le> 93"
    using w length_entryWords [of "Kernel m" "''KERNEL''"] length_entryWords [of "Initrd m" "''INITRD''"] by simp_all
  moreover have "length (Mode m) \<le> 7" using w mode_chars by blast
  moreover have "Encode m = join_with [NL] (manifestLines m) @ [NL]" using w by (simp add: Encode_lines)
  ultimately show ?thesis
    by (simp only: manifestLines_def join_with.simps length_append) (simp add: MaxBytes_def Header_def)
qed

lemma decodeLines_manifest:
  assumes "wf_manifest m"
  shows "decodeLines (tl (manifestLines m)) m0 False False = Inr (m, True, True)"
proof -
  note w = assms [unfolded wf_manifest_def]
  have mode: "split_on SP (''MODE '' @ Mode m) = [''MODE'', Mode m]"
    using split_on_append [of SP "''MODE''" "Mode m"] mode_chars [of "Mode m"] w split_on_no_sep by simp
  have lines: "split_on SP (join_with [SP] (entryWords ''KERNEL'' (Kernel m))) = entryWords ''KERNEL'' (Kernel m)"
    "split_on SP (join_with [SP] (entryWords ''INITRD'' (Initrd m))) = entryWords ''INITRD'' (Initrd m)"
    by (simp_all add: split_entryWords)
  have first: "entryWords name e ! 0 = name" for name e by (simp add: entryWords_def)
  have "decodeLines (tl (manifestLines m)) m0 False False =
      Inr (m0\<lparr>Mode := Mode m, Kernel := Kernel m, Initrd := Initrd m\<rparr>, True, True)"
    unfolding manifestLines_def list.sel decodeLines.simps Let_def mode lines first
    using w by (simp add: parseEntry_words)
  also have "m0\<lparr>Mode := Mode m, Kernel := Kernel m, Initrd := Initrd m\<rparr> = m" by simp
  finally show ?thesis .
qed

lemma Decode_Encode: "wf_manifest m \<Longrightarrow> Decode (Encode m) = Inr m"
proof -
  assume w: "wf_manifest m"
  then have v: "ValidMode (Mode m)" by (simp add: wf_manifest_def)
  have len: "\<not> MaxBytes < length (Encode m)" using length_Encode [OF w] by simp
  have "last (Encode m) = NL" "Encode m \<noteq> []" and b: "butlast (Encode m) = join_with [NL] (manifestLines m)"
    by (simp_all add: Encode_lines [OF v])
  with len show ?thesis
    unfolding Decode_def Let_def b split_manifest [OF v] decodeLines_manifest [OF w]
    by (simp add: manifestLines_def del: join_with.simps)
qed

definition decode_inv :: "Manifest \<Rightarrow> bool \<Rightarrow> bool \<Rightarrow> bool" where
  "decode_inv m haveK haveI \<longleftrightarrow>
     ValidMode (Mode m) \<and> (haveK \<longrightarrow> wf_entry (Kernel m)) \<and> (haveI \<longrightarrow> wf_entry (Initrd m))"

lemma decode_inv_update:
  "ValidMode x \<Longrightarrow> decode_inv m hK hI \<Longrightarrow> decode_inv (m\<lparr>Mode := x\<rparr>) hK hI"
  "wf_entry e \<Longrightarrow> decode_inv m hK hI \<Longrightarrow> decode_inv (m\<lparr>Kernel := e\<rparr>) True hI"
  "wf_entry e \<Longrightarrow> decode_inv m hK hI \<Longrightarrow> decode_inv (m\<lparr>Initrd := e\<rparr>) hK True"
  by (simp_all add: decode_inv_def)

lemma decodeLines_inv:
  "decodeLines ls m hK hI = Inr (m', hK', hI') \<Longrightarrow> decode_inv m hK hI \<Longrightarrow> decode_inv m' hK' hI'"
proof (induction ls arbitrary: m hK hI)
  case (Cons line rest)
  have "ValidMode ModeWarn" by (simp add: ValidMode_def)
  with Cons.prems show ?case
    by (auto simp: Let_def split: if_splits option.splits
        intro: Cons.IH decode_inv_update dest!: parseEntry_wf)
qed simp

lemma Decode_wf: "Decode raw = Inr m \<Longrightarrow> wf_manifest m"
proof -
  assume "Decode raw = Inr m"
  then have "decodeLines (tl (split_on NL (butlast raw)))
      \<lparr>Kernel = zeroEntry, Initrd = zeroEntry, Mode = ModeWarn\<rparr> False False = Inr (m, True, True)"
    by (auto simp: Decode_def Let_def split: if_splits)
  then have "decode_inv m True True"
    by (rule decodeLines_inv) (simp add: decode_inv_def ValidMode_def)
  then show ?thesis by (simp add: decode_inv_def wf_manifest_def)
qed

interpretation checksum: codec wf_manifest Encode Decode
  by unfold_locales (rule Decode_Encode)


section \<open>Verification\<close>

lemma KernelRAMOffset_less: "KernelRAMOffset kern = Inr off \<Longrightarrow> unat off < length kern"
  by (auto simp: KernelRAMOffset_def Let_def split: if_splits)

lemma entryFor_wf:
  assumes "entryFor data off = Inr e" "unat off \<le> length data"
  shows "wf_entry e" "unat (Size e) = length data" "Offset e = off" "SHA256 e = Sum256 (drop (unat off) data)"
proof -
  from assms have l: "length data < 2 ^ 32" and e: "e = \<lparr>Size = of_nat (length data), Offset = off, SHA256 = Sum256 (drop (unat off) data)\<rparr>"
    by (auto simp: entryFor_def split: if_splits)
  have u: "unat (of_nat (length data) :: u32) = length data" using l by (intro unat_word_of_nat_less) simp
  show "unat (Size e) = length data" using e u by simp
  with assms(2) show "wf_entry e" by (simp add: e wf_entry_def word_le_nat_alt)
qed (use assms in \<open>auto simp: entryFor_def split: if_splits\<close>)

lemma New_cases:
  assumes "New kern initrd mode = Inr m"
  obtains off k i where "ValidMode mode" "KernelRAMOffset kern = Inr off" "entryFor kern off = Inr k"
    "entryFor initrd 0 = Inr i" "m = \<lparr>Kernel = k, Initrd = i, Mode = mode\<rparr>"
  using assms by (auto simp: New_def split: if_splits)

lemma New_wf: "New kern initrd mode = Inr m \<Longrightarrow> wf_manifest m"
  by (erule New_cases) (auto simp: wf_manifest_def intro: entryFor_wf(1) less_imp_le KernelRAMOffset_less)

lemma verifyOne_Nil:
  "verifyOne name e data off = [] \<longleftrightarrow>
     length data = unat (Size e) \<and> off = Offset e \<and> Sum256 (drop (unat off) data) = SHA256 e"
  by (simp add: verifyOne_def Let_def)

lemma Verify_New_iff:
  assumes "New kern initrd mode = Inr m"
  shows "Verify m kern' initrd' = [] \<longleftrightarrow>
     (\<exists>off. KernelRAMOffset kern = Inr off \<and> KernelRAMOffset kern' = Inr off \<and>
       length kern' = length kern \<and> Sum256 (drop (unat off) kern') = Sum256 (drop (unat off) kern)) \<and>
     length initrd' = length initrd \<and> Sum256 initrd' = Sum256 initrd"
  using assms
proof (cases rule: New_cases)
  case (1 off k i)
  have k: "unat (Size k) = length kern" "Offset k = off" "SHA256 k = Sum256 (drop (unat off) kern)"
    using entryFor_wf [OF 1(3)] KernelRAMOffset_less [OF 1(2)] by simp_all
  have i: "unat (Size i) = length initrd" "Offset i = 0" "SHA256 i = Sum256 initrd"
    using entryFor_wf [OF 1(4)] by simp_all
  show ?thesis
    using 1 k i by (cases "KernelRAMOffset kern'") (auto simp: Verify_def verifyOne_Nil)
qed

lemma Generate_verifies:
  assumes "Generate kern initrd mode = Inr raw"
  shows "\<exists>m. Decode raw = Inr m \<and> Mode m = mode \<and>
    (\<forall>kern' initrd'. Verify m kern' initrd' = [] \<longleftrightarrow>
       (\<exists>off. KernelRAMOffset kern = Inr off \<and> KernelRAMOffset kern' = Inr off \<and>
         length kern' = length kern \<and> Sum256 (drop (unat off) kern') = Sum256 (drop (unat off) kern)) \<and>
       length initrd' = length initrd \<and> Sum256 initrd' = Sum256 initrd)"
proof -
  from assms obtain m where m: "New kern initrd mode = Inr m" and raw: "raw = Encode m"
    by (auto simp: Generate_def)
  have "Decode raw = Inr m" using New_wf [OF m] by (simp add: raw Decode_Encode)
  moreover have "Mode m = mode" using m by (cases rule: New_cases) simp
  ultimately show ?thesis using Verify_New_iff [OF m] by blast
qed

definition sample_kernel :: bytes where
  "sample_kernel = replicate 0x1f1 (CHR 0x00) @ [CHR 0x01] @ replicate 12 (CHR 0x00) @ [CHR 0x55, CHR 0xAA] @
     [CHR 0x00, CHR 0x00] @ ''HdrS'' @ replicate 600 (CHR 0x00)"

lemma KernelRAMOffset_sample: "KernelRAMOffset sample_kernel = Inr 1024"
  by (simp add: KernelRAMOffset_def sample_kernel_def offSetupSects_def offBootFlag_def offHeader_def
      sl_def le16_def nth_append)

lemma Generate_sample: "\<exists>raw. Generate sample_kernel ''initrd'' ModeWarn = Inr raw"
proof -
  have "length sample_kernel = 1118" by (simp add: sample_kernel_def)
  then show ?thesis by (simp add: Generate_def New_def ValidMode_def KernelRAMOffset_sample entryFor_def)
qed


section \<open>Properties\<close>


text \<open>C11: the manifest written for a kernel and an initrd is accepted by the decoder and keeps the mode;
  verification against it is silent exactly for files of the same lengths whose loaded parts have the
  same SHA-256, so in particular for the original files.\<close>

theorem checksum_verifies_its_files:
  assumes "Generate kern initrd mode = Inr raw"
  shows "\<exists>m. Decode raw = Inr m \<and> Mode m = mode \<and>
    (\<forall>kern' initrd'. Verify m kern' initrd' = [] \<longleftrightarrow>
       (\<exists>off. KernelRAMOffset kern = Inr off \<and> KernelRAMOffset kern' = Inr off \<and>
         length kern' = length kern \<and> Sum256 (drop (unat off) kern') = Sum256 (drop (unat off) kern)) \<and>
       length initrd' = length initrd \<and> Sum256 initrd' = Sum256 initrd)"
  using assms by (rule Generate_verifies)

theorem checksum_verifies_its_files_witness:
  "\<exists>raw m. Generate sample_kernel ''initrd'' ModeWarn = Inr raw \<and> Decode raw = Inr m \<and>
     Verify m sample_kernel ''initrd'' = [] \<and> Verify m sample_kernel ''initr'' \<noteq> []"
proof -
  obtain raw where raw: "Generate sample_kernel ''initrd'' ModeWarn = Inr raw"
    using Generate_sample by blast
  from checksum_verifies_its_files [OF raw] obtain m where "Decode raw = Inr m"
    and v: "\<And>i. Verify m sample_kernel i = [] \<longleftrightarrow> length i = length ''initrd'' \<and> Sum256 i = Sum256 ''initrd''"
    by (auto simp: KernelRAMOffset_sample)
  moreover have "Verify m sample_kernel ''initrd'' = []" "Verify m sample_kernel ''initr'' \<noteq> []"
    by (simp_all add: v)
  ultimately show ?thesis using raw by blast
qed

end
