(* ===== verification/Blk_Sum.thy ===== *)
theory Blk_Sum
  imports Payload_Sum
begin

text \<open>
  \<open>src/internal/payloadsum/blksum.go\<close>: the BLKSUM table of SHA-256 chaining states that lets the BIOS
  loader judge every 64 KiB block of the kernel and the initrd as it arrives.  The writer is modelled
  as the code's sequence of copies into a zeroed buffer.  The lemmas show what each table entry is,
  that hashing can be resumed from it, that the reader gets back what the writer recorded, and when
  verification is silent.
\<close>

definition BlockSize :: nat where "BlockSize = 65536"
definition BlkSumVersion :: u32 where "BlkSumVersion = 1"
definition EntriesPerSect :: nat where "EntriesPerSect = 15"
definition blkSectorSize :: nat where "blkSectorSize = 512"
definition blkHashedPrefix :: nat where "blkHashedPrefix = 480"

lemmas blk_defs = BlockSize_def BlkSumVersion_def EntriesPerSect_def blkSectorSize_def blkHashedPrefix_def

record BlkFile =
  BSize :: u32
  BOffset :: u32
  Blocks :: u32
  First :: u32
  BSHA256 :: bytes
  Entries :: "bytes list"

record BlkSum =
  BKernel :: BlkFile
  BInitrd :: BlkFile

datatype blk_error =
    BlkKernel psum_error
  | BlkFileTooBig
  | BlkNotSectors nat
  | BlkSectorHash nat
  | BlkNoHeader
  | BlkVersion u32
  | BlkGeometry
  | BlkDescriptor nat
  | BlkBlocks nat u32 u32
  | BlkPastEnd nat


section \<open>The table of a file\<close>

function chainLoop :: "bytes \<Rightarrow> nat \<Rightarrow> nat \<Rightarrow> u32 list \<Rightarrow> bytes list" where
  "chainLoop p n i h =
     (if i < n then
        if i = n - 1 then [Sum256 p]
        else
          let h' = sha256Blocks h (sl p (i * BlockSize) ((i + 1) * BlockSize))
          in state_bytes h' # chainLoop p n (i + 1) h'
      else [])"
  by pat_completeness auto
termination
  by (relation "measure (\<lambda>(p, n, i, h). n - i)") auto

declare chainLoop.simps [simp del]

definition chainEntries :: "bytes \<Rightarrow> bytes list" where
  "chainEntries p = chainLoop p ((length p + BlockSize - 1) div BlockSize) 0 sha256_init"

definition sectorsFor :: "nat \<Rightarrow> nat" where
  "sectorsFor n = (n + EntriesPerSect - 1) div EntriesPerSect"


section \<open>Writing\<close>

definition descriptorWrites :: "nat \<Rightarrow> nat \<Rightarrow> nat \<Rightarrow> nat \<Rightarrow> nat \<Rightarrow> (nat \<times> bytes) list" where
  "descriptorWrites i sz off n first =
     (let p = 20 + 16 * i in
      [(p, le_bytes 4 sz), (p + 4, le_bytes 4 off), (p + 8, le_bytes 4 n), (p + 12, le_bytes 4 first)])"

definition entryOff :: "nat \<Rightarrow> nat \<Rightarrow> nat" where
  "entryOff first i = (first + i div EntriesPerSect) * blkSectorSize + (i mod EntriesPerSect) * 32"

definition entryWrites :: "nat \<Rightarrow> bytes list \<Rightarrow> (nat \<times> bytes) list" where
  "entryWrites first es = map (\<lambda>i. (entryOff first i, es ! i)) [0..<length es]"

definition sealSector :: "bytes \<Rightarrow> nat \<Rightarrow> bytes" where
  "sealSector out s =
     overwrite out (s * blkSectorSize + blkHashedPrefix)
       (Sum256 (sl out (s * blkSectorSize) (s * blkSectorSize + blkHashedPrefix)))"

definition GenerateBlkSum :: "bytes \<Rightarrow> bytes \<Rightarrow> blk_error + bytes" where
  "GenerateBlkSum kern initrd =
     bindE (mapErr BlkKernel (KernelRAMOffset kern)) (\<lambda>koff.
     if length kern > 0xffffffff \<or> length initrd > 0xffffffff then Inl BlkFileTooBig
     else
       let ram = drop (unat koff) kern;
           ke = chainEntries ram; ie = chainEntries initrd;
           ks = sectorsFor (length ke); is = sectorsFor (length ie);
           out = replicate ((1 + ks + is) * blkSectorSize) (CHR 0x00);
           out = writes out
             ([(0, ''AZBLKSUM''), (8, le_bytes 4 (unat BlkSumVersion)), (12, le_bytes 4 BlockSize),
               (16, le_bytes 4 EntriesPerSect)] @
              descriptorWrites 0 (length kern) (unat koff) (length ke) 1 @
              descriptorWrites 1 (length initrd) 0 (length ie) (1 + ks) @
              [(52, Sum256 ram), (84, Sum256 initrd)]);
           out = writes out (entryWrites 1 ke);
           out = writes out (entryWrites (1 + ks) ie)
       in Inr (foldl sealSector out [0..<1 + ks + is]))"


section \<open>Reading\<close>

definition sectorOk :: "bytes \<Rightarrow> nat \<Rightarrow> bool" where
  "sectorOk raw s =
     (let sec = sl raw (s * blkSectorSize) ((s + 1) * blkSectorSize)
      in Sum256 (take blkHashedPrefix sec) = drop blkHashedPrefix sec)"

text \<open>The count check is in \<open>uint32\<close>, as in the code: \<open>l + BlockSize - 1\<close> may wrap.\<close>

definition decodeBlkFile :: "bytes \<Rightarrow> nat \<Rightarrow> blk_error + BlkFile" where
  "decodeBlkFile raw i =
     (let h = take blkSectorSize raw;
          p = drop (20 + 16 * i) h;
          sz = le32 p; off = le32 (drop 4 p); blocks = le32 (drop 8 p); first = le32 (drop 12 p);
          digest = sl h (52 + 32 * i) (52 + 32 * i + 32);
          l = sz - off
      in if off > sz \<or> first = 0 then Inl (BlkDescriptor i)
         else if blocks \<noteq> (l + 65536 - 1) div 65536 then Inl (BlkBlocks i blocks l)
         else if (unat first + sectorsFor (unat blocks)) * blkSectorSize > length raw then Inl (BlkPastEnd i)
         else Inr \<lparr>BSize = sz, BOffset = off, Blocks = blocks, First = first, BSHA256 = digest,
           Entries = map (\<lambda>k. sl raw (entryOff (unat first) k) (entryOff (unat first) k + 32)) [0..<unat blocks]\<rparr>)"

definition DecodeBlkSum :: "bytes \<Rightarrow> blk_error + BlkSum" where
  "DecodeBlkSum raw =
     (if length raw < blkSectorSize \<or> length raw mod blkSectorSize \<noteq> 0 then Inl (BlkNotSectors (length raw))
      else
        case find (\<lambda>s. \<not> sectorOk raw s) [0..<length raw div blkSectorSize] of
          Some s \<Rightarrow> Inl (BlkSectorHash s)
        | None \<Rightarrow>
            let h = take blkSectorSize raw in
            if take 8 h \<noteq> ''AZBLKSUM'' then Inl BlkNoHeader
            else if le32 (drop 8 h) \<noteq> BlkSumVersion then Inl (BlkVersion (le32 (drop 8 h)))
            else if le32 (drop 12 h) \<noteq> of_nat BlockSize \<or> le32 (drop 16 h) \<noteq> of_nat EntriesPerSect
            then Inl BlkGeometry
            else
              bindE (decodeBlkFile raw 0) (\<lambda>k.
              bindE (decodeBlkFile raw 1) (\<lambda>i.
              Inr \<lparr>BKernel = k, BInitrd = i\<rparr>)))"


section \<open>Verifying\<close>

datatype blk_problem =
    BNotBzImage psum_error
  | BStale string
  | BExtent string
  | BBlock string nat

text \<open>The comparison loop indexes \<open>Entries\<close> without a length check: \<^const>\<open>None\<close> is the panic.\<close>

fun firstBadBlock :: "bytes list \<Rightarrow> bytes list \<Rightarrow> nat \<Rightarrow> nat option option" where
  "firstBadBlock [] es k = Some None"
| "firstBadBlock (w # ws) [] k = None"
| "firstBadBlock (w # ws) (e # es) k = (if w \<noteq> e then Some (Some k) else firstBadBlock ws es (Suc k))"

definition verifyBlkOne :: "string \<Rightarrow> BlkFile \<Rightarrow> Entry \<Rightarrow> bytes \<Rightarrow> u32 \<Rightarrow> blk_problem list option" where
  "verifyBlkOne name f s data off =
     (if BSize f \<noteq> Size s \<or> BOffset f \<noteq> Offset s \<or> BSHA256 f \<noteq> SHA256 s then Some [BStale name]
      else if length data \<noteq> unat (BSize f) \<or> off \<noteq> BOffset f then Some [BExtent name]
      else
        case firstBadBlock (chainEntries (drop (unat off) data)) (Entries f) 0 of
          None \<Rightarrow> None
        | Some None \<Rightarrow> Some []
        | Some (Some k) \<Rightarrow> Some [BBlock name k])"

definition VerifyBlkSum :: "BlkSum \<Rightarrow> Manifest \<Rightarrow> bytes \<Rightarrow> bytes \<Rightarrow> blk_problem list option" where
  "VerifyBlkSum b m kern initrd =
     (case KernelRAMOffset kern of
        Inl e \<Rightarrow> Some [BNotBzImage e]
      | Inr koff \<Rightarrow>
          (case verifyBlkOne ''KERNEL'' (BKernel b) (Kernel m) kern koff of
             None \<Rightarrow> None
           | Some ks \<Rightarrow>
               map_option ((@) ks) (verifyBlkOne ''INITRD'' (BInitrd b) (Initrd m) initrd 0)))"


section \<open>What the entries are\<close>

definition blocksOf :: "nat \<Rightarrow> nat" where
  "blocksOf len = (len + BlockSize - 1) div BlockSize"

definition chainEntry :: "bytes \<Rightarrow> nat \<Rightarrow> bytes" where
  "chainEntry p k =
     (if Suc k = blocksOf (length p) then Sum256 p
      else state_bytes (sha256Blocks sha256_init (take (Suc k * BlockSize) p)))"

lemma block_inside: "Suc k < blocksOf len \<Longrightarrow> Suc k * BlockSize < len"
  using ceil_div_bounds(2) [of BlockSize "Suc k" len] by (simp add: blocksOf_def BlockSize_def)

lemma take_block: "take (Suc i * BlockSize) p = take (i * BlockSize) p @ sl p (i * BlockSize) ((i + 1) * BlockSize)"
  using take_add [of "i * BlockSize" BlockSize p] by (simp add: sl_def add.commute)

lemma blocks_aligned: "64 dvd i * BlockSize"
  by (simp add: BlockSize_def)

lemma chainLoop_entries:
  assumes "n = blocksOf (length p)" "h = sha256Blocks sha256_init (take (i * BlockSize) p)"
  shows "chainLoop p n i h = map (chainEntry p) [i..<n]"
  using assms
proof (induction p n i h rule: chainLoop.induct)
  case (1 p n i h)
  consider "n \<le> i" | "Suc i = n" | "Suc i < n" by linarith
  then show ?case
  proof cases
    case 1
    then show ?thesis by (simp add: chainLoop.simps [of p n i h])
  next
    case 2
    then have "[i..<n] = [i]" by auto
    moreover have "chainLoop p n i h = [Sum256 p]" using 2 by (subst chainLoop.simps) auto
    moreover have "chainEntry p i = Sum256 p" using 2 "1.prems"(1) by (simp add: chainEntry_def)
    ultimately show ?thesis by simp
  next
    case 3
    let ?h = "sha256Blocks h (sl p (i * BlockSize) ((i + 1) * BlockSize))"
    have "i * BlockSize \<le> length p" using block_inside [of i "length p"] 3 "1.prems" by simp
    then have h: "?h = sha256Blocks sha256_init (take ((i + 1) * BlockSize) p)"
      using take_block [of i p] "1.prems"(2) by (simp add: sha256Blocks_append blocks_aligned)
    have "chainLoop p n (i + 1) ?h = map (chainEntry p) [i + 1..<n]"
      using "1.IH" [OF _ _ refl "1.prems"(1) h] 3 by simp
    moreover have "chainEntry p i = state_bytes ?h"
      using 3 "1.prems"(1) h by (simp add: chainEntry_def)
    moreover have "chainLoop p n i h = state_bytes ?h # chainLoop p n (i + 1) ?h"
      using 3 by (subst chainLoop.simps) (auto simp: Let_def)
    ultimately show ?thesis using 3 by (simp add: upt_conv_Cons)
  qed
qed

lemma chainEntries_eq: "chainEntries p = map (chainEntry p) [0..<blocksOf (length p)]"
proof -
  have "sha256_init = sha256Blocks sha256_init (take (0 * BlockSize) p)"
    by (simp add: sha256Blocks.simps)
  from chainLoop_entries [OF refl this] show ?thesis
    by (simp add: chainEntries_def blocksOf_def)
qed

lemma length_chainEntries [simp]: "length (chainEntries p) = blocksOf (length p)"
  by (simp add: chainEntries_eq)

lemma length_chainEntry [simp]: "length (chainEntry p k) = 32"
  by (simp add: chainEntry_def length_state_bytes length_sha256Blocks sha256_init_def)

lemma chainEntry_resume:
  assumes "Suc k < blocksOf (length p)"
  shows "Sum256 p = state_bytes (sha256Blocks (bytes_state (chainEntry p k)) (drop (Suc k * BlockSize) p @ sha_pad (length p)))"
proof -
  let ?n = "Suc k * BlockSize"
  have al: "64 dvd length (take ?n p)"
    using block_inside [OF assms] blocks_aligned [of "Suc k"] by (simp only: length_take min_absorb2 less_imp_le)
  have "Sum256 p = state_bytes (sha256Blocks sha256_init (take ?n p @ (drop ?n p @ sha_pad (length p))))"
    by (simp only: Sum256_def append_assoc [symmetric] append_take_drop_id)
  then have "Sum256 p = state_bytes (sha256Blocks (sha256Blocks sha256_init (take ?n p)) (drop ?n p @ sha_pad (length p)))"
    by (simp only: sha256Blocks_append [OF al])
  moreover have "bytes_state (chainEntry p k) = sha256Blocks sha256_init (take ?n p)"
    using assms by (simp add: chainEntry_def bytes_state_bytes length_sha256Blocks sha256_init_def)
  ultimately show ?thesis by simp
qed


section \<open>The image\<close>

lemma entryOff_0 [simp]: "entryOff first 0 = first * blkSectorSize"
  by (simp add: entryOff_def)

lemma entryOff_Suc: "entryOff first i + 32 \<le> entryOff first (Suc i)"
  by (simp add: entryOff_def blk_defs div_Suc mod_Suc)

lemma entryOff_end: "entryOff first n \<le> (first + sectorsFor n) * blkSectorSize"
proof (cases "n mod 15 = 0")
  case True
  have "n div 15 \<le> (n + 14) div 15" by (rule div_le_mono) simp
  then show ?thesis using True by (simp add: entryOff_def sectorsFor_def blk_defs)
next
  case False
  have "n mod 15 < 15" by simp
  have "n + 14 = (n mod 15 + 14) + n div 15 * 15" by simp
  then have "(n + 14) div 15 = n div 15 + (n mod 15 + 14) div 15" by (metis div_mult_self1 zero_neq_numeral)
  moreover have "1 \<le> (n mod 15 + 14) div 15" using False by simp
  ultimately have "n div 15 * 512 + n mod 15 * 32 \<le> (n + 14) div 15 * 512" using \<open>n mod 15 < 15\<close> by linarith
  then show ?thesis by (simp add: entryOff_def sectorsFor_def blk_defs add.commute)
qed

lemma entryOff_sector:
  "(first + i div EntriesPerSect) * blkSectorSize \<le> entryOff first i"
  "entryOff first i + 32 \<le> (first + i div EntriesPerSect) * blkSectorSize + blkHashedPrefix"
  by (simp_all add: entryOff_def blk_defs)

lemma entryWrites_ascending:
  assumes "\<forall>e \<in> set es. length e = 32"
  shows "ascending (first * blkSectorSize) (entryWrites first es) ((first + sectorsFor (length es)) * blkSectorSize)"
proof -
  have "ascending (entryOff first 0) (map (\<lambda>i. (entryOff first i, es ! i)) [0..<n]) (entryOff first n)"
    if "n \<le> length es" for n
    using that
  proof (induction n)
    case (Suc n)
    then show ?case using assms entryOff_Suc [of first n]
      by (simp only: upt_Suc_append map_append le0 if_True) (rule ascending_append, auto)
  qed simp
  from ascending_append [OF this [OF le_refl], of "[]"] show ?thesis
    using entryOff_end [of first "length es"] by (simp add: entryWrites_def)
qed

lemma sealSector_length:
  "(s + 1) * blkSectorSize \<le> length out \<Longrightarrow> length (sealSector out s) = length out"
  by (simp add: sealSector_def blk_defs)

lemma sealSector_prefix:
  assumes "(s + 1) * blkSectorSize \<le> length out" "t * blkSectorSize \<le> a" "e \<le> t * blkSectorSize + blkHashedPrefix"
  shows "sl (sealSector out s) a e = sl out a e"
proof -
  have "e \<le> s * blkSectorSize + blkHashedPrefix \<or> (s + 1) * blkSectorSize \<le> a"
    using assms by (cases "t \<le> s") (auto simp: blk_defs)
  then show ?thesis
    using assms unfolding sealSector_def by (intro sl_overwrite_other) (auto simp: blk_defs)
qed

definition sealed :: "bytes \<Rightarrow> nat \<Rightarrow> bytes" where
  "sealed out n = foldl sealSector out [0..<n]"

lemma sealed_Suc: "sealed out (Suc n) = sealSector (sealed out n) n"
  by (simp add: sealed_def)

lemma sealed_length [simp]: "n * blkSectorSize \<le> length out \<Longrightarrow> length (sealed out n) = length out"
  by (induction n) (simp_all add: sealed_Suc sealSector_length, simp add: sealed_def)

lemma sealed_prefix:
  assumes "n * blkSectorSize \<le> length out" "t * blkSectorSize \<le> a" "e \<le> t * blkSectorSize + blkHashedPrefix"
  shows "sl (sealed out n) a e = sl out a e"
  using assms
proof (induction n)
  case (Suc n)
  then show ?case using sealSector_prefix [of n "sealed out n" t a e] by (simp add: sealed_Suc)
qed (simp add: sealed_def)

lemma sealed_hash:
  assumes "n * blkSectorSize \<le> length out" "s < n"
  shows "sl (sealed out n) (s * blkSectorSize + blkHashedPrefix) ((s + 1) * blkSectorSize) =
    Sum256 (sl out (s * blkSectorSize) (s * blkSectorSize + blkHashedPrefix))"
  using assms
proof (induction n)
  case (Suc n)
  then have fits: "(n + 1) * blkSectorSize \<le> length (sealed out n)" by simp
  show ?case
  proof (cases "s = n")
    case True
    have "sl (sealSector (sealed out n) n) (n * blkSectorSize + blkHashedPrefix) ((n + 1) * blkSectorSize) =
        Sum256 (sl (sealed out n) (n * blkSectorSize) (n * blkSectorSize + blkHashedPrefix))"
      unfolding sealSector_def using fits by (intro sl_overwrite_same) (simp_all add: blk_defs)
    then show ?thesis using True Suc.prems sealed_prefix [of n out n] by (simp add: sealed_Suc)
  next
    case False
    have "sl (sealSector (sealed out n) n) (s * blkSectorSize + blkHashedPrefix) ((s + 1) * blkSectorSize) =
        sl (sealed out n) (s * blkSectorSize + blkHashedPrefix) ((s + 1) * blkSectorSize)"
      unfolding sealSector_def using fits False Suc.prems by (intro sl_overwrite_other) (auto simp: blk_defs)
    then show ?thesis using False Suc by (simp add: sealed_Suc)
  qed
qed simp


section \<open>Round trip\<close>

definition blkFileOf :: "bytes \<Rightarrow> u32 \<Rightarrow> nat \<Rightarrow> BlkFile" where
  "blkFileOf data off first =
     (let ram = drop (unat off) data in
      \<lparr>BSize = of_nat (length data), BOffset = off, Blocks = of_nat (blocksOf (length ram)), First = of_nat first,
       BSHA256 = Sum256 ram, Entries = chainEntries ram\<rparr>)"

definition kernSectors :: "bytes \<Rightarrow> u32 \<Rightarrow> nat" where
  "kernSectors kern koff = sectorsFor (blocksOf (length (drop (unat koff) kern)))"

definition imageSectors :: "bytes \<Rightarrow> u32 \<Rightarrow> bytes \<Rightarrow> nat" where
  "imageSectors kern koff initrd = 1 + kernSectors kern koff + sectorsFor (blocksOf (length initrd))"

definition imageWrites :: "bytes \<Rightarrow> u32 \<Rightarrow> bytes \<Rightarrow> (nat \<times> bytes) list" where
  "imageWrites kern koff initrd =
     (let ram = drop (unat koff) kern; ks = kernSectors kern koff in
      ([(0, ''AZBLKSUM''), (8, le_bytes 4 1), (12, le_bytes 4 65536), (16, le_bytes 4 15)] @
       descriptorWrites 0 (length kern) (unat koff) (blocksOf (length ram)) 1 @
       descriptorWrites 1 (length initrd) 0 (blocksOf (length initrd)) (1 + ks) @
       [(52, Sum256 ram), (84, Sum256 initrd)]) @
      entryWrites 1 (chainEntries ram) @ entryWrites (1 + ks) (chainEntries initrd))"

definition blkImage :: "bytes \<Rightarrow> u32 \<Rightarrow> bytes \<Rightarrow> bytes" where
  "blkImage kern koff initrd =
     sealed (writes (replicate (imageSectors kern koff initrd * blkSectorSize) (CHR 0x00)) (imageWrites kern koff initrd))
       (imageSectors kern koff initrd)"

lemma GenerateBlkSum_image:
  "GenerateBlkSum kern initrd = Inr raw \<longleftrightarrow>
     (\<exists>koff. KernelRAMOffset kern = Inr koff \<and> length kern < 2 ^ 32 \<and> length initrd < 2 ^ 32 \<and>
       raw = blkImage kern koff initrd)"
  by (cases "KernelRAMOffset kern")
    (auto simp: GenerateBlkSum_def Let_def blkImage_def imageSectors_def kernSectors_def imageWrites_def sealed_def
      writes_append blk_defs not_less)

lemma chainEntries_length: "\<forall>e \<in> set (chainEntries p). length e = 32"
  by (auto simp: chainEntries_eq)

lemma imageWrites_ascending:
  "ascending 0 (imageWrites kern koff initrd) (imageSectors kern koff initrd * blkSectorSize)"
proof -
  let ?ram = "drop (unat koff) kern"
  let ?ks = "kernSectors kern koff"
  have h: "ascending 0 ([(0, ''AZBLKSUM''), (8, le_bytes 4 1), (12, le_bytes 4 65536), (16, le_bytes 4 15)] @
       descriptorWrites 0 (length kern) (unat koff) (blocksOf (length ?ram)) 1 @
       descriptorWrites 1 (length initrd) 0 (blocksOf (length initrd)) (1 + ?ks) @
       [(52, Sum256 ?ram), (84, Sum256 initrd)]) (1 * blkSectorSize)"
    by (simp add: descriptorWrites_def Let_def blk_defs)
  have k: "ascending (1 * blkSectorSize) (entryWrites 1 (chainEntries ?ram)) ((1 + ?ks) * blkSectorSize)"
    using entryWrites_ascending [OF chainEntries_length, of 1 ?ram] by (simp add: kernSectors_def)
  have i: "ascending ((1 + ?ks) * blkSectorSize) (entryWrites (1 + ?ks) (chainEntries initrd))
      (imageSectors kern koff initrd * blkSectorSize)"
    using entryWrites_ascending [OF chainEntries_length, of "1 + ?ks" initrd] by (simp add: imageSectors_def)
  show ?thesis using ascending_append [OF h ascending_append [OF k i]] by (simp only: imageWrites_def Let_def)
qed

lemma blkImage_length [simp]: "length (blkImage kern koff initrd) = imageSectors kern koff initrd * blkSectorSize"
  using length_writes [OF imageWrites_ascending, of _ _ _ "replicate _ _"] by (simp add: blkImage_def)

lemma blkImage_read:
  assumes "(off, b) \<in> set (imageWrites kern koff initrd)" "t * blkSectorSize \<le> off"
    "off + length b \<le> t * blkSectorSize + blkHashedPrefix"
  shows "sl (blkImage kern koff initrd) off (off + length b) = b"
proof -
  let ?n = "imageSectors kern koff initrd"
  let ?out = "writes (replicate (?n * blkSectorSize) (CHR 0x00)) (imageWrites kern koff initrd)"
  have "length ?out = ?n * blkSectorSize"
    by (subst length_writes [OF imageWrites_ascending]) simp_all
  then have "sl (blkImage kern koff initrd) off (off + length b) = sl ?out off (off + length b)"
    unfolding blkImage_def using assms(2,3) by (intro sealed_prefix) simp_all
  also have "\<dots> = b" by (rule writes_read [OF imageWrites_ascending _ assms(1)]) simp
  finally show ?thesis .
qed

lemma blkImage_sectorOk:
  assumes "s < imageSectors kern koff initrd"
  shows "sectorOk (blkImage kern koff initrd) s"
proof -
  let ?n = "imageSectors kern koff initrd"
  let ?out = "writes (replicate (?n * blkSectorSize) (CHR 0x00)) (imageWrites kern koff initrd)"
  let ?a = "s * blkSectorSize"
  have len: "?n * blkSectorSize \<le> length ?out"
    by (subst length_writes [OF imageWrites_ascending]) simp_all
  have "sl (blkImage kern koff initrd) ?a (?a + blkHashedPrefix) = sl ?out ?a (?a + blkHashedPrefix)"
    unfolding blkImage_def by (intro sealed_prefix [OF len, of s]) simp_all
  moreover have "sl (blkImage kern koff initrd) (?a + blkHashedPrefix) ((s + 1) * blkSectorSize) =
      Sum256 (sl ?out ?a (?a + blkHashedPrefix))"
    unfolding blkImage_def by (rule sealed_hash [OF len assms])
  moreover have "?a + blkHashedPrefix \<le> (s + 1) * blkSectorSize" by (simp add: blk_defs)
  ultimately show ?thesis by (simp only: sectorOk_def Let_def take_sl drop_sl)
qed

lemma le32_field:
  assumes "sl raw k (k + 4) = le_bytes 4 v" "k + 4 \<le> 512"
  shows "le32 (drop k (take 512 raw)) = of_nat v"
proof -
  have "take 4 (drop k (take 512 raw)) = sl raw k (k + 4)"
    using assms(2) by (simp add: sl_def take_drop min_def)
  then show ?thesis
    by (simp only: le32_def assms(1) le_val_le_bytes of_nat_mod_word32)
qed

lemma blocks_word:
  assumes "L < 2 ^ 32"
  shows "((of_nat (blocksOf L) :: u32) = (of_nat L + 65536 - 1) div 65536) \<longleftrightarrow> L + 65535 < 2 ^ 32"
proof -
  have w: "(of_nat L + 65536 - 1 :: u32) = of_nat (L + 65535)" by simp
  have b: "blocksOf L = (L + 65535) div 65536" by (simp add: blocksOf_def BlockSize_def)
  have "blocksOf L < 2 ^ 32" using assms by (simp add: b)
  then have u: "unat (of_nat (blocksOf L) :: u32) = blocksOf L" by (intro unat_word_of_nat_less) simp
  have d: "unat ((of_nat (L + 65535) :: u32) div 65536) = unat (of_nat (L + 65535) :: u32) div 65536"
    by (simp add: unat_div_distrib)
  show ?thesis
  proof (cases "L + 65535 < 2 ^ 32")
    case True
    then have "unat (of_nat (L + 65535) :: u32) = L + 65535" by (intro unat_word_of_nat_less) simp
    then show ?thesis using True u d b by (simp only: w word_unat_eq_iff) simp
  next
    case False
    have "unat (of_nat (L + 65535) :: u32) = (L + 65535) mod 2 ^ 32" by (rule unat_of_nat_u32)
    also have "\<dots> = L + 65535 - 2 ^ 32" using False assms by (simp add: mod_if)
    finally have "unat ((of_nat (L + 65535) :: u32) div 65536) = 0" using d assms by simp
    moreover have "blocksOf L \<noteq> 0" using False by (simp add: b)
    ultimately show ?thesis using False u by (simp only: w word_unat_eq_iff)
  qed
qed

lemma decodeBlkFile_fields:
  fixes i sz off first :: nat
  defines "p \<equiv> 20 + 16 * i" and "L \<equiv> sz - off"
  assumes fields: "sl raw p (p + 4) = le_bytes 4 sz" "sl raw (p + 4) (p + 4 + 4) = le_bytes 4 off"
      "sl raw (p + 8) (p + 8 + 4) = le_bytes 4 (blocksOf L)" "sl raw (p + 12) (p + 12 + 4) = le_bytes 4 first"
    and digest: "sl raw (52 + 32 * i) (52 + 32 * i + 32) = digest"
    and bounds: "i < 2" "sz < 2 ^ 32" "off \<le> sz" "0 < first" "first < 2 ^ 32"
      "(first + sectorsFor (blocksOf L)) * blkSectorSize \<le> length raw"
    and entries: "\<And>k. k < blocksOf L \<Longrightarrow> sl raw (entryOff first k) (entryOff first k + 32) = e k"
  shows "decodeBlkFile raw i =
    (if L + 65535 < 2 ^ 32
     then Inr \<lparr>BSize = of_nat sz, BOffset = of_nat off, Blocks = of_nat (blocksOf L), First = of_nat first,
            BSHA256 = digest, Entries = map e [0..<blocksOf L]\<rparr>
     else Inl (BlkBlocks i (of_nat (blocksOf L)) (of_nat L)))"
proof -
  have L: "L < 2 ^ 32" using bounds by (simp add: L_def)
  let ?h = "take 512 raw"
  have f: "le32 (drop p ?h) = of_nat sz" "le32 (drop 4 (drop p ?h)) = of_nat off"
    "le32 (drop 8 (drop p ?h)) = of_nat (blocksOf L)" "le32 (drop 12 (drop p ?h)) = of_nat first"
    using fields [THEN le32_field] bounds(1) by (simp_all add: p_def add.commute)
  have u: "unat (of_nat sz :: u32) = sz" "unat (of_nat off :: u32) = off" "unat (of_nat first :: u32) = first"
    using bounds by (auto intro!: unat_word_of_nat_less)
  have "blocksOf L < 2 ^ 32" using L by (simp add: blocksOf_def BlockSize_def)
  then have ub: "unat (of_nat (blocksOf L) :: u32) = blocksOf L" by (intro unat_word_of_nat_less) simp
  have l: "(of_nat sz - of_nat off :: u32) = of_nat L" using bounds(3) by (simp add: L_def)
  have c: "\<not> of_nat off > (of_nat sz :: u32)" "(of_nat first :: u32) \<noteq> 0"
    using u bounds by (auto simp: word_less_nat_alt)
  have dg: "sl ?h (52 + 32 * i) (52 + 32 * i + 32) = digest"
    using digest bounds(1) by (simp add: sl_def take_drop min_def)
  have es: "map (\<lambda>k. sl raw (entryOff first k) (entryOff first k + 32)) [0..<blocksOf L] = map e [0..<blocksOf L]"
    using entries by simp
  show ?thesis
    unfolding decodeBlkFile_def Let_def blkSectorSize_def p_def [symmetric] f l dg
    using blocks_word [OF L] c bounds(6) by (simp add: u ub es blkSectorSize_def del: of_nat_add)
qed

lemma imageWrites_header:
  "x \<in> {(0, ''AZBLKSUM''), (8, le_bytes 4 1), (12, le_bytes 4 65536), (16, le_bytes 4 15),
      (52, Sum256 (drop (unat koff) kern)), (84, Sum256 initrd)} \<Longrightarrow> x \<in> set (imageWrites kern koff initrd)"
  "x \<in> set (descriptorWrites 0 (length kern) (unat koff) (blocksOf (length (drop (unat koff) kern))) 1) \<Longrightarrow>
     x \<in> set (imageWrites kern koff initrd)"
  "x \<in> set (descriptorWrites 1 (length initrd) 0 (blocksOf (length initrd)) (1 + kernSectors kern koff)) \<Longrightarrow>
     x \<in> set (imageWrites kern koff initrd)"
  by (auto simp: imageWrites_def Let_def)

lemma imageWrites_entries:
  "k < blocksOf (length (drop (unat koff) kern)) \<Longrightarrow>
     (entryOff 1 k, chainEntry (drop (unat koff) kern) k) \<in> set (imageWrites kern koff initrd)"
  "k < blocksOf (length initrd) \<Longrightarrow>
     (entryOff (1 + kernSectors kern koff) k, chainEntry initrd k) \<in> set (imageWrites kern koff initrd)"
  by (auto simp: imageWrites_def Let_def entryWrites_def chainEntries_eq image_iff)

lemma blkImage_header:
  "(off, b) \<in> set (imageWrites kern koff initrd) \<Longrightarrow> off + length b \<le> 480 \<Longrightarrow>
     sl (blkImage kern koff initrd) off (off + length b) = b"
  by (rule blkImage_read [where t = 0]) (simp_all add: blk_defs)

lemma blkImage_entry:
  "(entryOff first k, b) \<in> set (imageWrites kern koff initrd) \<Longrightarrow> length b = 32 \<Longrightarrow>
     sl (blkImage kern koff initrd) (entryOff first k) (entryOff first k + 32) = b"
  using blkImage_read [of "entryOff first k" b kern koff initrd "first + k div EntriesPerSect"] entryOff_sector [of first k]
  by simp

lemma sectorsFor_small: "L < 2 ^ 32 \<Longrightarrow> sectorsFor (blocksOf L) < 65536"
  by (simp add: sectorsFor_def blocksOf_def blk_defs)

lemma decodeBlkFile_kernel:
  assumes "unat koff \<le> length kern" "length kern < 2 ^ 32"
  shows "decodeBlkFile (blkImage kern koff initrd) 0 =
    (if length kern - unat koff + 65535 < 2 ^ 32 then Inr (blkFileOf kern koff 1)
     else Inl (BlkBlocks 0 (of_nat (blocksOf (length kern - unat koff))) (of_nat (length kern - unat koff))))"
proof -
  let ?raw = "blkImage kern koff initrd" and ?ram = "drop (unat koff) kern"
  note d = imageWrites_header(2) [of _ kern koff initrd, THEN blkImage_header]
  have "sl ?raw 20 (20 + 4) = le_bytes 4 (length kern)" "sl ?raw 24 (24 + 4) = le_bytes 4 (unat koff)"
    "sl ?raw 28 (28 + 4) = le_bytes 4 (blocksOf (length ?ram))" "sl ?raw 32 (32 + 4) = le_bytes 4 1"
    using d [of 20] d [of 24] d [of 28] d [of 32] by (simp_all add: descriptorWrites_def Let_def)
  moreover have "sl ?raw 52 (52 + 32) = Sum256 ?ram"
    using blkImage_header [OF imageWrites_header(1), of 52 "Sum256 ?ram"] by simp
  moreover have "sl ?raw (entryOff 1 k) (entryOff 1 k + 32) = chainEntry ?ram k" if "k < blocksOf (length ?ram)" for k
    by (rule blkImage_entry [OF imageWrites_entries(1) [OF that]]) simp
  ultimately show ?thesis
    using assms
    by (subst decodeBlkFile_fields [of ?raw 0 "length kern" "unat koff" 1 "Sum256 ?ram" "chainEntry ?ram"])
      (simp_all add: imageSectors_def kernSectors_def blkFileOf_def chainEntries_eq Let_def)
qed

lemma decodeBlkFile_initrd:
  assumes "length kern < 2 ^ 32" "length initrd < 2 ^ 32"
  shows "decodeBlkFile (blkImage kern koff initrd) 1 =
    (if length initrd + 65535 < 2 ^ 32 then Inr (blkFileOf initrd 0 (1 + kernSectors kern koff))
     else Inl (BlkBlocks 1 (of_nat (blocksOf (length initrd))) (of_nat (length initrd))))"
proof -
  let ?raw = "blkImage kern koff initrd" and ?f = "1 + kernSectors kern koff"
  note d = imageWrites_header(3) [of _ initrd kern koff, THEN blkImage_header]
  have "sl ?raw 36 (36 + 4) = le_bytes 4 (length initrd)" "sl ?raw 40 (40 + 4) = le_bytes 4 0"
    "sl ?raw 44 (44 + 4) = le_bytes 4 (blocksOf (length initrd))" "sl ?raw 48 (48 + 4) = le_bytes 4 ?f"
    using d [of 36] d [of 40] d [of 44] d [of 48] by (simp_all add: descriptorWrites_def Let_def)
  moreover have "sl ?raw 84 (84 + 32) = Sum256 initrd"
    using blkImage_header [OF imageWrites_header(1), of 84 "Sum256 initrd"] by simp
  moreover have "sl ?raw (entryOff ?f k) (entryOff ?f k + 32) = chainEntry initrd k" if "k < blocksOf (length initrd)" for k
    by (rule blkImage_entry [OF imageWrites_entries(2) [OF that]]) simp
  moreover have "?f < 2 ^ 32"
    using sectorsFor_small [of "length (drop (unat koff) kern)"] less_imp_diff_less [OF assms(1), of "unat koff"]
    by (simp add: kernSectors_def)
  ultimately show ?thesis
    using assms
    by (subst decodeBlkFile_fields [of ?raw 1 "length initrd" 0 ?f "Sum256 initrd" "chainEntry initrd"])
      (simp_all add: imageSectors_def blkFileOf_def chainEntries_eq Let_def)
qed

definition blkSumOf :: "bytes \<Rightarrow> u32 \<Rightarrow> bytes \<Rightarrow> BlkSum" where
  "blkSumOf kern koff initrd =
     \<lparr>BKernel = blkFileOf kern koff 1, BInitrd = blkFileOf initrd 0 (1 + kernSectors kern koff)\<rparr>"

lemma DecodeBlkSum_image:
  "DecodeBlkSum (blkImage kern koff initrd) =
     bindE (decodeBlkFile (blkImage kern koff initrd) 0) (\<lambda>k.
     bindE (decodeBlkFile (blkImage kern koff initrd) 1) (\<lambda>i.
     Inr \<lparr>BKernel = k, BInitrd = i\<rparr>))"
proof -
  let ?raw = "blkImage kern koff initrd"
  note h = imageWrites_header(1) [of _ koff kern initrd, THEN blkImage_header]
  have l8: "length ''AZBLKSUM'' = 8" by simp
  have "sl ?raw 0 (0 + 8) = ''AZBLKSUM''" using h [of 0 "''AZBLKSUM''"] unfolding l8 by simp
  then have magic: "take 8 (take 512 ?raw) = ''AZBLKSUM''" by (simp add: sl_def)
  have "le32 (drop 8 (take 512 ?raw)) = of_nat 1"
    by (rule le32_field) (use h [of 8 "le_bytes 4 1"] in simp_all)
  moreover have "le32 (drop 12 (take 512 ?raw)) = of_nat 65536"
    by (rule le32_field) (use h [of 12 "le_bytes 4 65536"] in simp_all)
  moreover have "le32 (drop 16 (take 512 ?raw)) = of_nat 15"
    by (rule le32_field) (use h [of 16 "le_bytes 4 15"] in simp_all)
  ultimately have fields: "le32 (drop 8 (take 512 ?raw)) = 1" "le32 (drop 12 (take 512 ?raw)) = 65536"
    "le32 (drop 16 (take 512 ?raw)) = 15"
    by simp_all
  have ok: "find (\<lambda>s. \<not> sectorOk ?raw s) [0..<length ?raw div blkSectorSize] = None"
    by (auto simp: find_None_iff blkImage_sectorOk blkSectorSize_def)
  have len: "0 < imageSectors kern koff initrd" by (simp add: imageSectors_def)
  have "take 8 ?raw = ''AZBLKSUM''" using magic by simp
  then show ?thesis
    unfolding DecodeBlkSum_def ok using len
    by (simp add: fields blkSectorSize_def BlkSumVersion_def BlockSize_def EntriesPerSect_def Let_def)
qed

lemma DecodeBlkSum_GenerateBlkSum:
  assumes "GenerateBlkSum kern initrd = Inr raw" "KernelRAMOffset kern = Inr koff"
  shows "DecodeBlkSum raw = Inr b \<longleftrightarrow>
    length kern - unat koff + 65535 < 2 ^ 32 \<and> length initrd + 65535 < 2 ^ 32 \<and> b = blkSumOf kern koff initrd"
proof -
  have raw: "raw = blkImage kern koff initrd" and len: "length kern < 2 ^ 32" "length initrd < 2 ^ 32"
    using assms by (auto simp: GenerateBlkSum_image)
  have off: "unat koff \<le> length kern" using KernelRAMOffset_less [OF assms(2)] by simp
  show ?thesis
    unfolding raw DecodeBlkSum_image decodeBlkFile_kernel [OF off len(1)] decodeBlkFile_initrd [OF len]
    by (auto simp: blkSumOf_def)
qed


section \<open>Verification\<close>

definition blkFits :: "BlkFile \<Rightarrow> bool" where
  "blkFits f \<longleftrightarrow> unat (BSize f) - unat (BOffset f) + 65535 < 2 ^ 32"

definition describes :: "BlkFile \<Rightarrow> Entry \<Rightarrow> bytes \<Rightarrow> u32 \<Rightarrow> bool" where
  "describes f s data off \<longleftrightarrow>
     BSize f = Size s \<and> BOffset f = Offset s \<and> BSHA256 f = SHA256 s \<and>
     length data = unat (BSize f) \<and> off = BOffset f \<and> Entries f = chainEntries (drop (unat off) data)"

lemma firstBadBlock_same_length:
  "length ws = length es \<Longrightarrow> \<exists>r. firstBadBlock ws es k = Some r \<and> (r = None \<longleftrightarrow> es = ws)"
  by (induction ws es k rule: firstBadBlock.induct) auto

lemma verifyBlkOne_exact:
  assumes "length (Entries f) = blocksOf (unat (BSize f) - unat (BOffset f))"
  shows "\<exists>ps. verifyBlkOne name f s data off = Some ps \<and> (ps = [] \<longleftrightarrow> describes f s data off)"
proof (cases "length data = unat (BSize f) \<and> off = BOffset f")
  case True
  then have "length (chainEntries (drop (unat off) data)) = length (Entries f)" using assms by simp
  from firstBadBlock_same_length [OF this, of 0] obtain r where
    r: "firstBadBlock (chainEntries (drop (unat off) data)) (Entries f) 0 = Some r"
      "r = None \<longleftrightarrow> Entries f = chainEntries (drop (unat off) data)"
    by blast
  show ?thesis
  proof (cases "BSize f = Size s \<and> BOffset f = Offset s \<and> BSHA256 f = SHA256 s")
    case same: True
    have "describes f s data off \<longleftrightarrow> r = None" unfolding describes_def r(2) using True same by blast
    moreover have "verifyBlkOne name f s data off = Some (case r of None \<Rightarrow> [] | Some k \<Rightarrow> [BBlock name k])"
      unfolding verifyBlkOne_def r(1) using True same by (simp split: option.split)
    ultimately show ?thesis by (cases r) simp_all
  next
    case False
    then have "\<not> describes f s data off" unfolding describes_def by blast
    moreover have "verifyBlkOne name f s data off = Some [BStale name]" unfolding verifyBlkOne_def using False by auto
    ultimately show ?thesis by simp
  qed
next
  case False
  then have "\<not> describes f s data off" unfolding describes_def by blast
  moreover have "\<exists>ps. verifyBlkOne name f s data off = Some ps \<and> ps \<noteq> []" unfolding verifyBlkOne_def using False by auto
  ultimately show ?thesis by blast
qed

lemma blocks_word_value:
  assumes "unat (BOffset f) \<le> unat (BSize f)" "blkFits f"
  shows "unat ((BSize f - BOffset f + 65536 - 1) div 65536) = blocksOf (unat (BSize f) - unat (BOffset f))"
proof -
  let ?L = "unat (BSize f) - unat (BOffset f)"
  have u: "unat (BSize f - BOffset f) = ?L" using assms(1) by (simp add: unat_sub word_le_nat_alt)
  then have w: "BSize f - BOffset f = of_nat ?L" by (simp flip: u)
  have "?L < 2 ^ 32" using assms(2) by (simp add: blkFits_def)
  from blocks_word [OF this] assms(2) have "(of_nat (blocksOf ?L) :: u32) = (BSize f - BOffset f + 65536 - 1) div 65536"
    unfolding w blkFits_def by blast
  moreover have "unat (of_nat (blocksOf ?L) :: u32) = blocksOf ?L"
    using \<open>?L < 2 ^ 32\<close> by (intro unat_word_of_nat_less) (simp add: blocksOf_def BlockSize_def)
  ultimately show ?thesis by simp
qed

lemma decodeBlkFile_entries:
  assumes "decodeBlkFile raw i = Inr f" "blkFits f"
  shows "length (Entries f) = blocksOf (unat (BSize f) - unat (BOffset f))"
proof -
  have "BOffset f \<le> BSize f" "Blocks f = (BSize f - BOffset f + 65536 - 1) div 65536" "length (Entries f) = unat (Blocks f)"
    using assms(1) by (auto simp: decodeBlkFile_def Let_def split: if_splits)
  then show ?thesis using blocks_word_value [of f] assms(2) by (simp add: word_le_nat_alt)
qed

lemma VerifyBlkSum_exact:
  assumes "DecodeBlkSum raw = Inr b" "blkFits (BKernel b)" "blkFits (BInitrd b)"
  shows "\<exists>ps. VerifyBlkSum b m kern initrd = Some ps \<and>
    (ps = [] \<longleftrightarrow> (\<exists>koff. KernelRAMOffset kern = Inr koff \<and>
       describes (BKernel b) (Kernel m) kern koff \<and> describes (BInitrd b) (Initrd m) initrd 0))"
proof -
  from assms(1) have f: "decodeBlkFile raw 0 = Inr (BKernel b)" "decodeBlkFile raw 1 = Inr (BInitrd b)"
    by (auto simp: DecodeBlkSum_def Let_def split: if_splits option.splits)
  note len = decodeBlkFile_entries [OF f(1) assms(2)] decodeBlkFile_entries [OF f(2) assms(3)]
  show ?thesis
  proof (cases "KernelRAMOffset kern")
    case (Inr koff)
    obtain ks "is" where "verifyBlkOne ''KERNEL'' (BKernel b) (Kernel m) kern koff = Some ks"
      "ks = [] \<longleftrightarrow> describes (BKernel b) (Kernel m) kern koff"
      "verifyBlkOne ''INITRD'' (BInitrd b) (Initrd m) initrd 0 = Some is"
      "is = [] \<longleftrightarrow> describes (BInitrd b) (Initrd m) initrd 0"
      using verifyBlkOne_exact [of "BKernel b"] verifyBlkOne_exact [of "BInitrd b"] len by metis
    then show ?thesis by (simp add: VerifyBlkSum_def Inr)
  qed (simp add: VerifyBlkSum_def)
qed

lemma GenerateBlkSum_sample: "\<exists>raw. GenerateBlkSum sample_kernel ''initrd'' = Inr raw"
proof -
  have "length sample_kernel = 1118" by (simp add: sample_kernel_def)
  then show ?thesis by (simp add: GenerateBlkSum_image KernelRAMOffset_sample)
qed

lemma DecodeBlkSum_sample:
  "GenerateBlkSum sample_kernel ''initrd'' = Inr raw \<Longrightarrow> DecodeBlkSum raw = Inr (blkSumOf sample_kernel 1024 ''initrd'')"
  using DecodeBlkSum_GenerateBlkSum [OF _ KernelRAMOffset_sample, of "''initrd''" raw]
  by (simp add: sample_kernel_def)


section \<open>Properties\<close>

text \<open>C12: the entries of the BLKSUM table.  All but the last are the SHA-256 chaining state after so many
  whole blocks of the file, the last is the file's digest; and hashing the rest of the file from any
  earlier entry, padding included, gives the digest.  So the loader can check every block with the one
  SHA-256 pass it makes anyway.\<close>

theorem chain_entries_resumable:
  assumes "k < length (chainEntries p)"
  shows "(if Suc k = length (chainEntries p) then chainEntries p ! k = Sum256 p
     else chainEntries p ! k = state_bytes (sha256Blocks sha256_init (take (Suc k * BlockSize) p)) \<and>
       Sum256 p = state_bytes (sha256Blocks (bytes_state (chainEntries p ! k)) (drop (Suc k * BlockSize) p @ sha_pad (length p))))"
  using assms chainEntry_resume [of k p]
  by (simp add: chainEntries_eq chainEntry_def)

theorem chain_entries_resumable_witness:
  "length (chainEntries (replicate 100000 (CHR 0x41))) = 2 \<and>
   Sum256 (replicate 100000 (CHR 0x41)) =
     state_bytes (sha256Blocks (bytes_state (chainEntries (replicate 100000 (CHR 0x41)) ! 0))
       (replicate 34464 (CHR 0x41) @ sha_pad 100000))"
proof -
  let ?p = "replicate 100000 (CHR 0x41)"
  have len: "length (chainEntries ?p) = 2" by (simp add: blocksOf_def BlockSize_def)
  from chain_entries_resumable [of 0 ?p] have "Sum256 ?p =
      state_bytes (sha256Blocks (bytes_state (chainEntries ?p ! 0)) (drop BlockSize ?p @ sha_pad (length ?p)))"
    unfolding len by simp
  then show ?thesis using len by (simp only: drop_replicate length_replicate BlockSize_def) simp
qed

text \<open>C13: the BLKSUM file survives encoding and decoding exactly when both RAM ranges are small enough for
  the reader's 32-bit block count; then every size, offset, count, position, digest and entry is read
  back.  For a larger range the sum \<open>l + BlockSize - 1\<close> wraps and the tool rejects its own file.\<close>

theorem blksum_round_trip:
  assumes "GenerateBlkSum kern initrd = Inr raw" "KernelRAMOffset kern = Inr koff"
  shows "DecodeBlkSum raw = Inr b \<longleftrightarrow>
    length kern - unat koff + 65535 < 2 ^ 32 \<and> length initrd + 65535 < 2 ^ 32 \<and> b = blkSumOf kern koff initrd"
  using assms by (rule DecodeBlkSum_GenerateBlkSum)

theorem blksum_round_trip_witness:
  "\<exists>raw. GenerateBlkSum sample_kernel ''initrd'' = Inr raw \<and> DecodeBlkSum raw = Inr (blkSumOf sample_kernel 1024 ''initrd'')"
proof -
  obtain raw where raw: "GenerateBlkSum sample_kernel ''initrd'' = Inr raw" using GenerateBlkSum_sample by blast
  have "DecodeBlkSum raw = Inr (blkSumOf sample_kernel 1024 ''initrd'')"
    unfolding blksum_round_trip [OF raw KernelRAMOffset_sample] by (simp add: sample_kernel_def)
  with raw show ?thesis by blast
qed



end
