(* ===== verification/Metadata.thy ===== *)
theory Metadata
  imports Sha256 Go_Strings
begin

text \<open>
  \<open>src/internal/metadata/metadata.go\<close>: the manifest that records which build a kernel and initrd belong
  to.  The codec is shown to be exact: a manifest is read back if and only if it is well formed, and
  everything the reader accepts is.
\<close>

definition Format :: int where "Format = 1"

record MetaManifest =
  Version :: string
  BuildStamp :: string
  Arch :: string
  KernelVersion :: string
  OpenZFS :: string
  KernelSHA256 :: string
  InitrdSHA256 :: string

definition requiredFields :: "string list" where
  "requiredFields =
     [''version'', ''buildstamp'', ''arch'', ''kernel'', ''openzfs'', ''kernel_sha256'', ''initrd_sha256'']"

definition knownFields :: "string \<Rightarrow> bool" where
  "knownFields k \<longleftrightarrow> k = ''format'' \<or> k \<in> set requiredFields"

definition sha256HexPattern :: "string \<Rightarrow> bool" where
  "sha256HexPattern s \<longleftrightarrow> length s = 64 \<and> list_all (\<lambda>c. is_digit c \<or> (97 \<le> code c \<and> code c \<le> 102)) s"

datatype meta_error =
    MetaGarbage nat
  | MetaMalformed string
  | MetaUnknown string
  | MetaDuplicate string
  | MetaNoFormat
  | MetaFormatText string
  | MetaFormat int
  | MetaMissing "string list"
  | MetaHash string

definition metaPairs :: "MetaManifest \<Rightarrow> (string \<times> string) list" where
  "metaPairs m =
     [(''format'', dec (nat Format)), (''version'', Version m), (''buildstamp'', BuildStamp m), (''arch'', Arch m),
      (''kernel'', KernelVersion m), (''openzfs'', OpenZFS m), (''kernel_sha256'', KernelSHA256 m),
      (''initrd_sha256'', InitrdSHA256 m)]"

definition metaLine :: "string \<times> string \<Rightarrow> string" where
  "metaLine kv = fst kv @ CHR ''='' # snd kv"

definition metaEncode :: "MetaManifest \<Rightarrow> bytes" where
  "metaEncode m = concat (map (\<lambda>kv. metaLine kv @ [NL]) (metaPairs m))"

definition indexNUL :: "bytes \<Rightarrow> nat option" where
  "indexNUL b = (if NUL \<in> set b then Some (length (takeWhile (\<lambda>c. c \<noteq> NUL) b)) else None)"

fun metaFields :: "string list \<Rightarrow> (string \<rightharpoonup> string) \<Rightarrow> meta_error + (string \<rightharpoonup> string)" where
  "metaFields [] fs = Inr fs"
| "metaFields (l # ls) fs =
     (let line = trimSpace l in
      if line = [] then metaFields ls fs
      else
        case cut line ''='' of
          None \<Rightarrow> Inl (MetaMalformed line)
        | Some (k, v) \<Rightarrow>
            if \<not> knownFields k then Inl (MetaUnknown k)
            else if fs k \<noteq> None then Inl (MetaDuplicate k)
            else metaFields ls (fs(k \<mapsto> v)))"

text \<open>Reading a Go map of strings: a missing key reads as the empty string.\<close>

definition field :: "(string \<rightharpoonup> string) \<Rightarrow> string \<Rightarrow> string" where
  "field fs k = (case fs k of None \<Rightarrow> [] | Some v \<Rightarrow> v)"

definition metaManifestOf :: "(string \<rightharpoonup> string) \<Rightarrow> MetaManifest" where
  "metaManifestOf fs =
     \<lparr>Version = field fs ''version'', BuildStamp = field fs ''buildstamp'', Arch = field fs ''arch'',
      KernelVersion = field fs ''kernel'', OpenZFS = field fs ''openzfs'',
      KernelSHA256 = field fs ''kernel_sha256'', InitrdSHA256 = field fs ''initrd_sha256''\<rparr>"

definition metaCheck :: "(string \<rightharpoonup> string) \<Rightarrow> meta_error + MetaManifest" where
  "metaCheck fs =
     (case fs ''format'' of
        None \<Rightarrow> Inl MetaNoFormat
      | Some formatStr \<Rightarrow>
          (case atoi formatStr of
             None \<Rightarrow> Inl (MetaFormatText formatStr)
           | Some format \<Rightarrow>
               if format \<noteq> Format then Inl (MetaFormat format)
               else
                 let missing = filter (\<lambda>k. field fs k = []) requiredFields in
                 if missing \<noteq> [] then Inl (MetaMissing missing)
                 else if \<not> sha256HexPattern (field fs ''kernel_sha256'') then Inl (MetaHash ''kernel_sha256'')
                 else if \<not> sha256HexPattern (field fs ''initrd_sha256'') then Inl (MetaHash ''initrd_sha256'')
                 else Inr (metaManifestOf fs)))"

definition metaText :: "bytes \<Rightarrow> meta_error + bytes" where
  "metaText raw =
     (case indexNUL raw of
        None \<Rightarrow> Inr raw
      | Some i \<Rightarrow> if \<exists>c \<in> set (drop i raw). c \<noteq> NUL then Inl (MetaGarbage i) else Inr (take i raw))"

definition metaDecode :: "bytes \<Rightarrow> meta_error + MetaManifest" where
  "metaDecode raw =
     bindE (metaText raw) (\<lambda>txt.
     bindE (metaFields (split_on NL (trimRight (\<lambda>c. c = NL) txt)) Map.empty) metaCheck)"

definition SHA256Hex :: "bytes \<Rightarrow> string" where
  "SHA256Hex data = hex_encode (Sum256 data)"

definition VerifyHash :: "bytes \<Rightarrow> string \<Rightarrow> bool" where
  "VerifyHash data want \<longleftrightarrow> SHA256Hex data = toLower want"


section \<open>The codec is exact\<close>

text \<open>A value that survives a line of the file.\<close>

definition meta_value :: "string \<Rightarrow> bool" where
  "meta_value v \<longleftrightarrow> v \<noteq> [] \<and> NL \<notin> set v \<and> NUL \<notin> set v \<and> space_len_end v = 0"

definition wf_meta :: "MetaManifest \<Rightarrow> bool" where
  "wf_meta m \<longleftrightarrow> list_all (\<lambda>kv. meta_value (snd kv)) (metaPairs m) \<and>
     sha256HexPattern (KernelSHA256 m) \<and> sha256HexPattern (InitrdSHA256 m)"

lemma metaPairs_keys: "kv \<in> set (metaPairs m) \<Longrightarrow> knownFields (fst kv)"
  by (auto simp: metaPairs_def knownFields_def requiredFields_def)

lemma knownFields_chars:
  assumes "knownFields k"
  shows "CHR ''='' \<notin> set k" "NL \<notin> set k" "NUL \<notin> set k" "k \<noteq> []" "graphic (hd k)"
  using assms by (auto simp: knownFields_def requiredFields_def graphic_def)

lemma metaLine_trimmed:
  assumes "knownFields (fst kv)" "meta_value (snd kv)"
  shows "trimSpace (metaLine kv) = metaLine kv" "cut (metaLine kv) ''='' = Some (fst kv, snd kv)"
proof -
  note k = knownFields_chars [OF assms(1)]
  obtain c r where c: "fst kv = c # r" using k(4) by (cases "fst kv") auto
  have "space_len (metaLine kv) = 0" using k(5) by (simp add: metaLine_def c graphic_no_space)
  moreover have "space_len_end (metaLine kv) = 0"
    unfolding metaLine_def using assms(2) by (intro space_len_end_extend) (auto simp: meta_value_def)
  ultimately show "trimSpace (metaLine kv) = metaLine kv" by (simp add: trimmed_def)
  show "cut (metaLine kv) ''='' = Some (fst kv, snd kv)" using k(1) by (simp add: metaLine_def)
qed

lemma metaFields_lines:
  assumes "\<forall>kv \<in> set kvs. knownFields (fst kv) \<and> meta_value (snd kv) \<and> fs (fst kv) = None" "distinct (map fst kvs)"
  shows "metaFields (map metaLine kvs) fs = Inr (foldl (\<lambda>f kv. f(fst kv \<mapsto> snd kv)) fs kvs)"
  using assms
proof (induction kvs arbitrary: fs)
  case (Cons kv kvs)
  have "metaLine kv \<noteq> []" by (simp add: metaLine_def)
  then have "metaFields (map metaLine (kv # kvs)) fs = metaFields (map metaLine kvs) (fs(fst kv \<mapsto> snd kv))"
    using Cons.prems(1) by (simp add: metaLine_trimmed Let_def case_prod_beta)
  also have "\<dots> = Inr (foldl (\<lambda>f kv. f(fst kv \<mapsto> snd kv)) (fs(fst kv \<mapsto> snd kv)) kvs)"
    using Cons.prems by (intro Cons.IH) (auto simp: image_iff)
  finally show ?case unfolding foldl.simps .
qed simp

lemma metaEncode_join: "metaEncode m = join_with [NL] (map metaLine (metaPairs m)) @ [NL]"
  by (simp add: metaEncode_def metaPairs_def)

lemma metaText_no_NUL: "NUL \<notin> set raw \<Longrightarrow> metaText raw = Inr raw"
  by (simp add: metaText_def indexNUL_def)

lemma metaDecode_Encode:
  assumes "wf_meta m"
  shows "metaDecode (metaEncode m) = Inr m"
proof -
  have v: "meta_value (snd kv)" "knownFields (fst kv)" if "kv \<in> set (metaPairs m)" for kv
    using assms that metaPairs_keys [OF that] by (auto simp: wf_meta_def list_all_iff)
  have line: "NL \<notin> set (metaLine kv)" "NUL \<notin> set (metaLine kv)" if "kv \<in> set (metaPairs m)" for kv
    using v [OF that] knownFields_chars [of "fst kv"] by (auto simp: metaLine_def meta_value_def)
  have "NUL \<notin> set (metaEncode m)" using line by (auto simp: metaEncode_def)
  then have tx: "metaText (metaEncode m) = Inr (metaEncode m)" by (rule metaText_no_NUL)
  have i: "meta_value (InitrdSHA256 m)" using v [of "(''initrd_sha256'', InitrdSHA256 m)"] by (simp add: metaPairs_def)
  then have "last (InitrdSHA256 m) \<in> set (InitrdSHA256 m)" by (simp add: meta_value_def)
  with i have "last (InitrdSHA256 m) \<noteq> NL" unfolding meta_value_def by metis
  moreover have l: "last (map metaLine (metaPairs m)) = ''initrd_sha256='' @ InitrdSHA256 m"
    by (simp add: metaPairs_def metaLine_def)
  moreover have ne: "map metaLine (metaPairs m) \<noteq> []" by (simp add: metaPairs_def)
  then have j: "join_with [NL] (map metaLine (metaPairs m)) \<noteq> [] \<and>
      last (join_with [NL] (map metaLine (metaPairs m))) = last (''initrd_sha256='' @ InitrdSHA256 m)"
    using last_join [of "map metaLine (metaPairs m)" "[NL]"] l by simp
  ultimately have "last (join_with [NL] (map metaLine (metaPairs m))) \<noteq> NL"
    using i unfolding meta_value_def by (simp only: last_append) simp
  then have trim: "trimRight (\<lambda>c. c = NL) (metaEncode m) = join_with [NL] (map metaLine (metaPairs m))"
    unfolding metaEncode_join using j by (intro trimRight_snoc) simp_all
  have split: "split_on NL (join_with [NL] (map metaLine (metaPairs m))) = map metaLine (metaPairs m)"
    by (rule split_join [OF ne]) (use line in auto)
  have fs: "metaFields (map metaLine (metaPairs m)) Map.empty = Inr (foldl (\<lambda>f kv. f(fst kv \<mapsto> snd kv)) Map.empty (metaPairs m))"
  proof (rule metaFields_lines)
    show "distinct (map fst (metaPairs m))" by (simp add: metaPairs_def)
  qed (use v in auto)
  have "sha256HexPattern (KernelSHA256 m)" "sha256HexPattern (InitrdSHA256 m)"
    "Version m \<noteq> []" "BuildStamp m \<noteq> []" "Arch m \<noteq> []" "KernelVersion m \<noteq> []" "OpenZFS m \<noteq> []"
    "KernelSHA256 m \<noteq> []" "InitrdSHA256 m \<noteq> []"
    using assms by (simp_all add: wf_meta_def metaPairs_def meta_value_def)
  then have "metaCheck (foldl (\<lambda>f kv. f(fst kv \<mapsto> snd kv)) Map.empty (metaPairs m)) = Inr m"
    by (simp add: metaCheck_def metaPairs_def Format_def field_def requiredFields_def
        metaManifestOf_def)
  then show ?thesis by (simp add: metaDecode_def tx trim split fs)
qed

definition line_value :: "string \<Rightarrow> bool" where
  "line_value v \<longleftrightarrow> NL \<notin> set v \<and> NUL \<notin> set v \<and> space_len_end v = 0"

lemma cut_line_value:
  assumes "NL \<notin> set l" "NUL \<notin> set l" "cut (trimSpace l) ''='' = Some (k, v)"
  shows "line_value v"
proof -
  have l: "trimSpace l = (k @ ''='') @ v" using cut_SomeD [OF assms(3)] by simp
  have "space_len_end (trimSpace l) = 0" using trimmed_trimSpace [of l] by (simp add: trimmed_def)
  then have "space_len_end v = 0" unfolding l by (rule space_len_end_suffix)
  moreover have "set v \<subseteq> set l" using set_trimSpace [of l] unfolding l by auto
  ultimately show ?thesis using assms(1,2) by (auto simp: line_value_def)
qed

lemma metaFields_values:
  assumes "metaFields ls fs = Inr fs'" "\<forall>l \<in> set ls. NL \<notin> set l \<and> NUL \<notin> set l" "\<forall>k v. fs k = Some v \<longrightarrow> line_value v"
  shows "\<forall>k v. fs' k = Some v \<longrightarrow> line_value v"
  using assms
proof (induction ls arbitrary: fs)
  case (Cons l ls)
  show ?case
  proof (cases "trimSpace l = []")
    case True
    with Cons show ?thesis by simp
  next
    case False
    with Cons.prems(1) obtain k v where kv: "cut (trimSpace l) ''='' = Some (k, v)"
      and rest: "metaFields ls (fs(k \<mapsto> v)) = Inr fs'"
      by (auto simp: Let_def split: option.splits if_splits)
    have "line_value v" using Cons.prems(2) by (intro cut_line_value [OF _ _ kv]) auto
    then show ?thesis using Cons.prems(2,3) by (intro Cons.IH [OF rest]) auto
  qed
qed simp

lemma metaText_chars:
  assumes "metaText raw = Inr t"
  shows "NUL \<notin> set t"
proof (cases "indexNUL raw")
  case None
  then have "t = raw" using assms by (simp add: metaText_def)
  moreover have "NUL \<notin> set raw" using None unfolding indexNUL_def by (metis option.distinct(1))
  ultimately show ?thesis by simp
next
  case (Some i)
  then have "i = length (takeWhile (\<lambda>c. c \<noteq> NUL) raw)" unfolding indexNUL_def by (metis option.distinct(1) option.inject)
  moreover have "t = take i raw" using assms Some unfolding metaText_def by (simp split: if_splits)
  ultimately have "t = takeWhile (\<lambda>c. c \<noteq> NUL) raw" by (simp only: take_before)
  then show ?thesis by (auto dest: set_takeWhileD)
qed

lemma metaCheck_wf:
  assumes "metaCheck fs = Inr m" "\<forall>k v. fs k = Some v \<longrightarrow> line_value v"
  shows "wf_meta m"
proof -
  have v: "line_value (field fs k)" for k
    using assms(2) by (auto simp: field_def line_value_def split: option.split)
  have m: "m = metaManifestOf fs" "filter (\<lambda>k. field fs k = []) requiredFields = []"
    "sha256HexPattern (field fs ''kernel_sha256'')" "sha256HexPattern (field fs ''initrd_sha256'')"
    using assms(1) by (auto simp: metaCheck_def Let_def split: option.splits if_splits)
  have "field fs k \<noteq> []" if "k \<in> set requiredFields" for k
    using m(2) that by (auto simp: filter_empty_conv)
  then have mv: "meta_value (field fs k)" if "k \<in> set requiredFields" for k
    using v [of k] that by (simp add: meta_value_def line_value_def)
  have one: "meta_value (dec (nat Format))" by (simp add: meta_value_def Format_def dec.simps digit_def space_len_end_zero) code_simp
  show ?thesis
    using one mv m(3,4) by (simp add: m(1) wf_meta_def metaPairs_def metaManifestOf_def requiredFields_def)
qed

lemma metaDecode_wf: "metaDecode raw = Inr m \<Longrightarrow> wf_meta m"
proof -
  assume "metaDecode raw = Inr m"
  then obtain tx fs where tx: "metaText raw = Inr tx"
    and fs: "metaFields (split_on NL (trimRight (\<lambda>c. c = NL) tx)) Map.empty = Inr fs" and c: "metaCheck fs = Inr m"
    by (auto simp: metaDecode_def)
  have "\<forall>l \<in> set (split_on NL (trimRight (\<lambda>c. c = NL) tx)). NL \<notin> set l \<and> NUL \<notin> set l"
    using split_on_parts split_on_subset set_trimRight [of "\<lambda>c. c = NL" tx] metaText_chars [OF tx] by blast
  from metaFields_values [OF fs this] have "\<forall>k v. fs k = Some v \<longrightarrow> line_value v" by simp
  with c show ?thesis by (rule metaCheck_wf)
qed

interpretation metadata: codec wf_meta metaEncode metaDecode
  by unfold_locales (rule metaDecode_Encode)

lemma sha256HexPattern_SHA256Hex [simp]: "sha256HexPattern (SHA256Hex data)"
  by (auto simp: sha256HexPattern_def SHA256Hex_def list_all_iff dest: hex_encode_chars)

lemma VerifyHash_SHA256Hex [simp]: "VerifyHash data (SHA256Hex data')  \<longleftrightarrow> Sum256 data = Sum256 data'"
  by (simp add: VerifyHash_def SHA256Hex_def) (metis hex_decode_encode option.inject)


text \<open>
  Whatever the other fields hold, an encoding that decodes at all gives the two hashes back: their lines
  come last, and a field line smuggled into another value would be a duplicate.
\<close>

lemma metaFields_append: "metaFields (xs @ ys) fs = bindE (metaFields xs fs) (metaFields ys)"
proof (induction xs arbitrary: fs)
  case (Cons l ls)
  show ?case
  proof (cases "cut (trimSpace l) ''=''")
    case (Some kv)
    obtain k v where kv: "kv = (k, v)" by (cases kv)
    show ?thesis
      by (simp only: append_Cons metaFields.simps Let_def Some kv option.case prod.case Cons bindE_simps split: if_split) blast
  qed (use Cons [of fs] in \<open>simp add: Let_def\<close>)
qed simp

lemma metaText_Inr:
  assumes "metaText raw = Inr t" "raw \<noteq> []" "last raw \<noteq> NUL"
  shows "t = raw"
proof (cases "NUL \<in> set raw")
  case True
  define i where "i = length (takeWhile (\<lambda>c. c \<noteq> NUL) raw)"
  have "i < length raw" unfolding i_def using True by (rule length_takeWhile_inside) simp
  then have "last raw \<in> set (drop i raw)" by (metis drop_eq_Nil last_drop last_in_set not_le)
  then have "metaText raw = Inl (MetaGarbage i)" using True assms(3) unfolding metaText_def indexNUL_def i_def [symmetric] by auto
  then show ?thesis using assms(1) by simp
qed (use assms in \<open>simp add: metaText_no_NUL\<close>)

lemma sha256HexPattern_value:
  assumes "sha256HexPattern s"
  shows "meta_value s"
proof -
  have ne: "s \<noteq> []" using assms by (auto simp: sha256HexPattern_def)
  have c: "is_digit c \<or> 97 \<le> code c \<and> code c \<le> 102" if "c \<in> set s" for c
    using assms that by (auto simp: sha256HexPattern_def list_all_iff)
  then have asc: "(of_char c :: nat) < 128 \<and> \<not> ascii_space c \<and> c \<noteq> NL \<and> c \<noteq> NUL" if "c \<in> set s" for c
    using that by (force simp: is_digit_def ascii_space_def)
  have "\<not> hasSuffix s w" if "w \<in> set wide_spaces" for w
  proof
    assume "hasSuffix s w"
    then obtain u where u: "s = u @ w" by (auto simp: hasSuffix_iff)
    have "w \<noteq> []" using that by (auto simp: wide_spaces_def)
    then have "hd w \<in> set w" by simp
    with wide_not_ascii [OF that, of "hd w"] asc [of "hd w"] show False by (auto simp: u)
  qed
  moreover have "\<not> ascii_space (last s)" using asc ne by simp
  ultimately show ?thesis using ne asc by (auto simp: meta_value_def space_len_end_zero)
qed

lemma metaDecode_Encode_hashes:
  assumes dec: "metaDecode (metaEncode m) = Inr m'" and hex: "sha256HexPattern (KernelSHA256 m)" "sha256HexPattern (InitrdSHA256 m)"
  shows "KernelSHA256 m' = KernelSHA256 m" "InitrdSHA256 m' = InitrdSHA256 m"
proof -
  let ?k = "metaLine (''kernel_sha256'', KernelSHA256 m)" and ?i = "metaLine (''initrd_sha256'', InitrdSHA256 m)"
  note val = hex [THEN sha256HexPattern_value]
  obtain pre where pre: "metaEncode m = pre @ NL # ?k @ NL # ?i @ [NL]"
    by (simp add: metaEncode_def metaPairs_def)
  have nl: "NL \<notin> set ?k" "NL \<notin> set ?i" using val by (auto simp: metaLine_def meta_value_def)
  obtain t where t: "metaText (metaEncode m) = Inr t" using dec by (auto simp: metaDecode_def bindE_def split: sum.splits)
  then have "t = (pre @ NL # ?k @ NL # ?i) @ [NL]" using metaText_Inr [OF t] by (simp add: pre)
  moreover have "last ?i \<noteq> NL" using nl(2) last_in_set [of ?i] by (metis Nil_is_append_conv list.distinct(1) metaLine_def)
  ultimately have trim: "trimRight (\<lambda>c. c = NL) t = pre @ NL # ?k @ NL # ?i"
    by (simp only:) (subst trimRight_snoc, simp_all add: metaLine_def)
  have "split_on NL (trimRight (\<lambda>c. c = NL) t) = split_on NL pre @ [?k, ?i]"
    using nl unfolding trim by (simp add: split_on_sep split_on_no_sep)
  then obtain fs gs where fs: "metaFields [?k, ?i] gs = Inr fs" "metaCheck fs = Inr m'"
    using dec by (auto simp: metaDecode_def t metaFields_append bindE_def split: sum.splits)
  have kn: "knownFields ''kernel_sha256''" "knownFields ''initrd_sha256''" by (simp_all add: knownFields_def requiredFields_def)
  have "field fs ''kernel_sha256'' = KernelSHA256 m" "field fs ''initrd_sha256'' = InitrdSHA256 m"
    using fs(1) metaLine_trimmed [of "(''kernel_sha256'', KernelSHA256 m)"] metaLine_trimmed [of "(''initrd_sha256'', InitrdSHA256 m)"] val kn
    by (auto simp: Let_def field_def metaLine_def split: if_splits)
  moreover have "m' = metaManifestOf fs" using fs(2) by (auto simp: metaCheck_def Let_def split: option.splits if_splits)
  ultimately show "KernelSHA256 m' = KernelSHA256 m" "InitrdSHA256 m' = InitrdSHA256 m" by (simp_all add: metaManifestOf_def)
qed


section \<open>Properties\<close>


end
