(* ===== verification/Kernel_Info.thy ===== *)
theory Kernel_Info
  imports Go_Strings
begin

text \<open>
  \<open>src/internal/kernelinfo/kernelinfo.go\<close>: the version string of a kernel image, from the bzImage setup
  header, from the banner inside an EFI zboot image, or from the banner of an uncompressed image.
  The gzip decoder is a parameter: \<open>gunzipOne d\<close> is what reading the first gzip member of \<open>d\<close> gives,
  \<^const>\<open>None\<close> when \<open>gzip.NewReader\<close> refuses the header.
\<close>

text \<open>A decompressing reader: the bytes it delivers, and whether it then ends cleanly or in an error.\<close>

datatype stream = Stream (stream_data: bytes) (stream_clean: bool)

definition kOffBootFlag :: nat where "kOffBootFlag = 0x1FE"
definition kOffHeaderMagic :: nat where "kOffHeaderMagic = 0x202"
definition kOffVersion :: nat where "kOffVersion = 0x206"
definition kOffKernelVersion :: nat where "kOffKernelVersion = 0x20E"

lemmas kernel_off_defs = kOffBootFlag_def kOffHeaderMagic_def kOffVersion_def kOffKernelVersion_def

datatype kernel_error =
    KTooShort nat
  | KNoBootFlag
  | KNoHdrS
  | KOldProtocol u16
  | KNoVersion
  | KPastEnd nat nat
  | KUnterminated nat
  | KNoBanner
  | KBannerUnterminated nat
  | KPayloadOffset u32 nat
  | KCompType
  | KGzipOpen
  | KGzipRead
  | KTooBig
  | KUnsupported string

text \<open>\<open>bytes.IndexByte(s, c)\<close>.\<close>

definition indexByte :: "char \<Rightarrow> bytes \<Rightarrow> nat option" where
  "indexByte c s = (if c \<in> set s then Some (length (takeWhile (\<lambda>x. x \<noteq> c) s)) else None)"

definition VersionFromBytes :: "bytes \<Rightarrow> kernel_error + string" where
  "VersionFromBytes data =
     (if length data < kOffKernelVersion + 2 then Inl (KTooShort (length data))
      else if data ! kOffBootFlag \<noteq> CHR 0x55 \<or> data ! (kOffBootFlag + 1) \<noteq> CHR 0xAA then Inl KNoBootFlag
      else if sl data kOffHeaderMagic (kOffHeaderMagic + 4) \<noteq> ''HdrS'' then Inl KNoHdrS
      else
        let protoVersion = le16 (drop kOffVersion data) in
        if protoVersion < 0x0200 then Inl (KOldProtocol protoVersion)
        else
          let relOff = le16 (drop kOffKernelVersion data) in
          if relOff = 0 then Inl KNoVersion
          else
            let absOff = unat relOff + 0x200 in
            if absOff \<ge> length data then Inl (KPastEnd absOff (length data))
            else
              case indexByte NUL (drop absOff data) of
                None \<Rightarrow> Inl (KUnterminated absOff)
              | Some nul \<Rightarrow> Inr (sl data absOff (absOff + nul)))"

definition bannerPrefix :: string where "bannerPrefix = ''Linux version ''"

definition VersionFromLinuxBanner :: "bytes \<Rightarrow> kernel_error + string" where
  "VersionFromLinuxBanner data =
     (case indexOf data bannerPrefix of
        None \<Rightarrow> Inl KNoBanner
      | Some idx \<Rightarrow>
          let rest = drop idx data in
          case indexAny {NL, NUL} rest of
            None \<Rightarrow> Inl (KBannerUnterminated idx)
          | Some e \<Rightarrow> Inr (take e rest))"

definition offZbootDOS :: nat where "offZbootDOS = 0"
definition offZbootType :: nat where "offZbootType = 4"
definition offZbootPayload :: nat where "offZbootPayload = 8"
definition offZbootCompType :: nat where "offZbootCompType = 24"
definition maxZbootCompTypeLen :: nat where "maxZbootCompTypeLen = 32"
definition maxZbootDecompressedSize :: nat where "maxZbootDecompressedSize = 256 * 1024 * 1024"

lemmas zboot_defs = offZbootDOS_def offZbootType_def offZbootPayload_def offZbootCompType_def maxZbootCompTypeLen_def

definition isZbootImage :: "bytes \<Rightarrow> bool" where
  "isZbootImage data \<longleftrightarrow>
     length data \<ge> offZbootCompType + 4 \<and>
     data ! offZbootDOS = CHR ''M'' \<and> data ! (offZbootDOS + 1) = CHR ''Z'' \<and>
     sl data offZbootType (offZbootType + 4) = ''zimg''"

definition unwrapZboot :: "(bytes \<Rightarrow> stream option) \<Rightarrow> bytes \<Rightarrow> kernel_error + bytes" where
  "unwrapZboot gunzipOne data =
     (let payloadOff = le32 (drop offZbootPayload data) in
      if unat payloadOff \<ge> length data then Inl (KPayloadOffset payloadOff (length data))
      else
        let compTypeField = sl data offZbootCompType (min (offZbootCompType + maxZbootCompTypeLen) (length data)) in
        case indexByte NUL compTypeField of
          None \<Rightarrow> Inl KCompType
        | Some nul \<Rightarrow>
            let compType = take nul compTypeField in
            if compType = ''gzip'' then
              (case gunzipOne (drop (unat payloadOff) data) of
                 None \<Rightarrow> Inl KGzipOpen
               | Some r \<Rightarrow>
                   let out = take (maxZbootDecompressedSize + 1) (stream_data r) in
                   if length out > maxZbootDecompressedSize then Inl KTooBig
                   else if \<not> stream_clean r then Inl KGzipRead
                   else Inr out)
            else Inl (KUnsupported compType))"

definition stripLinuxVersionPrefix :: "string \<Rightarrow> string" where
  "stripLinuxVersionPrefix v = trimPrefix v bannerPrefix"

definition VersionFromImage :: "(bytes \<Rightarrow> stream option) \<Rightarrow> bytes \<Rightarrow> kernel_error + string" where
  "VersionFromImage gunzipOne data =
     (case VersionFromBytes data of
        Inr v \<Rightarrow> Inr v
      | Inl _ \<Rightarrow>
          if isZbootImage data then
            bindE (unwrapZboot gunzipOne data) (\<lambda>unwrapped.
            bindE (VersionFromLinuxBanner unwrapped) (\<lambda>v. Inr (stripLinuxVersionPrefix v)))
          else bindE (VersionFromLinuxBanner data) (\<lambda>v. Inr (stripLinuxVersionPrefix v)))"

definition ShortVersion :: "string \<Rightarrow> string" where
  "ShortVersion full = (case indexByte SP full of Some i \<Rightarrow> take i full | None \<Rightarrow> full)"


section \<open>What a version string is\<close>

lemma take_indexByte: "indexByte c s = Some i \<Longrightarrow> take i s = takeWhile (\<lambda>x. x \<noteq> c) s \<and> i < length s"
proof -
  assume "indexByte c s = Some i"
  then have "c \<in> set s" "i = length (takeWhile (\<lambda>x. x \<noteq> c) s)"
    unfolding indexByte_def by (metis option.distinct(1), metis option.distinct(1) option.inject)
  then show ?thesis using length_takeWhile_inside [of c s] by (simp add: take_before)
qed

lemma indexByte_None: "indexByte c s = None \<longleftrightarrow> c \<notin> set s"
  by (simp add: indexByte_def)

lemma indexAny_Some: "indexAny cs s = Some i \<Longrightarrow> i < length s \<and> s ! i \<in> cs \<and> (\<forall>j < i. s ! j \<notin> cs)"
  unfolding indexAny_def by (auto simp: find_Some_iff)

lemma VersionFromBytes_no_NUL: "VersionFromBytes data = Inr v \<Longrightarrow> NUL \<notin> set v"
  by (auto simp: VersionFromBytes_def Let_def sl_def split: if_splits option.splits
      dest!: take_indexByte dest: set_takeWhileD)

lemma banner_chars:
  assumes "VersionFromLinuxBanner data = Inr v"
  shows "NUL \<notin> set v \<and> NL \<notin> set v \<and> hasPrefix v bannerPrefix"
proof -
  from assms obtain idx e where i: "indexOf data bannerPrefix = Some idx"
    and e: "indexAny {NL, NUL} (drop idx data) = Some e" and v: "v = take e (drop idx data)"
    by (auto simp: VersionFromLinuxBanner_def Let_def split: option.splits)
  note e' = indexAny_Some [OF e]
  have no: "c \<notin> set v" if "c \<in> {NL, NUL}" for c
  proof
    assume "c \<in> set v"
    then obtain j where "j < e" "drop idx data ! j = c" using v e' by (auto simp: in_set_conv_nth)
    then show False using e' that by blast
  qed
  obtain r where r: "drop idx data = bannerPrefix @ r" using indexOf_Some [OF i] by (auto simp: hasPrefix_iff)
  have "length bannerPrefix \<le> e"
  proof (rule ccontr)
    assume "\<not> length bannerPrefix \<le> e"
    then have "drop idx data ! e \<in> set bannerPrefix" unfolding r by (simp add: nth_append)
    then show False using e' by (auto simp: bannerPrefix_def)
  qed
  then have "hasPrefix v bannerPrefix" unfolding v r by (simp add: hasPrefix_def bannerPrefix_def)
  then show ?thesis using no by blast
qed

lemma VersionFromImage_no_NUL: "VersionFromImage gz data = Inr v \<Longrightarrow> NUL \<notin> set v"
proof -
  assume a: "VersionFromImage gz data = Inr v"
  show ?thesis
  proof (cases "VersionFromBytes data")
    case (Inr w)
    then show ?thesis using a VersionFromBytes_no_NUL [OF Inr] by (simp add: VersionFromImage_def)
  next
    case (Inl e)
    then obtain d w where "VersionFromLinuxBanner d = Inr w" "v = stripLinuxVersionPrefix w"
      using a by (auto simp: VersionFromImage_def split: if_splits)
    then show ?thesis
      using banner_chars [of d w] by (auto simp: stripLinuxVersionPrefix_def trimPrefix_def dest: in_set_dropD)
  qed
qed

lemma ShortVersion_no_space: "SP \<notin> set (ShortVersion full)"
  by (auto simp: ShortVersion_def indexByte_None split: option.splits dest!: take_indexByte dest: set_takeWhileD)

text \<open>A bzImage whose header points at a NUL-terminated string reports that string.\<close>

lemma VersionFromBytes_reads:
  assumes "data = pre @ v @ NUL # post" "NUL \<notin> set v" "length pre = unat relOff + 0x200" "relOff \<noteq> 0"
    "pre ! kOffBootFlag = CHR 0x55" "pre ! (kOffBootFlag + 1) = CHR 0xAA"
    "sl pre kOffHeaderMagic (kOffHeaderMagic + 4) = ''HdrS''"
    "le16 (drop kOffVersion pre) \<ge> 0x0200" "le16 (drop kOffKernelVersion pre) = relOff" "length pre \<ge> kOffKernelVersion + 2"
  shows "VersionFromBytes data = Inr v"
proof -
  have len: "length pre \<ge> 0x210" using assms(10) by (simp add: kernel_off_defs)
  have nth: "data ! i = pre ! i" if "i < 0x210" for i using that len by (simp add: assms(1) nth_append)
  have sl: "sl data kOffHeaderMagic (kOffHeaderMagic + 4) = ''HdrS''"
    using assms(7) len by (simp add: assms(1) sl_append_left kernel_off_defs)
  have le: "le16 (drop k data) = le16 (drop k pre)" if "k + 2 \<le> 0x210" for k
    using that len by (simp add: assms(1) le16_def)
  have d: "drop (unat relOff + 0x200) data = v @ NUL # post" using assms(1,3) by simp
  have ix: "indexByte NUL (v @ NUL # post) = Some (length v)"
    using assms(2) by (simp add: indexByte_def takeWhile_upto)
  have s: "sl data (unat relOff + 0x200) (unat relOff + 0x200 + length v) = v"
    using assms(1,3) by (simp add: sl_def)
  show ?thesis
    using assms len nth [of kOffBootFlag] nth [of "kOffBootFlag + 1"] sl le [of kOffVersion] le [of kOffKernelVersion] ix s d
    by (simp add: VersionFromBytes_def Let_def kernel_off_defs not_less [symmetric])
qed

end
