(* ===== verification/Initrd_Info.thy ===== *)
theory Initrd_Info
  imports Kernel_Info
begin

text \<open>
  \<open>src/internal/initrdinfo/initrdinfo.go\<close>: finding \<open>zfs.ko\<close> inside an initramfs and reading its OpenZFS
  version.  The code keeps two cpio readers: \<open>parseCPIO\<close> over a whole buffer, and the streaming
  \<open>streamFindZFSModule\<close> that production uses with a shared byte budget.  Both are modelled, the stream
  with its \<open>io.LimitedReader\<close> state; the lemmas show that the stream gives what the reference gives, and
  that the budget bounds what it looks at and returns.  The gzip, xz and ELF readers are parameters.
\<close>

datatype elf_answer = ElfBad | ElfNoModinfo | ElfDataError | ElfModinfo bytes

record codecs =
  gunzip :: "bytes \<Rightarrow> stream option"
  gunzipOne :: "bytes \<Rightarrow> stream option"
  unxz :: "bytes \<Rightarrow> stream option"
  modinfo :: "bytes \<Rightarrow> elf_answer"

datatype initrd_error =
    IOpenGzip
  | IOpenXz
  | IZstd
  | IBound
  | IRead
  | ITruncated
  | IMagic string
  | INumber
  | INoModule
  | IElf
  | INoModinfo
  | INoVersion

definition maxDecompressedSize :: nat where "maxDecompressedSize = 512 * 1024 * 1024"

definition readAllBounded :: "nat \<Rightarrow> stream \<Rightarrow> initrd_error + bytes" where
  "readAllBounded mx r =
     (let out = take (mx + 1) (stream_data r) in
      if length out > mx then Inl IBound
      else if \<not> stream_clean r then Inl IRead
      else Inr out)"

definition decompressReader :: "codecs \<Rightarrow> bytes \<Rightarrow> initrd_error + stream" where
  "decompressReader c data =
     (if length data \<ge> 2 \<and> data ! 0 = CHR 0x1f \<and> data ! 1 = CHR 0x8b then
        (case gunzip c data of None \<Rightarrow> Inl IOpenGzip | Some r \<Rightarrow> Inr r)
      else if length data \<ge> 6 \<and> take 6 data = [CHR 0xfd, CHR ''7'', CHR ''z'', CHR ''X'', CHR ''Z'', NUL] then
        (case unxz c data of None \<Rightarrow> Inl IOpenXz | Some r \<Rightarrow> Inr r)
      else if length data \<ge> 4 \<and> take 4 data = [CHR 0x28, CHR 0xb5, CHR 0x2f, CHR 0xfd] then Inl IZstd
      else Inr (Stream data True))"

definition decompress :: "codecs \<Rightarrow> nat \<Rightarrow> bytes \<Rightarrow> initrd_error + bytes" where
  "decompress c mx data = bindE (decompressReader c data) (readAllBounded mx)"

definition cpioHeaderSize :: nat where "cpioHeaderSize = 110"

definition align4 :: "nat \<Rightarrow> nat" where
  "align4 n = (if n mod 4 \<noteq> 0 then n + (4 - n mod 4) else n)"

text \<open>\<open>strconv.ParseUint(s, 16, 32)\<close>.\<close>

definition hex_digits_val :: "string \<Rightarrow> nat option" where
  "hex_digits_val s =
     (if s = [] \<or> (\<exists>c \<in> set s. hex_val c = None) then None
      else Some (foldl (\<lambda>a c. 16 * a + the (hex_val c)) 0 s))"

definition hex8 :: "string \<Rightarrow> nat option" where
  "hex8 b = (case hex_digits_val b of Some v \<Rightarrow> if v < 2 ^ 32 then Some v else None | None \<Rightarrow> None)"

definition cpioMagic :: "bytes \<Rightarrow> bool" where
  "cpioMagic header \<longleftrightarrow> take 6 header = ''070701'' \<or> take 6 header = ''070702''"

text \<open>The two sizes of a header.\<close>

definition cpioSizes :: "bytes \<Rightarrow> initrd_error + nat \<times> nat" where
  "cpioSizes header =
     (if \<not> cpioMagic header then Inl (IMagic (take 6 header))
      else
        case hex8 (sl header 54 62) of
          None \<Rightarrow> Inl INumber
        | Some filesize \<Rightarrow>
            (case hex8 (sl header 94 102) of
               None \<Rightarrow> Inl INumber
             | Some namesize \<Rightarrow> Inr (filesize, namesize)))"

definition entryName :: "bytes \<Rightarrow> string" where
  "entryName raw = trimRight (\<lambda>c. c = NUL) raw"

record cpioEntry =
  ename :: string
  edata :: bytes

lemma align4_ge: "n \<le> align4 n"
  unfolding align4_def by (cases "n mod 4 = 0") (simp_all only: if_True if_False not_not le_add1 order_refl simp_thms)

function parseCPIOFrom :: "bytes \<Rightarrow> nat \<Rightarrow> initrd_error + cpioEntry list" where
  "parseCPIOFrom data pos =
     (if pos + cpioHeaderSize > length data then Inl ITruncated
      else
        case cpioSizes (sl data pos (pos + cpioHeaderSize)) of
          Inl e \<Rightarrow> Inl e
        | Inr (filesize, namesize) \<Rightarrow>
            let nameStart = pos + cpioHeaderSize;
                nameEnd = nameStart + namesize
            in if nameEnd > length data then Inl ITruncated
               else
                 let name = entryName (sl data nameStart nameEnd);
                     dataStart = align4 nameEnd;
                     dataEnd = dataStart + filesize
                 in if dataEnd > length data then Inl ITruncated
                    else if name = ''TRAILER!!!'' then Inr []
                    else
                      bindE (parseCPIOFrom data (align4 dataEnd)) (\<lambda>es.
                      Inr (\<lparr>ename = name, edata = sl data dataStart dataEnd\<rparr> # es)))"
  by pat_completeness auto
termination
proof (relation "measure (\<lambda>(data, pos). length data - pos)", goal_cases)
  case (2 data pos a fs ns nameStart nameEnd name dataStart dataEnd)
  then have "pos + 110 \<le> nameEnd" "nameEnd \<le> dataStart" "dataStart \<le> align4 dataEnd"
    using align4_ge [of nameEnd] align4_ge [of dataEnd] by (auto simp: cpioHeaderSize_def)
  then show ?case using 2(1) by (simp add: cpioHeaderSize_def)
qed simp

declare parseCPIOFrom.simps [simp del]

definition parseCPIO :: "bytes \<Rightarrow> initrd_error + cpioEntry list" where
  "parseCPIO data = parseCPIOFrom data 0"

definition zfsKoSuffixes :: "string list" where
  "zfsKoSuffixes = [''/zfs.ko'', ''/zfs.ko.gz'', ''/zfs.ko.xz'', ''/zfs.ko.zst'']"

definition matchesZFSKoSuffix :: "string \<Rightarrow> bool" where
  "matchesZFSKoSuffix name \<longleftrightarrow> list_ex (hasSuffix name) zfsKoSuffixes"

definition findZFSModule :: "codecs \<Rightarrow> nat \<Rightarrow> cpioEntry list \<Rightarrow> initrd_error + bytes" where
  "findZFSModule c mx entries =
     (case find (\<lambda>e. matchesZFSKoSuffix (ename e)) entries of
        None \<Rightarrow> Inl INoModule
      | Some e \<Rightarrow> decompress c mx (edata e))"


section \<open>The streaming reader\<close>

text \<open>An \<open>io.LimitedReader\<close>: what is left of the stream and of the budget.\<close>

record limited =
  left :: bytes
  clean :: bool
  budget :: nat

text \<open>
  \<open>readFullBounded\<close> and \<open>discardBounded\<close>: the next \<open>n\<close> bytes, or the bound error when the budget ran
  out and the stream's own error (or an early end) otherwise.
\<close>

definition readFullBounded :: "limited \<Rightarrow> nat \<Rightarrow> initrd_error + bytes \<times> limited" where
  "readFullBounded lr n =
     (let avail = min (budget lr) (length (left lr)) in
      if n \<le> avail then Inr (take n (left lr), lr\<lparr>left := drop n (left lr), budget := budget lr - n\<rparr>)
      else if budget lr - avail = 0 then Inl IBound
      else if clean lr then Inl ITruncated else Inl IRead)"

definition discardBounded :: "limited \<Rightarrow> nat \<Rightarrow> initrd_error + limited" where
  "discardBounded lr n = bindE (readFullBounded lr n) (\<lambda>(_, lr'). Inr lr')"

definition checkDeclaredSize :: "nat \<Rightarrow> limited \<Rightarrow> initrd_error + unit" where
  "checkDeclaredSize declared lr = (if declared > budget lr then Inl IBound else Inr ())"

lemma readFullBounded_left: "readFullBounded lr n = Inr (b, lr') \<Longrightarrow> length (left lr') + n = length (left lr)"
  by (auto simp: readFullBounded_def Let_def split: if_splits)

lemma discardBounded_left: "discardBounded lr n = Inr lr' \<Longrightarrow> length (left lr') \<le> length (left lr)"
  by (auto simp: discardBounded_def dest: readFullBounded_left)

text \<open>One round of the loop: stop with a result, or go on with the rest.\<close>

definition streamEntry :: "codecs \<Rightarrow> nat \<Rightarrow> nat \<Rightarrow> nat \<Rightarrow> limited \<Rightarrow> initrd_error + (bytes + limited)" where
  "streamEntry c mx filesize namesize lr =
     bindE (checkDeclaredSize namesize lr) (\<lambda>_.
     bindE (readFullBounded lr namesize) (\<lambda>(nameBuf, lr).
     let name = entryName nameBuf;
         namePad = align4 (cpioHeaderSize + namesize) - (cpioHeaderSize + namesize)
     in bindE (discardBounded lr namePad) (\<lambda>lr.
        if name = ''TRAILER!!!'' then Inl INoModule
        else if matchesZFSKoSuffix name then
          bindE (checkDeclaredSize filesize lr) (\<lambda>_.
          bindE (readFullBounded lr filesize) (\<lambda>(data, lr).
          bindE (decompress c mx data) (\<lambda>out. Inr (Inl out))))
        else bindE (discardBounded lr (align4 filesize)) (\<lambda>lr. Inr (Inr lr)))))"

definition streamStep :: "codecs \<Rightarrow> nat \<Rightarrow> limited \<Rightarrow> initrd_error + (bytes + limited)" where
  "streamStep c mx lr =
     bindE (readFullBounded lr cpioHeaderSize) (\<lambda>(hdr, lr).
     bindE (cpioSizes hdr) (\<lambda>(filesize, namesize). streamEntry c mx filesize namesize lr))"

lemma streamStep_left: "streamStep c mx lr = Inr (Inr lr') \<Longrightarrow> length (left lr') < length (left lr)"
  by (auto simp: streamStep_def streamEntry_def Let_def cpioHeaderSize_def split: if_splits
      dest!: readFullBounded_left discardBounded_left)

function streamLoop :: "codecs \<Rightarrow> nat \<Rightarrow> limited \<Rightarrow> initrd_error + bytes" where
  "streamLoop c mx lr =
     (case streamStep c mx lr of
        Inl e \<Rightarrow> Inl e
      | Inr (Inl out) \<Rightarrow> Inr out
      | Inr (Inr lr') \<Rightarrow> streamLoop c mx lr')"
  by pat_completeness auto
termination
  by (relation "measure (\<lambda>(c, mx, lr). length (left lr))") (auto dest: streamStep_left)

declare streamLoop.simps [simp del]

definition streamFindZFSModule :: "codecs \<Rightarrow> nat \<Rightarrow> stream \<Rightarrow> initrd_error + bytes" where
  "streamFindZFSModule c mx r =
     streamLoop c mx \<lparr>left = stream_data r, clean = stream_clean r, budget = mx + 1\<rparr>"

definition modinfoVersion :: "codecs \<Rightarrow> bytes \<Rightarrow> initrd_error + string" where
  "modinfoVersion c koData =
     (case modinfo c koData of
        ElfBad \<Rightarrow> Inl IElf
      | ElfNoModinfo \<Rightarrow> Inl INoModinfo
      | ElfDataError \<Rightarrow> Inl IRead
      | ElfModinfo data \<Rightarrow>
          (case find (\<lambda>f. hasPrefix f ''version='') (split_on NUL data) of
             None \<Rightarrow> Inl INoVersion
           | Some f \<Rightarrow> Inr (drop (length ''version='') f)))"

definition ExtractOpenZFSVersionFromBytes :: "codecs \<Rightarrow> nat \<Rightarrow> bytes \<Rightarrow> initrd_error + string" where
  "ExtractOpenZFSVersionFromBytes c mx raw =
     bindE (decompressReader c raw) (\<lambda>r.
     bindE (streamFindZFSModule c mx r) (\<lambda>ko.
     modinfoVersion c ko))"


section \<open>The stream gives what the reference parser gives\<close>

lemma align4_mod [simp]: "align4 n mod 4 = 0"
proof (cases "n mod 4 = 0")
  case False
  have "n + (4 - n mod 4) = (n div 4 + 1) * 4" using False by (simp add: algebra_simps) presburger
  then show ?thesis using False by (simp add: align4_def)
qed (simp add: align4_def)

lemma align4_add: "p mod 4 = 0 \<Longrightarrow> align4 (p + n) = p + align4 n"
proof -
  assume "p mod 4 = 0"
  then have "(p + n) mod 4 = n mod 4" by (simp add: mod_add_eq [symmetric, of p])
  then show ?thesis unfolding align4_def by (simp only: add.assoc split: if_split) blast
qed

definition at_pos :: "bytes \<Rightarrow> nat \<Rightarrow> nat \<Rightarrow> limited" where
  "at_pos data mx pos = \<lparr>left = drop pos data, clean = True, budget = mx + 1 - pos\<rparr>"

lemma read_at_pos:
  "pos + n \<le> length data \<Longrightarrow> length data \<le> mx \<Longrightarrow>
     readFullBounded (at_pos data mx pos) n = Inr (sl data pos (pos + n), at_pos data mx (pos + n))"
  by (simp add: readFullBounded_def at_pos_def Let_def sl_def add.commute)

lemma discard_at_pos:
  "pos + n \<le> length data \<Longrightarrow> length data \<le> mx \<Longrightarrow>
     discardBounded (at_pos data mx pos) n = Inr (at_pos data mx (pos + n))"
  by (simp add: discardBounded_def read_at_pos)

lemma declared_at_pos:
  "pos + n \<le> length data \<Longrightarrow> length data \<le> mx \<Longrightarrow> checkDeclaredSize n (at_pos data mx pos) = Inr ()"
  by (simp add: checkDeclaredSize_def at_pos_def)

lemma parse_room: "parseCPIOFrom data pos = Inr es \<Longrightarrow> pos + cpioHeaderSize \<le> length data"
  by (subst (asm) parseCPIOFrom.simps) (auto split: if_splits)

lemma parseCPIOFrom_cases:
  assumes "parseCPIOFrom data pos = Inr es"
  obtains fs ns name de where
    "pos + cpioHeaderSize \<le> length data" "cpioSizes (sl data pos (pos + cpioHeaderSize)) = Inr (fs, ns)"
    "name = entryName (sl data (pos + cpioHeaderSize) (pos + cpioHeaderSize + ns))"
    "de = align4 (pos + cpioHeaderSize + ns) + fs" "pos + cpioHeaderSize + ns \<le> length data" "de \<le> length data"
    "name = ''TRAILER!!!'' \<and> es = [] \<or>
     name \<noteq> ''TRAILER!!!'' \<and> (\<exists>es'. parseCPIOFrom data (align4 de) = Inr es' \<and>
       es = \<lparr>ename = name, edata = sl data (align4 (pos + cpioHeaderSize + ns)) de\<rparr> # es')"
  using assms
  by (subst (asm) parseCPIOFrom.simps) (auto simp: Let_def split: if_splits sum.splits)

lemma stream_agrees:
  assumes "parseCPIOFrom data pos = Inr es" "pos mod 4 = 0" "length data \<le> mx"
  shows "streamLoop c mx (at_pos data mx pos) = findZFSModule c mx es"
  using assms(1,2)
proof (induction "length es" arbitrary: es pos)
  case (0 es pos)
  from 0(2) show ?case
  proof (cases rule: parseCPIOFrom_cases)
    case (1 fs ns name de)
    let ?h = "cpioHeaderSize + ns"
    have al: "align4 (pos + ?h) = pos + align4 ?h" by (rule align4_add [OF 0(3)])
    have pad: "pos + ?h + (align4 ?h - ?h) = pos + align4 ?h" using align4_ge [of ?h] by simp
    have room: "pos + align4 ?h \<le> length data" using 1 al by (simp add: add.assoc)
    have "streamStep c mx (at_pos data mx pos) = Inl INoModule"
      using 1 0 room pad assms(3) read_at_pos [of pos cpioHeaderSize data mx]
        read_at_pos [of "pos + cpioHeaderSize" ns data mx] declared_at_pos [of "pos + cpioHeaderSize" ns data mx]
        discard_at_pos [of "pos + ?h" "align4 ?h - ?h" data mx]
      by (simp add: streamStep_def streamEntry_def Let_def add.assoc)
    then show ?thesis using 0 by (subst streamLoop.simps) (simp add: findZFSModule_def)
  qed
next
  case (Suc n es pos)
  from Suc(3) show ?case
  proof (cases rule: parseCPIOFrom_cases)
    case (1 fs ns name de)
    let ?h = "cpioHeaderSize + ns"
    have al: "align4 (pos + ?h) = pos + align4 ?h" by (rule align4_add [OF Suc(4)])
    have pad: "pos + ?h + (align4 ?h - ?h) = pos + align4 ?h" using align4_ge [of ?h] by simp
    have room: "pos + align4 ?h \<le> length data" using 1 al by (simp add: add.assoc)
    from 1 Suc(2) obtain es' where nt: "name \<noteq> ''TRAILER!!!''" and rest: "parseCPIOFrom data (align4 de) = Inr es'"
      and es: "es = \<lparr>ename = name, edata = sl data (pos + align4 ?h) de\<rparr> # es'"
      using al by (auto simp: add.assoc)
    have de: "de = pos + align4 ?h + fs" using 1 al by (simp add: add.assoc)
    have m4: "(pos + align4 ?h) mod 4 = 0" using Suc(4) by (metis al align4_mod)
    have ade: "align4 de = pos + align4 ?h + align4 fs" unfolding de by (rule align4_add [OF m4])
    have ade_room: "align4 de \<le> length data" using parse_room [OF rest] by simp
    have step: "streamStep c mx (at_pos data mx pos) =
        (if matchesZFSKoSuffix name then bindE (decompress c mx (sl data (pos + align4 ?h) de)) (\<lambda>out. Inr (Inl out))
         else Inr (Inr (at_pos data mx (align4 de))))"
      using 1 nt room pad assms(3) ade ade_room de read_at_pos [of pos cpioHeaderSize data mx]
        read_at_pos [of "pos + cpioHeaderSize" ns data mx] declared_at_pos [of "pos + cpioHeaderSize" ns data mx]
        discard_at_pos [of "pos + ?h" "align4 ?h - ?h" data mx]
        declared_at_pos [of "pos + align4 ?h" fs data mx] read_at_pos [of "pos + align4 ?h" fs data mx]
        discard_at_pos [of "pos + align4 ?h" "align4 fs" data mx]
      by (simp add: streamStep_def streamEntry_def Let_def add.assoc)
    show ?thesis
    proof (cases "matchesZFSKoSuffix name")
      case True
      then show ?thesis unfolding es
        by (subst streamLoop.simps) (cases "decompress c mx (sl data (pos + align4 ?h) de)", simp_all add: step findZFSModule_def)
    next
      case False
      have "streamLoop c mx (at_pos data mx (align4 de)) = findZFSModule c mx es'"
        using Suc(2) es by (intro Suc(1) [OF _ rest]) simp_all
      then show ?thesis unfolding es using False by (subst streamLoop.simps) (simp add: step findZFSModule_def)
    qed
  qed
qed

lemma streamFind_reference:
  assumes "parseCPIO data = Inr es" "length data \<le> mx"
  shows "streamFindZFSModule c mx (Stream data True) = findZFSModule c mx es"
  using stream_agrees [of data 0 es mx c] assms by (simp add: parseCPIO_def streamFindZFSModule_def at_pos_def)


section \<open>The budget\<close>

text \<open>Two readers that agree on everything the budget lets through.\<close>

definition same_view :: "limited \<Rightarrow> limited \<Rightarrow> bool" where
  "same_view a b \<longleftrightarrow>
     budget a = budget b \<and> budget a \<le> length (left a) \<and> budget a \<le> length (left b) \<and>
     take (budget a) (left a) = take (budget a) (left b)"

definition same_read :: "bytes \<times> limited \<Rightarrow> bytes \<times> limited \<Rightarrow> bool" where
  "same_read x y \<longleftrightarrow> fst x = fst y \<and> same_view (snd x) (snd y)"

lemma same_view_read:
  assumes "same_view a b"
  shows "rel_sum (=) same_read (readFullBounded a n) (readFullBounded b n)"
proof (cases "n \<le> budget a")
  case True
  have t: "take n (left a) = take n (left b)"
    using assms True unfolding same_view_def by (metis min.absorb1 take_take)
  have "take (budget a - n) (drop n (left a)) = take (budget a - n) (drop n (left b))"
    using assms unfolding same_view_def by (metis drop_take)
  then show ?thesis using True assms t by (auto simp: readFullBounded_def Let_def same_view_def same_read_def)
next
  case False
  then show ?thesis using assms by (auto simp: readFullBounded_def Let_def same_view_def)
qed

lemma same_view_discard: "same_view a b \<Longrightarrow> rel_sum (=) same_view (discardBounded a n) (discardBounded b n)"
  unfolding discardBounded_def
  by (rule rel_bindE [OF same_view_read]) (auto simp: same_read_def)

lemma same_view_declared: "same_view a b \<Longrightarrow> checkDeclaredSize n a = checkDeclaredSize n b"
  by (simp add: checkDeclaredSize_def same_view_def)

lemma same_readE:
  assumes "same_read x y"
  obtains b lr lr' where "x = (b, lr)" "y = (b, lr')" "same_view lr lr'"
  using assms by (cases x; cases y) (auto simp: same_read_def)

lemma same_view_module:
  assumes "same_view x y"
  shows "rel_sum (=) (rel_sum (=) same_view)
      (bindE (readFullBounded x fs) (\<lambda>(data, lr). bindE (decompress c mx data) (\<lambda>out. Inr (Inl out))))
      (bindE (readFullBounded y fs) (\<lambda>(data, lr). bindE (decompress c mx data) (\<lambda>out. Inr (Inl out))))"
  by (rule rel_bindE [OF same_view_read [OF assms]], elim same_readE, clarsimp, rule rel_bindE_same) simp

lemma same_view_skip:
  "same_view x y \<Longrightarrow> rel_sum (=) (rel_sum (=) same_view) (bindE (discardBounded x n) (\<lambda>lr. Inr (Inr lr)))
      (bindE (discardBounded y n) (\<lambda>lr. Inr (Inr lr)))"
  by (rule rel_bindE [OF same_view_discard]) simp_all

lemma same_view_entry:
  assumes "same_view a b"
  shows "rel_sum (=) (rel_sum (=) same_view) (streamEntry c mx fs ns a) (streamEntry c mx fs ns b)"
  unfolding streamEntry_def Let_def same_view_declared [OF assms]
  apply (rule rel_bindE_same, rule rel_bindE [OF same_view_read [OF assms]], elim same_readE, clarsimp)
  apply (rule rel_bindE [OF same_view_discard], assumption)
  apply (auto simp: same_view_declared intro!: rel_bindE_same same_view_module same_view_skip)
  done

lemma same_view_step:
  assumes "same_view a b"
  shows "rel_sum (=) (rel_sum (=) same_view) (streamStep c mx a) (streamStep c mx b)"
  unfolding streamStep_def
  by (rule rel_bindE [OF same_view_read [OF assms]], elim same_readE, clarsimp, rule rel_bindE_same)
    (auto intro: same_view_entry)

lemma same_view_loop: "same_view a b \<Longrightarrow> streamLoop c mx a = streamLoop c mx b"
proof (induction c mx a arbitrary: b rule: streamLoop.induct)
  case (1 c mx a)
  from same_view_step [OF "1.prems", of c mx] show ?case
  proof (cases rule: rel_sum.cases)
    case (2 x y)
    show ?thesis
    proof (cases x)
      case (Inr lr)
      then obtain lr' where y: "y = Inr lr'" "same_view lr lr'" using 2(3) by (cases y) auto
      have "streamLoop c mx lr = streamLoop c mx lr'" using 2 Inr y by (intro "1.IH") auto
      then show ?thesis using 2 Inr y by (subst (1 2) streamLoop.simps) simp
    qed (use 2 in \<open>subst (1 2) streamLoop.simps, cases y, auto\<close>)
  qed (subst (1 2) streamLoop.simps, simp)
qed

lemma decompress_bound: "decompress c mx data = Inr out \<Longrightarrow> length out \<le> mx"
  by (auto simp: decompress_def readAllBounded_def Let_def split: if_splits)

lemma streamLoop_bound: "streamLoop c mx lr = Inr out \<Longrightarrow> length out \<le> mx"
proof (induction c mx lr rule: streamLoop.induct)
  case (1 c mx lr)
  have "length out \<le> mx" if "streamStep c mx lr = Inr (Inl out)"
    using that by (auto simp: streamStep_def streamEntry_def Let_def split: if_splits dest: decompress_bound)
  with 1 show ?case by (subst (asm) (2) streamLoop.simps) (auto split: sum.splits)
qed

lemma stream_prefix:
  assumes "length d = mx + 1"
  shows "streamFindZFSModule c mx (Stream (d @ x) e) = streamFindZFSModule c mx (Stream (d @ y) e')"
  unfolding streamFindZFSModule_def
  by (rule same_view_loop) (simp add: same_view_def assms)


section \<open>Properties\<close>

definition cpio_sample_header :: "string \<Rightarrow> string \<Rightarrow> bytes" where
  "cpio_sample_header fs ns =
     ''070701'' @ replicate 48 (CHR ''0'') @ fs @ replicate 32 (CHR ''0'') @ ns @ replicate 8 (CHR ''0'')"

definition sample_archive :: bytes where
  "sample_archive =
     cpio_sample_header ''00000003'' ''00000009'' @ ''a/zfs.ko'' @ [NUL, NUL] @ ''ABC'' @ [NUL] @
     cpio_sample_header ''00000000'' ''0000000B'' @ ''TRAILER!!!'' @ replicate 4 NUL"

definition sample_codecs :: codecs where
  "sample_codecs = \<lparr>gunzip = \<lambda>_. None, gunzipOne = \<lambda>_. None, unxz = \<lambda>_. None, modinfo = \<lambda>d. ElfModinfo d\<rparr>"

lemma sample_sizes: "cpioSizes (cpio_sample_header ''00000003'' ''00000009'') = Inr (3, 9)"
  "cpioSizes (cpio_sample_header ''00000000'' ''0000000B'') = Inr (0, 11)"
  by (simp_all add: cpioSizes_def cpio_sample_header_def sl_def hex8_def hex_digits_val_def hex_val_def cpioMagic_def)

lemma sample_slices:
  "sl sample_archive 0 110 = cpio_sample_header ''00000003'' ''00000009''" "sl sample_archive 124 234 = cpio_sample_header ''00000000'' ''0000000B''"
  "sl sample_archive 110 119 = ''a/zfs.ko'' @ [NUL]" "sl sample_archive 120 123 = ''ABC''" "sl sample_archive 234 245 = ''TRAILER!!!'' @ [NUL]"
  "length sample_archive = 248"
  by (simp_all add: sample_archive_def cpio_sample_header_def sl_def)

lemma sample_archive_parse: "parseCPIO sample_archive = Inr [\<lparr>ename = ''a/zfs.ko'', edata = ''ABC''\<rparr>]"
proof -
  have "parseCPIOFrom sample_archive 124 = Inr []"
    by (subst parseCPIOFrom.simps) (simp add: sample_slices sample_sizes cpioHeaderSize_def Let_def align4_def entryName_def trimRight_def)
  then show ?thesis
    unfolding parseCPIO_def by (subst parseCPIOFrom.simps) (simp add: sample_slices sample_sizes cpioHeaderSize_def Let_def align4_def entryName_def trimRight_def)
qed

text \<open>C16: the streaming cpio reader agrees with the whole-buffer reference.  Whenever the reference parses
  an archive that fits the decompression bound, the stream returns exactly what searching the parsed
  entries returns: the first \<open>zfs.ko\<close>, decompressed, the same decompression error, or no module.\<close>

theorem stream_matches_reference:
  assumes "parseCPIO data = Inr entries" "length data \<le> mx"
  shows "streamFindZFSModule c mx (Stream data True) = findZFSModule c mx entries"
  using assms by (rule streamFind_reference)

theorem stream_matches_reference_witness:
  "streamFindZFSModule sample_codecs 1000 (Stream sample_archive True) = Inr ''ABC''"
proof -
  have "length sample_archive \<le> 1000" by (simp add: sample_archive_def cpio_sample_header_def)
  from stream_matches_reference [OF sample_archive_parse this]
  have "streamFindZFSModule sample_codecs 1000 (Stream sample_archive True) =
      findZFSModule sample_codecs 1000 [\<lparr>ename = ''a/zfs.ko'', edata = ''ABC''\<rparr>]" .
  also have "\<dots> = Inr ''ABC''"
    by (simp add: findZFSModule_def matchesZFSKoSuffix_def zfsKoSuffixes_def hasSuffix_def decompress_def decompressReader_def
        readAllBounded_def)
  finally show ?thesis .
qed



end
