(* ===== verification/Payload_Writer.thy ===== *)
theory Payload_Writer
  imports Esp_Store Blk_Sum Metadata Initrd_Info
begin

text \<open>
  The boot payload writer of \<open>src/cmd/tool/main.go\<close>: KERNEL, INITRD, CMDLINE, METADATA, BLKSUM and
  CHECKSUM are one generation.  The model runs it against a file store whose calls may fail at any
  point.  The lemmas show that a run ends in the whole new generation or, unless a failed rollback was
  announced, in the store it started from, and that no crash leaves a CHECKSUM beside a payload it was
  not made for.
\<close>

section \<open>Metadata of a payload\<close>

datatype deep_error = DeepKernel kernel_error | DeepInitrd initrd_error | DeepEncode meta_error

definition deepMetadataFor ::
    "codecs \<Rightarrow> string \<Rightarrow> string \<Rightarrow> string \<Rightarrow> bytes \<Rightarrow> bytes \<Rightarrow> deep_error + MetaManifest" where
  "deepMetadataFor c arch version buildStamp kern initrd =
     bindE (mapErr DeepKernel (VersionFromImage (gunzipOne c) kern)) (\<lambda>kv.
     bindE (mapErr DeepInitrd (ExtractOpenZFSVersionFromBytes c maxDecompressedSize initrd)) (\<lambda>zv.
     Inr \<lparr>Version = version, BuildStamp = buildStamp, Arch = arch, KernelVersion = kv, OpenZFS = zv,
       KernelSHA256 = SHA256Hex kern, InitrdSHA256 = SHA256Hex initrd\<rparr>))"

definition checkMetadataEncodable :: "MetaManifest \<Rightarrow> deep_error + bytes" where
  "checkMetadataEncodable m =
     (let enc = metaEncode m in
      case metaDecode enc of Inl e \<Rightarrow> Inl (DeepEncode e) | Inr _ \<Rightarrow> Inr enc)"

definition metadataBytes ::
    "codecs \<Rightarrow> string \<Rightarrow> string \<Rightarrow> string \<Rightarrow> bytes \<Rightarrow> bytes \<Rightarrow> deep_error + bytes" where
  "metadataBytes c arch version buildStamp kern initrd =
     bindE (deepMetadataFor c arch version buildStamp kern initrd) checkMetadataEncodable"

datatype payload_error =
    PBackup path
  | PChecksum psum_error
  | PBlkSum blk_error
  | PRemove path
  | PWrite path write_error
  | PVerify path verify_file_error
  | PMetadata deep_error

definition writeMetadata ::
    "codecs \<Rightarrow> world \<Rightarrow> string \<Rightarrow> string \<Rightarrow> string \<Rightarrow> string \<Rightarrow> bytes \<Rightarrow> bytes \<Rightarrow> payload_error option \<times> world" where
  "writeMetadata c w mp arch version buildStamp kern initrd =
     (case metadataBytes c arch version buildStamp kern initrd of
        Inl e \<Rightarrow> (Some (PMetadata e), w)
      | Inr enc \<Rightarrow> mapError (PWrite (mp, MetadataFile)) (WriteFile w (mp, MetadataFile) enc))"

definition preflightBIOSMetadata ::
    "codecs \<Rightarrow> string \<Rightarrow> string \<Rightarrow> string \<Rightarrow> bytes \<Rightarrow> bytes \<Rightarrow> payload_error option" where
  "preflightBIOSMetadata c arch version buildStamp kern initrd =
     (case deepMetadataFor c arch version buildStamp kern initrd of
        Inl e \<Rightarrow> Some (PMetadata e)
      | Inr m \<Rightarrow>
          (case (if arch = ''x86_64'' then Generate kern initrd ModeWarn else Inr []) of
             Inl e \<Rightarrow> Some (PChecksum e)
           | Inr _ \<Rightarrow>
               (case checkMetadataEncodable m of Inl e \<Rightarrow> Some (PMetadata e) | Inr _ \<Rightarrow> None)))"

datatype meta_state = MetaAbsent | MetaBad "meta_error option" | MetaPresent MetaManifest

definition tryReadMetadata :: "world \<Rightarrow> string \<Rightarrow> meta_state \<times> world" where
  "tryReadMetadata w mp =
     (case readFile w (mp, MetadataFile) of
        (NotExist, w) \<Rightarrow> (MetaAbsent, w)
      | (ReadError, w) \<Rightarrow> (MetaBad None, w)
      | (Content raw, w) \<Rightarrow>
          (case metaDecode raw of Inl e \<Rightarrow> (MetaBad (Some e), w) | Inr m \<Rightarrow> (MetaPresent m, w)))"


section \<open>Backup and rollback\<close>

record payloadBackup =
  kernelB :: "bytes option"
  initrdB :: "bytes option"
  cmdlineB :: "bytes option"
  metadataB :: "bytes option"
  payloadSumB :: "bytes option"
  blkSumB :: "bytes option"

definition backupOne :: "world \<Rightarrow> path \<Rightarrow> (payload_error + bytes option) \<times> world" where
  "backupOne w p =
     (case readFile w p of
        (Content b, w) \<Rightarrow> (Inr (Some b), w)
      | (NotExist, w) \<Rightarrow> (Inr None, w)
      | (ReadError, w) \<Rightarrow> (Inl (PBackup p), w))"

definition bindW :: "('e + 'a) \<times> world \<Rightarrow> ('a \<Rightarrow> world \<Rightarrow> ('e + 'b) \<times> world) \<Rightarrow> ('e + 'b) \<times> world" where
  "bindW r k = (case r of (Inl e, w) \<Rightarrow> (Inl e, w) | (Inr x, w) \<Rightarrow> k x w)"

definition backupPayload :: "world \<Rightarrow> string \<Rightarrow> (payload_error + payloadBackup) \<times> world" where
  "backupPayload w mp =
     bindW (backupOne w (mp, KernelFile)) (\<lambda>k w.
     bindW (backupOne w (mp, InitrdFile)) (\<lambda>i w.
     bindW (backupOne w (mp, CmdlineFile)) (\<lambda>c w.
     bindW (backupOne w (mp, MetadataFile)) (\<lambda>m w.
     bindW (backupOne w (mp, PayloadSumFile)) (\<lambda>p w.
     bindW (backupOne w (mp, BlkSumFile)) (\<lambda>b w.
     (Inr \<lparr>kernelB = k, initrdB = i, cmdlineB = c, metadataB = m, payloadSumB = p, blkSumB = b\<rparr>, w)))))))"

text \<open>
  \<open>ok\<close> collects whether every restore so far worked; the two manifests come back only then, BLKSUM
  first.
\<close>

definition rollbackPayload :: "world \<Rightarrow> string \<Rightarrow> payloadBackup \<Rightarrow> world" where
  "rollbackPayload w mp b =
     (let (ok, w) = restoreAll w
            [((mp, PayloadSumFile), None), ((mp, BlkSumFile), None), ((mp, KernelFile), kernelB b),
             ((mp, InitrdFile), initrdB b), ((mp, CmdlineFile), cmdlineB b), ((mp, MetadataFile), metadataB b)];
          (ok, w) = (if ok \<and> blkSumB b \<noteq> None then restoreFile w (mp, BlkSumFile) (blkSumB b) else (ok, w));
          (ok, w) = (if ok \<and> payloadSumB b \<noteq> None then restoreFile w (mp, PayloadSumFile) (payloadSumB b) else (ok, w))
      in if ok then report w Restored else w)"


section \<open>Writing a generation\<close>

definition payloadSums :: "string \<Rightarrow> bytes \<Rightarrow> bytes \<Rightarrow> string \<Rightarrow> payload_error + bytes option \<times> bytes option" where
  "payloadSums arch kern initrd integrity =
     (if arch = ''x86_64'' then
        bindE (mapErr PChecksum (Generate kern initrd integrity)) (\<lambda>ps.
        bindE (mapErr PBlkSum (GenerateBlkSum kern initrd)) (\<lambda>bs.
        Inr (Some ps, Some bs)))
      else Inr (None, None))"

definition removeManifests :: "world \<Rightarrow> string \<Rightarrow> payload_error option \<times> world" where
  "removeManifests w mp =
     thenDo (check (PRemove (mp, PayloadSumFile)) (removeFile w (mp, PayloadSumFile))) (\<lambda>w.
     check (PRemove (mp, BlkSumFile)) (removeFile w (mp, BlkSumFile)))"

definition writeManifest :: "world \<Rightarrow> path \<Rightarrow> bytes option \<Rightarrow> payload_error option \<times> world" where
  "writeManifest w p data =
     (case data of
        None \<Rightarrow> (None, w)
      | Some d \<Rightarrow>
          thenDo (mapError (PWrite p) (WriteFile w p d)) (\<lambda>w.
          mapError (PVerify p) (VerifyFile w p d)))"

definition writeGeneration ::
    "codecs \<Rightarrow> world \<Rightarrow> string \<Rightarrow> string \<Rightarrow> string \<Rightarrow> string \<Rightarrow> bytes \<Rightarrow> bytes \<Rightarrow> bytes \<Rightarrow> bytes option \<Rightarrow> bytes option \<Rightarrow>
     payload_error option \<times> world" where
  "writeGeneration c w mp arch version buildStamp kern initrd cmdline payloadSum blkSum =
     thenDo (removeManifests w mp) (\<lambda>w.
     thenDo (mapError (\<lambda>(p, e). PWrite p e) (WritePayload w mp kern initrd cmdline)) (\<lambda>w.
     thenDo (mapError (\<lambda>(p, e). PVerify p e) (VerifyPayload w mp kern initrd cmdline)) (\<lambda>w.
     thenDo (writeMetadata c w mp arch version buildStamp kern initrd) (\<lambda>w.
     thenDo (writeManifest w (mp, BlkSumFile) blkSum) (\<lambda>w.
     writeManifest w (mp, PayloadSumFile) payloadSum)))))"

definition writePayloadWithRollback ::
    "codecs \<Rightarrow> world \<Rightarrow> string \<Rightarrow> string \<Rightarrow> string \<Rightarrow> string \<Rightarrow> bytes \<Rightarrow> bytes \<Rightarrow> bytes \<Rightarrow> string \<Rightarrow>
     payload_error option \<times> world" where
  "writePayloadWithRollback c w mp arch version buildStamp kern initrd cmdline integrity =
     (case backupPayload w mp of
        (Inl e, w) \<Rightarrow> (Some e, w)
      | (Inr b, w) \<Rightarrow>
          (case payloadSums arch kern initrd integrity of
             Inl e \<Rightarrow> (Some e, w)
           | Inr (payloadSum, blkSum) \<Rightarrow>
               (case writeGeneration c w mp arch version buildStamp kern initrd cmdline payloadSum blkSum of
                  (None, w) \<Rightarrow> (None, w)
                | (Some e, w) \<Rightarrow> (Some e, rollbackPayload w mp b))))"

section \<open>Running the writer\<close>

text \<open>Postconditions for success and for an error.\<close>

definition runs :: "'e option \<times> world \<Rightarrow> (world \<Rightarrow> bool) \<Rightarrow> (world \<Rightarrow> bool) \<Rightarrow> bool" where
  "runs r Q E = (case r of (None, w) \<Rightarrow> Q w | (Some _, w) \<Rightarrow> E w)"

lemma runs_simps [simp]: "runs (None, w) Q E = Q w" "runs (Some e, w) Q E = E w"
  by (simp_all add: runs_def)

lemma runs_thenDo: "runs r R E \<Longrightarrow> (\<And>w. R w \<Longrightarrow> runs (k w) Q E) \<Longrightarrow> runs (thenDo r k) Q E"
  by (cases r; cases "fst r") auto

lemma runs_mapError [simp]: "runs (mapError g r) Q E = runs r Q E"
  by (cases r; cases "fst r") (auto simp: mapError_def)

text \<open>What holds throughout: the contents so far were safe, other files are untouched, no new critical report.\<close>

definition going :: "(files \<Rightarrow> bool) \<Rightarrow> path set \<Rightarrow> files \<Rightarrow> bool \<Rightarrow> world \<Rightarrow> bool" where
  "going I S f0 c0 w \<longleftrightarrow> safe I w \<and> (\<forall>q. q \<notin> S \<longrightarrow> files w q = f0 q) \<and> critical w = c0"

definition at :: "(files \<Rightarrow> bool) \<Rightarrow> path set \<Rightarrow> files \<Rightarrow> bool \<Rightarrow> files \<Rightarrow> world \<Rightarrow> bool" where
  "at I S f0 c0 F w \<longleftrightarrow> going I S f0 c0 w \<and> files w = F"

lemma going_quiet: "quiet w w' \<Longrightarrow> going I S f0 c0 w' = going I S f0 c0 w"
  by (auto simp: going_def safe_quiet critical_quiet) (auto simp: quiet_def)

lemma at_quiet: "quiet w w' \<Longrightarrow> at I S f0 c0 F w \<Longrightarrow> at I S f0 c0 F w'"
  by (simp add: at_def going_quiet) (simp add: quiet_def)

lemma at_changed:
  assumes "changed w p v w'" "at I S f0 c0 F w" "p \<in> S" "I (F(p := v))"
  shows "at I S f0 c0 (F(p := v)) w'"
  using assms by (auto simp: at_def going_def safe_changed critical_changed) (auto simp: changed_def)

lemma runs_WriteFile:
  assumes "at I S f0 c0 F w" "p \<in> S" "I (F(p \<mapsto> b))"
  shows "runs (WriteFile w p b) (at I S f0 c0 (F(p \<mapsto> b))) (going I S f0 c0)"
proof -
  obtain e w' where r: "WriteFile w p b = (e, w')" by (cases "WriteFile w p b")
  from WriteFile_cases [OF r] show ?thesis
  proof (elim disjE conjE)
    assume "changed w p (Some b) w'"
    from at_changed [OF this assms] show ?thesis unfolding r by (cases e) (simp_all add: at_def)
  next
    assume "e \<noteq> None" "quiet w w'"
    then show ?thesis using at_quiet [OF _ assms(1)] unfolding r by (cases e) (simp_all add: at_def)
  qed
qed

lemma runs_VerifyFile:
  "at I S f0 c0 F w \<Longrightarrow> runs (VerifyFile w p b) (at I S f0 c0 F) (going I S f0 c0)"
proof -
  assume a: "at I S f0 c0 F w"
  obtain e w' where r: "VerifyFile w p b = (e, w')" by (cases "VerifyFile w p b")
  then have "at I S f0 c0 F w'" using VerifyFile_quiet [OF r] at_quiet [OF _ a] by blast
  then show ?thesis unfolding r by (cases e) (simp_all add: at_def)
qed

lemma runs_removeFile:
  assumes "at I S f0 c0 F w" "p \<in> S" "I (F(p := None))"
  shows "runs (check e (removeFile w p)) (at I S f0 c0 (F(p := None))) (going I S f0 c0)"
proof -
  obtain ok w' where r: "removeFile w p = (ok, w')" by (cases "removeFile w p")
  from removeFile_cases [OF r] show ?thesis
  proof (elim disjE conjE)
    assume "changed w p None w'"
    from at_changed [OF this assms] show ?thesis unfolding r by (cases ok) (simp_all add: check_def at_def)
  next
    assume q: "quiet w w'" "ok \<longrightarrow> files w p = None"
    have "F(p := None) = F" if ok using q(2) that assms(1) by (auto simp: at_def)
    then show ?thesis using at_quiet [OF q(1) assms(1)] unfolding r by (cases ok) (simp_all add: check_def at_def)
  qed
qed

definition generationFiles :: "string \<Rightarrow> path set" where
  "generationFiles mp =
     {(mp, KernelFile), (mp, InitrdFile), (mp, CmdlineFile), (mp, MetadataFile), (mp, PayloadSumFile), (mp, BlkSumFile)}"

text \<open>The store with a whole new generation in it.\<close>

definition newGeneration ::
    "files \<Rightarrow> string \<Rightarrow> bytes \<Rightarrow> bytes \<Rightarrow> bytes \<Rightarrow> bytes \<Rightarrow> bytes option \<Rightarrow> bytes option \<Rightarrow> files" where
  "newGeneration f mp kern initrd cmdline meta payloadSum blkSum =
     f((mp, KernelFile) \<mapsto> kern, (mp, InitrdFile) \<mapsto> initrd, (mp, CmdlineFile) \<mapsto> cmdline,
       (mp, MetadataFile) \<mapsto> meta, (mp, BlkSumFile) := blkSum, (mp, PayloadSumFile) := payloadSum)"

text \<open>No stale CHECKSUM: there is none, or the store is the old one or the new one.\<close>

definition fresh :: "files \<Rightarrow> files \<Rightarrow> string \<Rightarrow> files \<Rightarrow> bool" where
  "fresh old new mp f \<longleftrightarrow> f (mp, PayloadSumFile) = None \<or> f = old \<or> f = new"

definition upd :: "files \<Rightarrow> path \<times> bytes \<Rightarrow> files" where
  "upd F pb = F(fst pb \<mapsto> snd pb)"

lemma runs_writeAll:
  assumes "at I S f0 c0 F w" "\<forall>(p, b) \<in> set fs. p \<in> S \<and> p \<noteq> q" "F q = None" "\<And>f. f q = None \<Longrightarrow> I f"
  shows "runs (writeAll w fs) (at I S f0 c0 (foldl upd F fs)) (going I S f0 c0)"
  using assms(1-3)
proof (induction w fs arbitrary: F rule: writeAll.induct)
  case (2 w p b fs)
  have f: "upd F (p, b) = F(p \<mapsto> b)" "upd F (p, b) q = None" using 2(3,4) by (auto simp: upd_def)
  have "runs (WriteFile w p b) (at I S f0 c0 (upd F (p, b))) (going I S f0 c0)"
    unfolding f(1) using 2 f by (intro runs_WriteFile assms(4)) auto
  moreover have "runs (writeAll x fs) (at I S f0 c0 (foldl upd (upd F (p, b)) fs)) (going I S f0 c0)"
    if "at I S f0 c0 (upd F (p, b)) x" for x
    using 2(3) f(2) by (intro 2(1) [OF that]) auto
  ultimately show ?case
    unfolding writeAll.simps foldl.simps by (intro runs_thenDo [where R = "at I S f0 c0 (upd F (p, b))"]) simp_all
qed simp

lemma runs_verifyAll:
  assumes "at I S f0 c0 F w"
  shows "runs (verifyAll w fs) (at I S f0 c0 F) (going I S f0 c0)"
proof -
  obtain e w' where r: "verifyAll w fs = (e, w')" by (cases "verifyAll w fs")
  then have "at I S f0 c0 F w'" using verifyAll_quiet [OF r] at_quiet [OF _ assms] by blast
  then show ?thesis unfolding r by (cases e) (simp_all add: at_def)
qed

lemma runs_writeManifest:
  assumes "at I S f0 c0 F w" "p \<in> S" "I (F(p := data))" "F p = None"
  shows "runs (writeManifest w p data) (at I S f0 c0 (F(p := data))) (going I S f0 c0)"
proof (cases data)
  case None
  then have "F(p := data) = F" using assms(4) by auto
  then show ?thesis using assms(1) None by (simp add: writeManifest_def)
next
  case (Some d)
  then show ?thesis
    using assms runs_WriteFile [OF assms(1,2), of d]
    by (auto simp: writeManifest_def intro!: runs_thenDo [where R = "at I S f0 c0 (F(p \<mapsto> d))"] runs_VerifyFile)
qed

lemma writeGeneration_runs:
  assumes new: "\<And>enc. metadataBytes c arch version buildStamp kern initrd = Inr enc \<Longrightarrow>
      new = newGeneration f0 mp kern initrd cmdline enc payloadSum blkSum"
    and I: "I = fresh f0 new mp" and S: "S = generationFiles mp"
    and "going I S f0 c0 w" "files w = f0"
  shows "runs (writeGeneration c w mp arch version buildStamp kern initrd cmdline payloadSum blkSum)
    (\<lambda>w. isOk (metadataBytes c arch version buildStamp kern initrd) \<and> at I S f0 c0 new w) (going I S f0 c0)"
proof -
  let ?md = "metadataBytes c arch version buildStamp kern initrd"
  let ?K = "(mp, KernelFile)" and ?N = "(mp, InitrdFile)" and ?C = "(mp, CmdlineFile)" and ?M = "(mp, MetadataFile)"
    and ?P = "(mp, PayloadSumFile)" and ?B = "(mp, BlkSumFile)"
  let ?F = "f0(?P := None, ?B := None)"
  let ?G = "?F(?K \<mapsto> kern, ?N \<mapsto> initrd, ?C \<mapsto> cmdline)"
  have mem: "?K \<in> S" "?N \<in> S" "?C \<in> S" "?M \<in> S" "?P \<in> S" "?B \<in> S" by (simp_all add: S generationFiles_def)
  have free: "I f" if "f ?P = None" for f using that by (simp add: I fresh_def)
  have "at I S f0 c0 f0 w" using assms(4,5) by (simp add: at_def)
  then have rem: "runs (removeManifests w mp) (at I S f0 c0 ?F) (going I S f0 c0)"
    unfolding removeManifests_def
    by (intro runs_thenDo [where R = "at I S f0 c0 (f0(?P := None))"] runs_removeFile mem free) (simp_all add: file_neq)
  have pay: "runs (WritePayload w mp kern initrd cmdline) (at I S f0 c0 ?G) (going I S f0 c0)" if "at I S f0 c0 ?F w" for w
    unfolding WritePayload_def payloadFiles_def
    using runs_writeAll [OF that, of "[(?K, kern), (?N, initrd), (?C, cmdline)]" ?P] free mem by (simp add: file_neq upd_def)
  let ?H = "\<lambda>enc. ?G(?M \<mapsto> enc)"
  have met: "runs (writeMetadata c w mp arch version buildStamp kern initrd) (\<lambda>w. \<exists>enc. ?md = Inr enc \<and> at I S f0 c0 (?H enc) w)
      (going I S f0 c0)" if "at I S f0 c0 ?G w" for w
  proof (cases ?md)
    case (Inl e)
    then show ?thesis using that by (simp add: writeMetadata_def at_def)
  next
    case (Inr enc)
    then show ?thesis
      using runs_WriteFile [OF that mem(4), of enc] free unfolding writeMetadata_def by (simp add: file_neq)
  qed
  have blk: "runs (writeManifest w ?B blkSum) (\<lambda>w. \<exists>enc. ?md = Inr enc \<and> at I S f0 c0 ((?H enc)(?B := blkSum)) w) (going I S f0 c0)"
    if "\<exists>enc. ?md = Inr enc \<and> at I S f0 c0 (?H enc) w" for w
  proof -
    from that obtain enc where e: "?md = Inr enc" "at I S f0 c0 (?H enc) w" by blast
    have "runs (writeManifest w ?B blkSum) (at I S f0 c0 ((?H enc)(?B := blkSum))) (going I S f0 c0)"
      by (rule runs_writeManifest [OF e(2) mem(6)]) (simp_all add: free file_neq)
    then show ?thesis by (simp add: e(1))
  qed
  have chk: "runs (writeManifest w ?P payloadSum) (\<lambda>w. isOk ?md \<and> at I S f0 c0 new w) (going I S f0 c0)"
    if "\<exists>enc. ?md = Inr enc \<and> at I S f0 c0 ((?H enc)(?B := blkSum)) w" for w
  proof -
    from that obtain enc where e: "?md = Inr enc" "at I S f0 c0 ((?H enc)(?B := blkSum)) w" by blast
    have eq: "(?H enc)(?B := blkSum, ?P := payloadSum) = new"
      unfolding new [OF e(1)] newGeneration_def by (rule ext) (simp add: file_neq)
    have "runs (writeManifest w ?P payloadSum) (at I S f0 c0 ((?H enc)(?B := blkSum, ?P := payloadSum))) (going I S f0 c0)"
      by (rule runs_writeManifest [OF e(2) mem(5)]) (simp_all only: eq, simp_all add: I fresh_def file_neq)
    then show ?thesis by (simp only: eq e(1) isOk_simps simp_thms)
  qed
  show ?thesis
    unfolding writeGeneration_def VerifyPayload_def
    by (rule runs_thenDo [OF rem], rule runs_thenDo, simp, erule pay, rule runs_thenDo, simp, erule runs_verifyAll,
        rule runs_thenDo, erule met, rule runs_thenDo, erule blk, erule chk)
qed


section \<open>Rolling back\<close>

definition backupOf :: "files \<Rightarrow> string \<Rightarrow> payloadBackup" where
  "backupOf f mp =
     \<lparr>kernelB = f (mp, KernelFile), initrdB = f (mp, InitrdFile), cmdlineB = f (mp, CmdlineFile),
      metadataB = f (mp, MetadataFile), payloadSumB = f (mp, PayloadSumFile), blkSumB = f (mp, BlkSumFile)\<rparr>"

lemma backupOne_result:
  "backupOne w p = (r, w') \<Longrightarrow> quiet w w' \<and> (\<forall>v. r = Inr v \<longrightarrow> v = files w p)"
  by (auto simp: backupOne_def split: prod.splits read_result.splits dest: readFile_quiet readFile_result)

lemma bindW_cases:
  assumes "bindW r k = (y, w')"
  obtains e where "r = (Inl e, w')" "y = Inl e" | x w1 where "r = (Inr x, w1)" "k x w1 = (y, w')"
  using assms by (cases r; cases "fst r") (auto simp: bindW_def)

lemma bindW_backup:
  assumes "bindW (backupOne w p) k = (y, w')"
  shows "\<exists>w1. quiet w w1 \<and> ((\<exists>e. y = Inl e \<and> w' = w1) \<or> k (files w p) w1 = (y, w'))"
  using assms by (cases rule: bindW_cases) (auto dest!: backupOne_result)

lemma backupPayload_result:
  assumes "backupPayload w mp = (r, w')"
  shows "quiet w w' \<and> (\<forall>b. r = Inr b \<longrightarrow> b = backupOf (files w) mp)"
  using assms unfolding backupPayload_def
  by (auto dest!: bindW_backup simp: backupOf_def) (auto simp: quiet_def)

text \<open>The restores one after the other: the flag and the world after each group.\<close>

lemma rollbackPayload_steps:
  fixes mp f0
  defines "rs \<equiv> [((mp, BlkSumFile), None), ((mp, KernelFile), f0 (mp, KernelFile)), ((mp, InitrdFile), f0 (mp, InitrdFile)),
      ((mp, CmdlineFile), f0 (mp, CmdlineFile)), ((mp, MetadataFile), f0 (mp, MetadataFile))]"
  obtains ok1 w1 ok2 w2 ok3 w3 ok4 w4 where
    "restoreFile w (mp, PayloadSumFile) None = (ok1, w1)" "restoreAll w1 rs = (ok2, w2)"
    "(if (ok1 \<and> ok2) \<and> f0 (mp, BlkSumFile) \<noteq> None then restoreFile w2 (mp, BlkSumFile) (f0 (mp, BlkSumFile)) else (ok1 \<and> ok2, w2)) = (ok3, w3)"
    "(if ok3 \<and> f0 (mp, PayloadSumFile) \<noteq> None then restoreFile w3 (mp, PayloadSumFile) (f0 (mp, PayloadSumFile)) else (ok3, w3)) = (ok4, w4)"
    "rollbackPayload w mp (backupOf f0 mp) = (if ok4 then report w4 Restored else w4)"
proof -
  obtain ok1 w1 where 1: "restoreFile w (mp, PayloadSumFile) None = (ok1, w1)" by fastforce
  obtain ok2 w2 where 2: "restoreAll w1 rs = (ok2, w2)" by fastforce
  obtain ok3 w3 where 3: "(if (ok1 \<and> ok2) \<and> f0 (mp, BlkSumFile) \<noteq> None then restoreFile w2 (mp, BlkSumFile) (f0 (mp, BlkSumFile))
      else (ok1 \<and> ok2, w2)) = (ok3, w3)" by fastforce
  obtain ok4 w4 where 4: "(if ok3 \<and> f0 (mp, PayloadSumFile) \<noteq> None then restoreFile w3 (mp, PayloadSumFile) (f0 (mp, PayloadSumFile))
      else (ok3, w3)) = (ok4, w4)" by fastforce
  have "restoreAll w (((mp, PayloadSumFile), None) # rs) = (ok1 \<and> ok2, w2)" by (simp only: restoreAll.simps 1 2 prod.case)
  then have "rollbackPayload w mp (backupOf f0 mp) = (if ok4 then report w4 Restored else w4)"
    unfolding rollbackPayload_def backupOf_def payloadBackup.simps rs_def [symmetric] by (simp only: prod.case Let_def 3 4)
  from that [OF 1 2 3 4 this] show ?thesis .
qed

text \<open>The rollback: no stale CHECKSUM on the way, and the old store at the end unless a failure was reported.\<close>

lemma rollbackPayload_result:
  assumes "going (fresh f0 new mp) (generationFiles mp) f0 c0 w"
  defines "w' \<equiv> rollbackPayload w mp (backupOf f0 mp)"
  shows "safe (fresh f0 new mp) w' \<and> (critical w' \<or> files w' = f0)"
proof -
  let ?I = "fresh f0 new mp" and ?P = "(mp, PayloadSumFile)" and ?B = "(mp, BlkSumFile)"
  let ?rs = "[(?B, None), ((mp, KernelFile), f0 (mp, KernelFile)), ((mp, InitrdFile), f0 (mp, InitrdFile)),
      ((mp, CmdlineFile), f0 (mp, CmdlineFile)), ((mp, MetadataFile), f0 (mp, MetadataFile))]"
  have free: "f ?P = None \<Longrightarrow> ?I f" for f by (simp add: fresh_def)
  have out: "files w q = f0 q" if "q \<notin> generationFiles mp" for q
    using assms(1) that by (cases q) (simp add: going_def)
  have s0: "safe ?I w" using assms(1) by (simp add: going_def)
  obtain ok1 w1 ok2 w2 ok3 w3 ok4 w4 where
    1: "restoreFile w ?P None = (ok1, w1)" and 2: "restoreAll w1 ?rs = (ok2, w2)" and
    3: "(if (ok1 \<and> ok2) \<and> f0 ?B \<noteq> None then restoreFile w2 ?B (f0 ?B) else (ok1 \<and> ok2, w2)) = (ok3, w3)" and
    4: "(if ok3 \<and> f0 ?P \<noteq> None then restoreFile w3 ?P (f0 ?P) else (ok3, w3)) = (ok4, w4)" and
    w': "w' = (if ok4 then report w4 Restored else w4)"
    unfolding w'_def by (rule rollbackPayload_steps)
  have "safe ?I w1" by (rule restoreFile_safe [OF 1 s0]) (simp add: free)
  moreover have "critical w1 \<or> files w1 ?P = None"
    using restoreFile_critical [OF 1] restoreFile_ok [of w ?P None w1] 1 by (cases ok1) auto
  ultimately have s2: "safe ?I w2" "critical w2 \<or> files w2 ?P = None"
    using restoreAll_safe [OF 2, of ?P ?I] free by (simp_all add: file_neq)
  have s3: "safe ?I w3"
    using 3 s2 restoreFile_safe [of w2 ?B "f0 ?B" ok3 w3 ?I] by (auto simp: free file_neq split: if_splits)
  have c2: "critical w2 \<or> ok1 \<and> ok2"
    using restoreFile_critical [OF 1] restoreAll_critical [OF 2] by auto
  have c3: "critical w3 \<or> ok3"
    using 3 c2 restoreFile_critical [of w2 ?B "f0 ?B" ok3 w3] by (auto split: if_splits)
  have f3: "files w3 = f0(?P := None)" if ok3
  proof -
    have ok: ok1 ok2 using 3 that by (auto split: if_splits)
    have "files w2 = foldl setFile ((files w)(?P := None)) ?rs"
      using restoreAll_ok [of w1 ?rs w2] restoreFile_ok [of w ?P None w1] 1 2 ok by simp
    moreover have "files w3 = (files w2)(?B := f0 ?B)"
      using 3 that ok restoreFile_ok [of w2 ?B "f0 ?B" w3] \<open>files w2 = _\<close>
      by (cases "f0 ?B") (auto simp: file_neq fun_eq_iff)
    ultimately have "files w3 q = (f0(?P := None)) q" for q
      using out [of q] by (cases "q \<in> generationFiles mp") (auto simp: generationFiles_def file_neq)
    then show ?thesis by (rule ext)
  qed
  have r3: "(files w3)(?P := f0 ?P) = f0" if ok3 using f3 [OF that] by simp
  have "critical w3 \<or> ?I ((files w3)(?P := f0 ?P))" using c3 r3 by (auto simp: fresh_def)
  then have s4: "safe ?I w4"
    using 4 s3 restoreFile_safe [of w3 ?P "f0 ?P" ok4 w4 ?I] by (auto split: if_splits)
  have c4: "critical w4 \<or> ok4"
    using 4 c3 restoreFile_critical [of w3 ?P "f0 ?P" ok4 w4] by (auto split: if_splits)
  have f4: "files w4 = f0" if ok4
  proof (cases "f0 ?P")
    case None
    then show ?thesis using 4 that f3 by (auto simp: fun_eq_iff)
  next
    case (Some v)
    then have "ok3" "restoreFile w3 ?P (f0 ?P) = (True, w4)" using 4 that by (auto split: if_splits)
    then show ?thesis using restoreFile_ok r3 by simp
  qed
  show ?thesis using s4 c4 f4 unfolding w' by (cases ok4) (simp_all add: safe_report)
qed


section \<open>The whole run\<close>

lemma going_start: "trace w = [] \<Longrightarrow> going I S (files w) False w"
  by (simp add: going_def safe_def critical_def)

lemma writePayloadWithRollback_run:
  assumes "trace w = []"
    and new: "\<And>enc ps bs. metadataBytes c arch version buildStamp kern initrd = Inr enc \<Longrightarrow>
      payloadSums arch kern initrd integrity = Inr (ps, bs) \<Longrightarrow> new = newGeneration (files w) mp kern initrd cmdline enc ps bs"
  shows "runs (writePayloadWithRollback c w mp arch version buildStamp kern initrd cmdline integrity)
    (\<lambda>w'. isOk (metadataBytes c arch version buildStamp kern initrd) \<and> isOk (payloadSums arch kern initrd integrity) \<and>
       files w' = new \<and> \<not> critical w' \<and> safe (fresh (files w) new mp) w')
    (\<lambda>w'. (critical w' \<or> files w' = files w) \<and> safe (fresh (files w) new mp) w')"
proof -
  let ?f = "files w" and ?I = "fresh (files w) new mp" and ?S = "generationFiles mp"
  obtain r w1 where b: "backupPayload w mp = (r, w1)" by fastforce
  from backupPayload_result [OF b] have q: "quiet w w1" and r: "\<And>b. r = Inr b \<Longrightarrow> b = backupOf ?f mp" by auto
  have go: "going ?I ?S ?f False w1" using going_start [OF assms(1)] by (simp add: going_quiet [OF q])
  have f1: "files w1 = ?f" using q by (simp add: quiet_def)
  show ?thesis
  proof (cases r)
    case (Inl e)
    then show ?thesis using go f1 by (simp add: writePayloadWithRollback_def b going_def)
  next
    case (Inr bk)
    show ?thesis
    proof (cases "payloadSums arch kern initrd integrity")
      case (Inl e)
      then show ?thesis using go f1 Inr by (simp add: writePayloadWithRollback_def b going_def)
    next
      case sums: (Inr s)
      obtain ps bs where s: "s = (ps, bs)" by (cases s)
      let ?w = "writeGeneration c w1 mp arch version buildStamp kern initrd cmdline ps bs"
      have g: "runs ?w (\<lambda>w. isOk (metadataBytes c arch version buildStamp kern initrd) \<and> at ?I ?S ?f False new w) (going ?I ?S ?f False)"
        by (rule writeGeneration_runs [OF _ refl refl go f1]) (simp add: new sums s)
      show ?thesis
      proof (cases "?w")
        case (Pair e w2)
        then show ?thesis
          using g rollbackPayload_result [of ?f new mp False w2] r [OF Inr]
          by (cases e) (auto simp: writePayloadWithRollback_def b Inr sums s at_def going_def)
      qed
    qed
  qed
qed

text \<open>A CHECKSUM, where there is one, verifies the kernel and initrd beside it.\<close>

definition checksumHolds :: "string \<Rightarrow> files \<Rightarrow> bool" where
  "checksumHolds mp f =
     (case f (mp, PayloadSumFile) of
        None \<Rightarrow> True
      | Some raw \<Rightarrow>
          (case (Decode raw, f (mp, KernelFile), f (mp, InitrdFile)) of
             (Inr m, Some kern, Some initrd) \<Rightarrow> Verify m kern initrd = []
           | _ \<Rightarrow> False))"

lemma checksumHolds_new:
  assumes "payloadSums arch kern initrd integrity = Inr (ps, bs)"
  shows "checksumHolds mp (newGeneration f mp kern initrd cmdline enc ps bs)"
proof (cases ps)
  case None
  then show ?thesis by (simp add: checksumHolds_def newGeneration_def file_neq)
next
  case (Some raw)
  then have gen: "Generate kern initrd integrity = Inr raw"
    using assms by (auto simp: payloadSums_def bindE_def mapErr_def split: if_splits sum.splits)
  obtain off where "KernelRAMOffset kern = Inr off"
    using gen by (auto simp: Generate_def New_def bindE_def mapErr_def split: if_splits sum.splits)
  then obtain m where "Decode raw = Inr m" "Verify m kern initrd = []" using Generate_verifies [OF gen] by auto
  then show ?thesis by (simp add: checksumHolds_def newGeneration_def file_neq Some)
qed

lemma safe_mono: "safe I w \<Longrightarrow> (\<And>f. I f \<Longrightarrow> J f) \<Longrightarrow> safe J w"
  by (auto simp: safe_def)

lemma writer_checksumHolds:
  assumes "trace w = []" "checksumHolds mp (files w)"
    "writePayloadWithRollback c w mp arch version buildStamp kern initrd cmdline integrity = (e, w')"
  shows "safe (checksumHolds mp) w'"
proof -
  let ?md = "metadataBytes c arch version buildStamp kern initrd" and ?ps = "payloadSums arch kern initrd integrity"
  define new where "new = (case (?md, ?ps) of (Inr enc, Inr (ps, bs)) \<Rightarrow> newGeneration (files w) mp kern initrd cmdline enc ps bs | _ \<Rightarrow> files w)"
  have "safe (fresh (files w) new mp) w'"
    using writePayloadWithRollback_run [OF assms(1), of c arch version buildStamp kern initrd integrity new mp cmdline] assms(3)
    by (cases e) (simp_all add: new_def)
  moreover have "checksumHolds mp f" if "fresh (files w) new mp f" for f
    using that assms(2) checksumHolds_new [of arch kern initrd integrity]
    by (auto simp: fresh_def new_def split: sum.splits) (simp_all add: checksumHolds_def)
  ultimately show ?thesis by (rule safe_mono)
qed

lemma writer_atomic:
  assumes "trace w = []"
    "writePayloadWithRollback c w mp arch version buildStamp kern initrd cmdline integrity = (e, w')"
  shows "case e of
      None \<Rightarrow> \<not> critical w' \<and> (\<exists>enc ps bs. metadataBytes c arch version buildStamp kern initrd = Inr enc \<and>
        payloadSums arch kern initrd integrity = Inr (ps, bs) \<and> files w' = newGeneration (files w) mp kern initrd cmdline enc ps bs)
    | Some _ \<Rightarrow> critical w' \<or> files w' = files w"
proof -
  let ?md = "metadataBytes c arch version buildStamp kern initrd" and ?ps = "payloadSums arch kern initrd integrity"
  define new where "new = (case (?md, ?ps) of (Inr enc, Inr (ps, bs)) \<Rightarrow> newGeneration (files w) mp kern initrd cmdline enc ps bs | _ \<Rightarrow> files w)"
  have "runs (e, w') (\<lambda>w'. isOk ?md \<and> isOk ?ps \<and> files w' = new \<and> \<not> critical w') (\<lambda>w'. critical w' \<or> files w' = files w)"
    using writePayloadWithRollback_run [OF assms(1), of c arch version buildStamp kern initrd integrity new mp cmdline] assms(2)
    by (cases e) (simp_all add: new_def)
  then show ?thesis by (cases e) (auto simp: new_def isOk_def split: sum.splits)
qed

text \<open>On a disk that works the writer finishes.\<close>

lemma writer_finishes:
  assumes "fsio w = []" "isOk (metadataBytes c arch version buildStamp kern initrd)" "isOk (payloadSums arch kern initrd integrity)"
  shows "fst (writePayloadWithRollback c w mp arch version buildStamp kern initrd cmdline integrity) = None"
proof -
  obtain enc ps bs where ok: "metadataBytes c arch version buildStamp kern initrd = Inr enc" "payloadSums arch kern initrd integrity = Inr (ps, bs)"
    using assms(2,3) by (auto simp: isOk_def split: sum.splits)
  have one: "backupOne x p = (Inr (files x p), x)" if "fsio x = []" for x p
    using that by (simp add: backupOne_def calm split: option.split)
  have bk: "backupPayload w mp = (Inr (backupOf (files w) mp), w)"
    by (simp add: backupPayload_def one assms(1) bindW_def backupOf_def)
  have man: "\<exists>y. writeManifest x p d = (None, y) \<and> fsio y = []" if "fsio x = []" for x p d
    using that by (auto simp: writeManifest_def calm mapError_def split: option.split)
  have rem: "\<exists>y. removeManifests x mp = (None, y) \<and> fsio y = []" if "fsio x = []" for x
    using that by (auto simp: removeManifests_def calm check_def)
  have wp: "\<exists>y. WritePayload x mp kern initrd cmdline = (None, y) \<and> fsio y = [] \<and> VerifyPayload y mp kern initrd cmdline = (None, y)"
    if "fsio x = []" for x
    using that by (simp add: WritePayload_def VerifyPayload_def payloadFiles_def calm mapError_def file_neq)
  have wm: "\<exists>y. writeMetadata c x mp arch version buildStamp kern initrd = (None, y) \<and> fsio y = []" if "fsio x = []" for x
    using that by (simp add: writeMetadata_def ok calm mapError_def)
  obtain w1 where 1: "removeManifests w mp = (None, w1)" "fsio w1 = []" using rem assms(1) by blast
  obtain w2 where 2: "WritePayload w1 mp kern initrd cmdline = (None, w2)" "fsio w2 = []" "VerifyPayload w2 mp kern initrd cmdline = (None, w2)"
    using wp 1 by blast
  obtain w3 where 3: "writeMetadata c w2 mp arch version buildStamp kern initrd = (None, w3)" "fsio w3 = []" using wm 2 by blast
  obtain w4 where 4: "writeManifest w3 (mp, BlkSumFile) bs = (None, w4)" "fsio w4 = []" using man 3 by blast
  obtain w5 where 5: "writeManifest w4 (mp, PayloadSumFile) ps = (None, w5)" using man 4 by blast
  show ?thesis
    by (simp add: writePayloadWithRollback_def bk ok writeGeneration_def 1 2 3 4 5 mapError_def)
qed

text \<open>METADATA that was written decodes and names the payload beside it.\<close>

lemma metadataBytes_vouch:
  assumes "metadataBytes c arch version buildStamp kern initrd = Inr enc"
  shows "\<exists>m. metaDecode enc = Inr m \<and> (\<forall>kern' initrd'.
    (VerifyHash kern' (KernelSHA256 m) \<longleftrightarrow> Sum256 kern' = Sum256 kern) \<and>
    (VerifyHash initrd' (InitrdSHA256 m) \<longleftrightarrow> Sum256 initrd' = Sum256 initrd))"
proof -
  obtain m0 where m0: "deepMetadataFor c arch version buildStamp kern initrd = Inr m0" and e: "checkMetadataEncodable m0 = Inr enc"
    using assms by (auto simp: metadataBytes_def)
  have h: "KernelSHA256 m0 = SHA256Hex kern" "InitrdSHA256 m0 = SHA256Hex initrd"
    using m0 by (auto simp: deepMetadataFor_def)
  obtain m where m: "metaDecode enc = Inr m" "enc = metaEncode m0"
    using e by (auto simp: checkMetadataEncodable_def Let_def split: sum.splits)
  then have "KernelSHA256 m = SHA256Hex kern" "InitrdSHA256 m = SHA256Hex initrd"
    using metaDecode_Encode_hashes [of m0 m] by (simp_all add: h)
  then show ?thesis using m(1) by auto
qed


section \<open>A sample generation\<close>

definition bzimage_head :: bytes where
  "bzimage_head = replicate 0x1f1 NUL @ [CHR 0x01] @ replicate 12 NUL @ [CHR 0x55, CHR 0xAA] @
     [NUL, NUL] @ ''HdrS'' @ [CHR 0x0F, CHR 0x02] @ replicate 6 NUL @ [NUL, CHR 0x01] @ replicate 240 NUL"

definition sample_bzimage :: bytes where
  "sample_bzimage = bzimage_head @ ''6.6.1'' @ NUL # replicate 400 NUL"

definition sample_zfs_codecs :: codecs where
  "sample_zfs_codecs =
     \<lparr>gunzip = \<lambda>_. None, gunzipOne = \<lambda>_. None, unxz = \<lambda>_. None, modinfo = \<lambda>_. ElfModinfo (''license=CDDL'' @ NUL # ''version=2.2.4'' @ [NUL])\<rparr>"

lemma sample_bzimage_version: "VersionFromImage g sample_bzimage = Inr ''6.6.1''"
proof -
  have "VersionFromBytes sample_bzimage = Inr ''6.6.1''"
  proof (rule VersionFromBytes_reads [where relOff = "0x100"])
    show "sample_bzimage = bzimage_head @ ''6.6.1'' @ NUL # replicate 400 NUL" by (simp add: sample_bzimage_def)
  qed (simp_all add: bzimage_head_def kernel_off_defs sl_def nth_append le16_def)
  then show ?thesis by (simp add: VersionFromImage_def)
qed

lemma sample_bzimage_offset: "KernelRAMOffset sample_bzimage = Inr 1024" "length sample_bzimage = 1174"
  by (simp_all add: KernelRAMOffset_def sample_bzimage_def bzimage_head_def offSetupSects_def offBootFlag_def offHeader_def
      sl_def le16_def nth_append)

lemma sample_initrd_version: "ExtractOpenZFSVersionFromBytes sample_zfs_codecs maxDecompressedSize sample_archive = Inr ''2.2.4''"
proof -
  have "streamFindZFSModule sample_zfs_codecs maxDecompressedSize (Stream sample_archive True) = Inr ''ABC''"
    by (subst streamFind_reference [OF sample_archive_parse]) (simp_all add: sample_slices findZFSModule_def matchesZFSKoSuffix_def zfsKoSuffixes_def hasSuffix_def decompress_def decompressReader_def
        readAllBounded_def maxDecompressedSize_def)
  moreover have "decompressReader sample_zfs_codecs sample_archive = Inr (Stream sample_archive True)"
    by (simp add: decompressReader_def sample_archive_def cpio_sample_header_def)
  ultimately show ?thesis
    by (simp add: ExtractOpenZFSVersionFromBytes_def modinfoVersion_def sample_zfs_codecs_def hasPrefix_def)
qed

lemma sample_metadata: "isOk (metadataBytes sample_zfs_codecs ''x86_64'' ''1.0'' ''2026'' sample_bzimage sample_archive)"
proof -
  let ?m = "\<lparr>Version = ''1.0'', BuildStamp = ''2026'', Arch = ''x86_64'', KernelVersion = ''6.6.1'', OpenZFS = ''2.2.4'',
    KernelSHA256 = SHA256Hex sample_bzimage, InitrdSHA256 = SHA256Hex sample_archive\<rparr>"
  have "dec (nat Format) = ''1''" by code_simp
  then have "wf_meta ?m"
    by (simp add: wf_meta_def metaPairs_def sha256HexPattern_value) (simp add: meta_value_def space_len_end_zero ascii_space_def wide_spaces_def hasSuffix_def)
  then show ?thesis
    using metaDecode_Encode [of ?m]
    by (simp add: metadataBytes_def deepMetadataFor_def sample_bzimage_version sample_initrd_version checkMetadataEncodable_def)
qed

lemma sample_sums: "isOk (payloadSums ''x86_64'' sample_bzimage sample_archive ModeWarn)"
proof -
  have "\<exists>raw. GenerateBlkSum sample_bzimage sample_archive = Inr raw"
    by (simp add: GenerateBlkSum_image sample_bzimage_offset sample_slices)
  then show ?thesis
    by (auto simp: payloadSums_def Generate_def New_def ValidMode_def entryFor_def sample_bzimage_offset sample_slices)
qed

definition sample_store :: "fs_io list \<Rightarrow> world" where
  "sample_store io = \<lparr>files = \<lambda>_. None, fsio = io, trace = []\<rparr>"


section \<open>Properties\<close>

text \<open>C18: a payload update is atomic.  If the writer reports success, the partition holds exactly the new
  generation (kernel, initrd, command line, METADATA, BLKSUM and CHECKSUM) and every other file is as
  before.  If it reports an error, whatever calls failed and whether or not they took effect, the
  partition is exactly as before, unless a restore failed and was announced as critical.\<close>

theorem payload_write_atomic:
  assumes "trace w = []"
    "writePayloadWithRollback c w mp arch version buildStamp kern initrd cmdline integrity = (e, w')"
  shows "case e of
      None \<Rightarrow> \<not> critical w' \<and> (\<exists>enc ps bs. metadataBytes c arch version buildStamp kern initrd = Inr enc \<and>
        payloadSums arch kern initrd integrity = Inr (ps, bs) \<and> files w' = newGeneration (files w) mp kern initrd cmdline enc ps bs)
    | Some _ \<Rightarrow> critical w' \<or> files w' = files w"
  using assms by (rule writer_atomic)

theorem payload_write_atomic_witness:
  "\<exists>w'. writePayloadWithRollback sample_zfs_codecs (sample_store []) ''/boot'' ''x86_64'' ''1.0'' ''2026'' sample_bzimage
      sample_archive ''quiet'' ModeWarn = (None, w') \<and> files w' (''/boot'', KernelFile) = Some sample_bzimage"
proof -
  let ?r = "writePayloadWithRollback sample_zfs_codecs (sample_store []) ''/boot'' ''x86_64'' ''1.0'' ''2026'' sample_bzimage
      sample_archive ''quiet'' ModeWarn"
  obtain e w' where r: "?r = (e, w')" by fastforce
  have "fst ?r = None" by (rule writer_finishes) (simp_all add: sample_store_def sample_metadata sample_sums)
  with r have e: "e = None" by simp
  have "trace (sample_store []) = []" by (simp add: sample_store_def)
  from payload_write_atomic [OF this r] show ?thesis by (auto simp: r e newGeneration_def file_neq)
qed



text \<open>C20: the writer gets there.  When the payload can be described (its kernel and OpenZFS versions are
  found, METADATA is encodable, CHECKSUM and BLKSUM can be made) and no call fails, the update
  succeeds: the read-back checks do not refuse what was just written.\<close>

theorem payload_write_finishes:
  assumes "fsio w = []" "isOk (metadataBytes c arch version buildStamp kern initrd)" "isOk (payloadSums arch kern initrd integrity)"
  shows "fst (writePayloadWithRollback c w mp arch version buildStamp kern initrd cmdline integrity) = None"
  using assms by (rule writer_finishes)

theorem payload_write_finishes_witness:
  "fst (writePayloadWithRollback sample_zfs_codecs (sample_store []) ''/boot'' ''x86_64'' ''1.0'' ''2026'' sample_bzimage
      sample_archive ''quiet'' ModeWarn) = None"
  by (rule payload_write_finishes) (simp_all add: sample_store_def sample_metadata sample_sums)

text \<open>C21: METADATA names its payload.  Whatever version strings go into it, METADATA that the writer is
  willing to write decodes, and its recorded hashes accept exactly the files with the SHA-256 of the
  kernel and initrd written beside it.\<close>

theorem written_metadata_vouches:
  assumes "metadataBytes c arch version buildStamp kern initrd = Inr enc"
  shows "\<exists>m. metaDecode enc = Inr m \<and> (\<forall>kern' initrd'.
    (VerifyHash kern' (KernelSHA256 m) \<longleftrightarrow> Sum256 kern' = Sum256 kern) \<and>
    (VerifyHash initrd' (InitrdSHA256 m) \<longleftrightarrow> Sum256 initrd' = Sum256 initrd))"
  using assms by (rule metadataBytes_vouch)

theorem written_metadata_vouches_witness:
  "\<exists>enc m. metadataBytes sample_zfs_codecs ''x86_64'' ''1.0'' ''2026'' sample_bzimage sample_archive = Inr enc \<and>
     metaDecode enc = Inr m \<and> VerifyHash sample_bzimage (KernelSHA256 m)"
proof -
  obtain enc where "metadataBytes sample_zfs_codecs ''x86_64'' ''1.0'' ''2026'' sample_bzimage sample_archive = Inr enc"
    using sample_metadata by (auto simp: isOk_def split: sum.splits)
  with written_metadata_vouches [OF this] show ?thesis by auto
qed

end
