(* ===== verification/Cmdline.thy ===== *)
theory Cmdline
  imports Esp_Store Go_Strings
begin

text \<open>
  Kernel command lines: \<open>src/internal/cmdline/cmdline.go\<close> reads them from a loader or from
  EFI/ALPINE/CMDLINE; \<open>src/cmd/tool/mirror.go\<close> and \<open>src/cmd/tool/int13chunk.go\<close> edit single settings
  of an installed one.  The lemmas show that an edit is what a reader of that setting then finds, that
  readers of other settings see no change, and where this fails.  The PE reader of Go's \<open>debug/pe\<close> is a
  parameter.
\<close>

section \<open>Reading a command line\<close>

record Info =
  iArch :: string
  iConsole :: string
  iVersion :: string
  iBuildStamp :: string
  iPool :: string
  iTimeout :: string
  iRaw :: string

definition firstLine :: "bytes \<Rightarrow> string" where
  "firstLine raw = takeWhile (\<lambda>c. c \<noteq> NL) (takeWhile (\<lambda>c. c \<noteq> NUL) raw)"

definition consoleFromCmdline :: "string \<Rightarrow> string" where
  "consoleFromCmdline line = join_with '' '' (List.map_filter (\<lambda>tok. cutPrefix tok ''console='') (Fields line))"

fun firstWith :: "string \<Rightarrow> string list \<Rightarrow> string" where
  "firstWith prefix [] = ''''"
| "firstWith prefix (tok # toks) = (case cutPrefix tok prefix of Some v \<Rightarrow> v | None \<Rightarrow> firstWith prefix toks)"

definition valueOf :: "string \<Rightarrow> string \<Rightarrow> string" where
  "valueOf line key = firstWith (key @ ''='') (Fields line)"

definition ParseText :: "bytes \<Rightarrow> Info" where
  "ParseText raw =
     (let line = firstLine raw in
      \<lparr>iArch = '''', iConsole = consoleFromCmdline line, iVersion = valueOf line ''alpine-zfsboot.version'',
       iBuildStamp = valueOf line ''alpine-zfsboot.buildstamp'', iPool = valueOf line ''alpine-zfsboot.pool'',
       iTimeout = valueOf line ''alpine-zfsboot.timeout'', iRaw = line\<rparr>)"

datatype cmdline_error = PeOpen | PeMachine u16 | PeNoSection string | PeRead string | NoBuildStamp

definition parseInfo :: "string \<Rightarrow> bytes \<Rightarrow> cmdline_error + Info" where
  "parseInfo arch raw =
     (let info = (ParseText raw)\<lparr>iArch := arch\<rparr> in
      if iBuildStamp info = '''' then Inl NoBuildStamp else Inr info)"

definition archFromMachine :: "u16 \<Rightarrow> cmdline_error + string" where
  "archFromMachine m =
     (if m = 0x8664 then Inr ''x86_64'' else if m = 0xaa64 then Inr ''aarch64'' else Inl (PeMachine m))"

text \<open>
  What \<open>debug/pe\<close> tells about a file: its machine type and, by name, the first section and whether its
  data could be read.
\<close>

datatype pe_section = NoSection | SectionError | Section bytes

record pe =
  machine :: u16
  peSection :: "string \<Rightarrow> pe_section"

type_synonym pe_open = "bytes \<Rightarrow> pe option"

definition ReadSection :: "pe_open \<Rightarrow> bytes \<Rightarrow> string \<Rightarrow> cmdline_error + bytes" where
  "ReadSection peOpen file name =
     (case peOpen file of
        None \<Rightarrow> Inl PeOpen
      | Some f \<Rightarrow>
          (case peSection f name of
             NoSection \<Rightarrow> Inl (PeNoSection name)
           | SectionError \<Rightarrow> Inl (PeRead name)
           | Section data \<Rightarrow> Inr data))"

definition ReadInfo :: "pe_open \<Rightarrow> bytes \<Rightarrow> cmdline_error + Info" where
  "ReadInfo peOpen file =
     (case peOpen file of
        None \<Rightarrow> Inl PeOpen
      | Some f \<Rightarrow>
          bindE (archFromMachine (machine f)) (\<lambda>arch.
          bindE (ReadSection peOpen file ''.cmdline'') (parseInfo arch)))"


section \<open>Editing one word\<close>

definition firstCmdlineLine :: "string \<Rightarrow> string" where
  "firstCmdlineLine s = takeWhile (\<lambda>c. c \<noteq> NL) s"

definition afterFirstLine :: "string \<Rightarrow> string" where
  "afterFirstLine s = dropWhile (\<lambda>c. c \<noteq> NL) s"

definition cmdlineValue :: "string \<Rightarrow> string \<Rightarrow> string" where
  "cmdlineValue line key =
     foldl (\<lambda>v w. case cutPrefix w (key @ ''='') of Some x \<Rightarrow> x | None \<Rightarrow> v) '''' (Fields (firstCmdlineLine line))"

definition setCmdlineWord :: "bytes \<Rightarrow> string \<Rightarrow> string \<Rightarrow> bytes" where
  "setCmdlineWord raw key val =
     (let words = filter (\<lambda>w. \<not> hasPrefix w (key @ ''='')) (Fields (firstCmdlineLine raw));
          words = (if val \<noteq> '''' then words @ [key @ ''='' @ val] else words)
      in join_with '' '' words @ afterFirstLine raw)"

definition stripMirrorWords :: "bytes \<Rightarrow> bytes" where
  "stripMirrorWords raw = setCmdlineWord (setCmdlineWord raw ESPSelfKey '''') ESPUUIDsKey ''''"

definition checkCmdlineLength :: "bytes \<Rightarrow> nat option" where
  "checkCmdlineLength raw = (if length raw > CmdlineMaxBytes then Some (length raw) else None)"


section \<open>The INT 13h chunk\<close>

definition all_digits :: "string \<Rightarrow> bool" where
  "all_digits v \<longleftrightarrow> dropWhile is_digit v = []"

definition parseInt13Chunk :: "string \<Rightarrow> string + string" where
  "parseInt13Chunk v =
     (if v = ''default'' then Inr ''''
      else
        case atoi v of
          None \<Rightarrow> Inl v
        | Some n \<Rightarrow> if n < 1 \<or> n > int Int13ChunkMax \<or> \<not> all_digits v then Inl v else Inr (dec (nat n)))"

definition int13Valid :: "string \<Rightarrow> bool" where
  "int13Valid v =
     (case atoi v of
        None \<Rightarrow> False
      | Some n \<Rightarrow> n \<ge> 1 \<and> n \<le> int Int13ChunkMax \<and> length v \<le> 5 \<and> all_digits v)"

fun int13Word :: "string list \<Rightarrow> string \<times> bool" where
  "int13Word [] = ('''', False)"
| "int13Word (w # ws) =
     (case cutPrefix w (Int13ChunkKey @ ''='') of Some v \<Rightarrow> (v, int13Valid v) | None \<Rightarrow> int13Word ws)"

definition cmdlineInt13Chunk :: "string \<Rightarrow> string \<times> bool" where
  "cmdlineInt13Chunk cmd = int13Word (Fields (firstCmdlineLine cmd))"

definition setCmdlineInt13Chunk :: "bytes \<Rightarrow> string \<Rightarrow> bytes" where
  "setCmdlineInt13Chunk raw val =
     (let words = filter (\<lambda>w. \<not> hasPrefix w (Int13ChunkKey @ ''='')) (split_on SP (firstCmdlineLine raw));
          line = join_with '' '' words;
          line = (if val \<noteq> '''' then trimRight (\<lambda>c. c = SP) line @ '' '' @ Int13ChunkKey @ ''='' @ val else line)
      in line @ afterFirstLine raw)"

definition installedInt13Chunk :: "world \<Rightarrow> string \<Rightarrow> string \<times> world" where
  "installedInt13Chunk w mp =
     (case readFile w (mp, CmdlineFile) of
        (Content raw, w) \<Rightarrow> (case cmdlineInt13Chunk raw of (v, True) \<Rightarrow> (v, w) | _ \<Rightarrow> ('''', w))
      | (_, w) \<Rightarrow> ('''', w))"

datatype chunk_error = ChunkRead | ChunkTooLong nat | ChunkWrite write_error

definition setInt13Chunk :: "world \<Rightarrow> string \<Rightarrow> string \<Rightarrow> chunk_error option \<times> world" where
  "setInt13Chunk w mp val =
     (case readFile w (mp, CmdlineFile) of
        (Content raw, w) \<Rightarrow>
          (let out = setCmdlineInt13Chunk raw val in
           if out = raw then (None, w)
           else
             case checkCmdlineLength out of
               Some n \<Rightarrow> (Some (ChunkTooLong n), w)
             | None \<Rightarrow> mapError ChunkWrite (WriteFile w (mp, CmdlineFile) out))
      | (_, w) \<Rightarrow> (Some ChunkRead, w))"

text \<open>The cap the installed stage2 uses, as \<open>status\<close> reports it.\<close>

definition int13FATBatch :: nat where "int13FATBatch = 32"

datatype chunk_status = ChunkNotConfigurable | ChunkDefault | ChunkInvalid string | ChunkCapped int | ChunkSet string

definition int13ChunkStatus :: "bytes \<Rightarrow> bytes option \<Rightarrow> chunk_status" where
  "int13ChunkStatus cmdlineRaw stage2 =
     (if (case stage2 of None \<Rightarrow> False | Some s2 \<Rightarrow> indexOf s2 (Int13ChunkKey @ ''='') = None) then ChunkNotConfigurable
      else
        case cmdlineInt13Chunk cmdlineRaw of
          (v, valid) \<Rightarrow>
            if v = '''' then ChunkDefault
            else if \<not> valid then ChunkInvalid v
            else case atoi v of Some n \<Rightarrow> if n > int int13FATBatch then ChunkCapped n else ChunkSet v | None \<Rightarrow> ChunkSet v)"


section \<open>Edits and readers\<close>

lemma first_after: "firstCmdlineLine s @ afterFirstLine s = s"
  by (simp add: firstCmdlineLine_def afterFirstLine_def)

lemma first_no_NL: "NL \<notin> set (firstCmdlineLine s)"
  by (auto simp: firstCmdlineLine_def dest: set_takeWhileD)

lemma after_starts: "afterFirstLine s = [] \<or> hd (afterFirstLine s) = NL"
  unfolding afterFirstLine_def using hd_dropWhile [of "\<lambda>c. c \<noteq> NL" s] by auto

lemma edited_line:
  assumes "NL \<notin> set line"
  shows "firstCmdlineLine (line @ afterFirstLine s) = line" "afterFirstLine (line @ afterFirstLine s) = afterFirstLine s"
proof -
  have t: "takeWhile (\<lambda>c. c \<noteq> NL) (afterFirstLine s) = []" "dropWhile (\<lambda>c. c \<noteq> NL) (afterFirstLine s) = afterFirstLine s"
    using after_starts [of s] by (cases "afterFirstLine s"; simp)+
  show "firstCmdlineLine (line @ afterFirstLine s) = line"
    unfolding firstCmdlineLine_def using assms t(1) by (subst takeWhile_append2) auto
  show "afterFirstLine (line @ afterFirstLine s) = afterFirstLine s"
    unfolding afterFirstLine_def [of "line @ _"] using assms t(2) by (subst dropWhile_append2) auto
qed

lemma word_chars: "word w \<Longrightarrow> c \<in> set w \<Longrightarrow> \<not> ascii_space c"
proof -
  assume w: "word w" and c: "c \<in> set w"
  then obtain i where i: "i < length w" "w ! i = c" by (auto simp: in_set_conv_nth)
  then have "space_len (c # drop (Suc i) w) = 0" using w by (auto simp: word_def Cons_nth_drop_Suc)
  then show ?thesis by (simp add: space_len_zero)
qed

lemma word_no_NL: "word w \<Longrightarrow> NL \<notin> set w"
  using word_chars [of w NL] by (auto simp: ascii_space_def)

lemma join_words_no_NL: "(\<And>w. w \<in> set ws \<Longrightarrow> word w) \<Longrightarrow> NL \<notin> set (join_with '' '' ws)"
  by (induction "'' ''" ws rule: join_with.induct) (auto simp: word_no_NL)

text \<open>The words a command line consists of after an edit.\<close>

definition editedWords :: "bytes \<Rightarrow> string \<Rightarrow> string \<Rightarrow> string list" where
  "editedWords raw key val =
     filter (\<lambda>w. \<not> hasPrefix w (key @ ''='')) (Fields (firstCmdlineLine raw)) @ (if val = [] then [] else [key @ ''='' @ val])"

lemma setCmdlineWord_words:
  assumes "val \<noteq> [] \<Longrightarrow> word (key @ ''='' @ val)"
  shows "Fields (firstCmdlineLine (setCmdlineWord raw key val)) = editedWords raw key val"
    "afterFirstLine (setCmdlineWord raw key val) = afterFirstLine raw"
proof -
  have eq: "setCmdlineWord raw key val = join_with '' '' (editedWords raw key val) @ afterFirstLine raw"
    by (simp add: setCmdlineWord_def editedWords_def)
  have w: "word w" if "w \<in> set (editedWords raw key val)" for w
    using that assms fields_words by (auto simp: editedWords_def split: if_splits)
  note edited_line [OF join_words_no_NL, of "editedWords raw key val" raw, OF w]
  then show "Fields (firstCmdlineLine (setCmdlineWord raw key val)) = editedWords raw key val"
    "afterFirstLine (setCmdlineWord raw key val) = afterFirstLine raw"
    by (simp_all only: eq fields_join [OF w])
qed

definition lastValue :: "string \<Rightarrow> string list \<Rightarrow> string" where
  "lastValue key ws = foldl (\<lambda>v w. case cutPrefix w (key @ ''='') of Some x \<Rightarrow> x | None \<Rightarrow> v) '''' ws"

lemma lastValue_none: "(\<And>w. w \<in> set ws \<Longrightarrow> \<not> hasPrefix w (key @ ''='')) \<Longrightarrow> lastValue key ws = []"
  unfolding lastValue_def by (rule foldl_ignore) (auto split: option.split dest: cutPrefix_SomeD)

lemma lastValue_filter:
  "(\<And>w. w \<in> set ws \<Longrightarrow> \<not> P w \<Longrightarrow> \<not> hasPrefix w (key @ ''='')) \<Longrightarrow> lastValue key (filter P ws) = lastValue key ws"
  unfolding lastValue_def by (rule foldl_filter) (auto split: option.split dest: cutPrefix_SomeD)

lemma cmdlineValue_words: "cmdlineValue line key = lastValue key (Fields (firstCmdlineLine line))"
  by (simp add: cmdlineValue_def lastValue_def)

lemma lastValue_edited: "lastValue key (editedWords raw key val) = val"
proof -
  have "lastValue key (filter (\<lambda>w. \<not> hasPrefix w (key @ ''='')) ws) = []" for ws by (rule lastValue_none) simp
  then show ?thesis
    using cutPrefix_append [of "key @ ''=''" val] by (simp add: editedWords_def lastValue_def)
qed

lemma lastValue_other:
  assumes "CHR ''='' \<notin> set key" "CHR ''='' \<notin> set key'" "key \<noteq> key'"
  shows "lastValue key' (editedWords raw key val) = lastValue key' (Fields (firstCmdlineLine raw))"
proof -
  have "\<not> hasPrefix (key @ ''='' @ val) (key' @ ''='')"
    using keys_apart [OF assms(1,2), of "key @ ''='' @ val"] assms(3) hasPrefix_append [of "key @ ''=''" val] by auto
  then have none: "cutPrefix (key @ CHR ''='' # val) (key' @ ''='') = None" by simp
  have "lastValue key' (filter (\<lambda>w. \<not> hasPrefix w (key @ ''='')) ws) = lastValue key' ws" for ws
    using keys_apart [OF assms(1,2)] assms(3) by (intro lastValue_filter) blast
  then show ?thesis by (simp add: editedWords_def lastValue_def none)
qed

lemma setCmdlineWord_twice:
  assumes "val \<noteq> [] \<Longrightarrow> word (key @ ''='' @ val)"
  shows "setCmdlineWord (setCmdlineWord raw key val) key val' = setCmdlineWord raw key val'"
proof -
  have "filter (\<lambda>w. \<not> hasPrefix w (key @ ''='')) (editedWords raw key val) =
      filter (\<lambda>w. \<not> hasPrefix w (key @ ''='')) (Fields (firstCmdlineLine raw))"
    using hasPrefix_append [of "key @ ''=''" val] by (simp add: editedWords_def)
  then show ?thesis by (simp add: setCmdlineWord_def [of _ key val'] setCmdlineWord_words [OF assms])
qed

lemma setCmdlineWord_commute_strip:
  assumes "CHR ''='' \<notin> set key" "CHR ''='' \<notin> set key'" "key \<noteq> key'" "val \<noteq> [] \<Longrightarrow> word (key @ ''='' @ val)"
  shows "setCmdlineWord (setCmdlineWord (setCmdlineWord raw key val) key' '''') key '''' =
    setCmdlineWord (setCmdlineWord raw key' '''') key ''''"
proof -
  have n: "\<not> hasPrefix (key @ CHR ''='' # val) (key' @ ''='')"
    using keys_apart [OF assms(1,2), of "key @ ''='' @ val"] assms(3) hasPrefix_append [of "key @ ''=''" val] by auto
  have p: "hasPrefix (key @ CHR ''='' # val) (key @ ''='')" using hasPrefix_append [of "key @ ''=''" val] by simp
  have "filter (\<lambda>w. \<not> hasPrefix w (key @ ''='')) (editedWords (setCmdlineWord raw key val) key' '''') =
      filter (\<lambda>w. \<not> hasPrefix w (key @ ''='')) (editedWords raw key' '''')"
    using n p by (auto simp: editedWords_def setCmdlineWord_words [OF assms(4)] intro: filter_cong)
  moreover have "Fields (firstCmdlineLine (setCmdlineWord r key' [])) = editedWords r key' []"
    "afterFirstLine (setCmdlineWord r key' []) = afterFirstLine r" for r
    by (rule setCmdlineWord_words; simp)+
  ultimately show ?thesis
    by (simp add: setCmdlineWord_def [of _ key "''''"] setCmdlineWord_words [OF assms(4)])
qed

lemma mirror_keys: "CHR ''='' \<notin> set ESPSelfKey" "CHR ''='' \<notin> set ESPUUIDsKey" "ESPSelfKey \<noteq> ESPUUIDsKey" "ESPUUIDsKey \<noteq> ESPSelfKey"
  by (simp_all add: ESPSelfKey_def ESPUUIDsKey_def)

lemma stripMirrorWords_set:
  assumes "val \<noteq> [] \<Longrightarrow> word (key @ ''='' @ val)" "key = ESPSelfKey \<or> key = ESPUUIDsKey"
  shows "stripMirrorWords (setCmdlineWord raw key val) = stripMirrorWords raw"
  using assms(2)
proof
  assume k: "key = ESPSelfKey"
  show ?thesis using setCmdlineWord_twice [OF assms(1), of raw] unfolding stripMirrorWords_def k by simp
next
  assume k: "key = ESPUUIDsKey"
  show ?thesis
    using setCmdlineWord_commute_strip [OF mirror_keys(2,1,4), of val raw] assms(1) unfolding stripMirrorWords_def k by simp
qed


section \<open>The INT 13h chunk setting\<close>

definition printable :: "string \<Rightarrow> bool" where
  "printable s \<longleftrightarrow> list_all (\<lambda>c. c = SP \<or> graphic c) s"

lemma printable_parts:
  assumes "printable s" "w \<in> set (split_on SP s)"
  shows "Fields w = (if w = [] then [] else [w])"
proof (cases "w = []")
  case False
  have "graphic c" if c: "c \<in> set w" for c
  proof -
    have "c \<in> set s" using split_on_subset [OF assms(2)] c by blast
    moreover have "c \<noteq> SP" using split_on_parts [OF assms(2)] c by blast
    ultimately show ?thesis using assms(1) unfolding printable_def list_all_iff by blast
  qed
  with False have "word w" by (intro graphic_word)
  then show ?thesis using False by (simp add: fields_word)
qed simp

lemma int13Word_append: "(\<And>w. w \<in> set ws \<Longrightarrow> \<not> hasPrefix w (Int13ChunkKey @ ''='')) \<Longrightarrow> int13Word (ws @ xs) = int13Word xs"
  by (induction ws) (auto split: option.split dest: cutPrefix_SomeD)

lemma int13Valid_dec: "1 \<le> n \<Longrightarrow> n \<le> 127 \<Longrightarrow> int13Valid (dec n)"
  using length_dec [of n 3] by (simp add: int13Valid_def Int13ChunkMax_def all_digits_def dropWhile_eq_Nil_conv dec_digits)

lemma parseInt13Chunk_Inr:
  assumes "parseInt13Chunk s = Inr v"
  shows "v = [] \<or> (\<exists>n. v = dec n \<and> 1 \<le> n \<and> n \<le> 127)"
  using assms by (auto simp: parseInt13Chunk_def Int13ChunkMax_def split: if_splits option.splits intro: exI [of _ "nat _"])

lemma int13_key: "word (Int13ChunkKey @ ''='' @ dec n)" "CHR ''='' \<notin> set Int13ChunkKey" "NL \<notin> set Int13ChunkKey"
proof -
  show "word (Int13ChunkKey @ ''='' @ dec n)"
    by (rule graphic_word) (auto simp: Int13ChunkKey_def graphic_def is_digit_def dest: dec_digits)
qed (simp_all add: Int13ChunkKey_def)

text \<open>The words of a printable line after the chunk was set.\<close>

lemma filtered_parts_words:
  assumes "printable s"
  shows "concat (map Fields (filter P (split_on SP s))) = filter (\<lambda>w. w \<noteq> [] \<and> P w) (split_on SP s)"
proof -
  have "concat (map Fields (filter P ws)) = filter (\<lambda>w. w \<noteq> [] \<and> P w) ws" if "set ws \<subseteq> set (split_on SP s)" for ws
    using that by (induction ws) (simp_all add: printable_parts [OF assms])
  then show ?thesis by blast
qed

lemma printable_Fields: "printable s \<Longrightarrow> Fields s = filter (\<lambda>w. w \<noteq> []) (split_on SP s)"
  using filtered_parts_words [of s "\<lambda>_. True"] Fields_join [of "split_on SP s"] by simp

lemma filtered_no_NL:
  assumes "NL \<notin> set s"
  shows "NL \<notin> set (join_with [SP] (filter P (split_on SP s)))"
proof -
  have "NL \<notin> set (join_with [SP] ws)" if "\<forall>w \<in> set ws. NL \<notin> set w" for ws
    using that by (induction "[SP]" ws rule: join_with.induct) auto
  moreover have "\<forall>w \<in> set (filter P (split_on SP s)). NL \<notin> set w" using split_on_subset assms by fastforce
  ultimately show ?thesis .
qed

lemma setCmdlineInt13Chunk_words:
  assumes "printable (firstCmdlineLine raw)" "val = [] \<or> val = dec n"
  shows "Fields (firstCmdlineLine (setCmdlineInt13Chunk raw val)) = editedWords raw Int13ChunkKey val"
    "afterFirstLine (setCmdlineInt13Chunk raw val) = afterFirstLine raw"
proof -
  let ?P = "\<lambda>w. \<not> hasPrefix w (Int13ChunkKey @ ''='')"
  let ?line = "join_with [SP] (filter ?P (split_on SP (firstCmdlineLine raw)))"
  let ?w = "Int13ChunkKey @ ''='' @ val"
  let ?new = "if val \<noteq> [] then trimRight (\<lambda>c. c = SP) ?line @ SP # ?w else ?line"
  have nl: "NL \<notin> set ?line" by (rule filtered_no_NL) (rule first_no_NL)
  have w: "word ?w" if "val \<noteq> []" using assms(2) int13_key(1) that by auto
  have "NL \<notin> set ?new" using nl word_no_NL [OF w] set_trimRight [of "\<lambda>c. c = SP" ?line] by auto
  note new = edited_line [OF this, of raw]
  have eq: "setCmdlineInt13Chunk raw val = ?new @ afterFirstLine raw" by (simp add: setCmdlineInt13Chunk_def Let_def)
  have "Fields ?line = filter ?P (Fields (firstCmdlineLine raw))"
    by (simp add: Fields_join filtered_parts_words [OF assms(1)] printable_Fields [OF assms(1)] conj_commute)
  then have "Fields ?new = editedWords raw Int13ChunkKey val"
    using fields_word [OF w] by (simp add: editedWords_def Fields_sep Fields_trimRight)
  then show "Fields (firstCmdlineLine (setCmdlineInt13Chunk raw val)) = editedWords raw Int13ChunkKey val"
    unfolding eq new(1) .
  show "afterFirstLine (setCmdlineInt13Chunk raw val) = afterFirstLine raw" unfolding eq new(2) ..
qed

lemma int13Word_edited:
  assumes "val = [] \<or> (\<exists>n. val = dec n \<and> 1 \<le> n \<and> n \<le> 127)"
  shows "int13Word (editedWords raw Int13ChunkKey val) = (val, val \<noteq> [])"
proof -
  have "cutPrefix (Int13ChunkKey @ CHR ''='' # val) (Int13ChunkKey @ ''='') = Some val"
    using cutPrefix_append [of "Int13ChunkKey @ ''=''" val] by simp
  moreover have "int13Word (filter (\<lambda>w. \<not> hasPrefix w (Int13ChunkKey @ ''='')) ws @ xs) = int13Word xs" for ws xs
    by (rule int13Word_append) simp
  from this [of _ "[]"] this have "int13Word (filter (\<lambda>w. \<not> hasPrefix w (Int13ChunkKey @ ''='')) ws @ xs) = int13Word xs"
    "int13Word (filter (\<lambda>w. \<not> hasPrefix w (Int13ChunkKey @ ''='')) ws) = ([], False)" for ws xs by simp_all
  ultimately show ?thesis
    using assms int13Valid_dec by (auto simp: editedWords_def)
qed

lemma int13_set_get:
  assumes "printable (firstCmdlineLine raw)" "parseInt13Chunk s = Inr val"
  shows "cmdlineInt13Chunk (setCmdlineInt13Chunk raw val) = (val, val \<noteq> [])"
    "key \<noteq> Int13ChunkKey \<Longrightarrow> CHR ''='' \<notin> set key \<Longrightarrow> cmdlineValue (setCmdlineInt13Chunk raw val) key = cmdlineValue raw key"
    "afterFirstLine (setCmdlineInt13Chunk raw val) = afterFirstLine raw"
proof -
  obtain n where n: "val = [] \<or> val = dec n" using parseInt13Chunk_Inr [OF assms(2)] by blast
  note words = setCmdlineInt13Chunk_words [OF assms(1) n]
  show "cmdlineInt13Chunk (setCmdlineInt13Chunk raw val) = (val, val \<noteq> [])"
    using int13Word_edited [OF parseInt13Chunk_Inr [OF assms(2)]] by (simp only: cmdlineInt13Chunk_def words)
  show "cmdlineValue (setCmdlineInt13Chunk raw val) key = cmdlineValue raw key"
    if "key \<noteq> Int13ChunkKey" "CHR ''='' \<notin> set key"
    using lastValue_other [OF int13_key(2) that(2)] that(1) by (simp add: cmdlineValue_words words)
  show "afterFirstLine (setCmdlineInt13Chunk raw val) = afterFirstLine raw" by (rule words(2))
qed

text \<open>
  The setting is not replaced when something other than a space precedes it: the writer splits the line
  at spaces only, the reader at any white space, and the first occurrence counts.
\<close>

lemma int13_tab_survives:
  "cmdlineInt13Chunk (setCmdlineInt13Chunk (''quiet'' @ CHR 0x09 # Int13ChunkKey @ ''=8'') ''16'') = (''8'', True)"
  by code_simp


section \<open>Properties\<close>

text \<open>C23: editing one word of a command line.  Whatever the file held, the setting then has the given
  value (none when the value is empty), every other setting keeps its value, everything after the first
  line is untouched, and editing twice is editing once.\<close>

theorem cmdline_word_lens:
  assumes "val \<noteq> [] \<Longrightarrow> word (key @ ''='' @ val)"
  shows "cmdlineValue (setCmdlineWord raw key val) key = val
    \<and> (CHR ''='' \<notin> set key \<longrightarrow> CHR ''='' \<notin> set key' \<longrightarrow> key' \<noteq> key \<longrightarrow>
        cmdlineValue (setCmdlineWord raw key val) key' = cmdlineValue raw key')
    \<and> afterFirstLine (setCmdlineWord raw key val) = afterFirstLine raw
    \<and> setCmdlineWord (setCmdlineWord raw key val) key val' = setCmdlineWord raw key val'"
  using setCmdlineWord_words [OF assms] setCmdlineWord_twice [OF assms] lastValue_edited lastValue_other
  by (simp add: cmdlineValue_words)

theorem cmdline_word_lens_witness:
  "cmdlineValue (setCmdlineWord ''quiet a=1 b=2'' ''a'' ''9'') ''a'' = ''9'' \<and>
   cmdlineValue (setCmdlineWord ''quiet a=1 b=2'' ''a'' ''9'') ''b'' = cmdlineValue ''quiet a=1 b=2'' ''b''"
proof -
  have "word (''a'' @ ''='' @ ''9'')" by (rule graphic_word) (auto simp: graphic_def)
  from cmdline_word_lens [of "''9''" "''a''" "''quiet a=1 b=2''" "''b''", OF this] show ?thesis by simp
qed

text \<open>C24: the INT 13h chunk setting on a command line of printable ASCII.  A value the tool accepts is the
  value its reader (which follows the boot loader's rule) finds afterwards, and it is valid; removing it
  leaves none; every other setting and the rest of the file are unchanged.\<close>

theorem int13_chunk_set_get:
  assumes "printable (firstCmdlineLine raw)" "parseInt13Chunk s = Inr val"
  shows "cmdlineInt13Chunk (setCmdlineInt13Chunk raw val) = (val, val \<noteq> [])
    \<and> (key \<noteq> Int13ChunkKey \<longrightarrow> CHR ''='' \<notin> set key \<longrightarrow> cmdlineValue (setCmdlineInt13Chunk raw val) key = cmdlineValue raw key)
    \<and> afterFirstLine (setCmdlineInt13Chunk raw val) = afterFirstLine raw"
  using int13_set_get [OF assms] by blast

theorem int13_chunk_set_get_witness:
  "cmdlineInt13Chunk (setCmdlineInt13Chunk ''quiet alpine-zfsboot.int13chunk=8'' ''16'') = (''16'', True)"
proof -
  have "printable (firstCmdlineLine ''quiet alpine-zfsboot.int13chunk=8'')" "parseInt13Chunk ''16'' = Inr ''16''"
    by code_simp+
  from int13_chunk_set_get [OF this] show ?thesis by simp
qed

end
