(* ===== verification/Uefi_Boot.thy ===== *)
theory Uefi_Boot
  imports Payload_Writer Cmdline
begin

text \<open>
  The UEFI loader: \<open>src/internal/uefiboot/uefiboot.go\<close> installs it with a \<open>.previous\<close> copy, and
  \<open>src/cmd/tool/main.go\<close> writes loader and METADATA as one generation with rollback.  Whatever calls
  fail, the loader on the partition is at every moment the whole old or the whole new one, the
  \<open>.previous\<close> copy is never lost, and a failed update is undone.

  A copy that fails half way leaves its temporary file empty or complete in the model; that file is
  renamed only after the copy succeeded.
\<close>

section \<open>The loader file\<close>

definition LoaderPath :: "string \<Rightarrow> string option" where
  "LoaderPath arch = (if EFILoaderName arch = '''' then None else Some (EFIBootDir @ ''/'' @ EFILoaderName arch))"

definition suffixed :: "path \<Rightarrow> string \<Rightarrow> path" where
  "suffixed p s = (fst p, snd p @ s)"

text \<open>\<open>os.Rename\<close> within the partition: one step for both names.\<close>

definition fs_rename :: "world \<Rightarrow> path \<Rightarrow> path \<Rightarrow> bool \<times> world" where
  "fs_rename w src dst =
     (let (x, w) = next_fs w; f = (files w)(dst := files w src, src := None);
          done = w\<lparr>files := f, trace := trace w @ [Now f]\<rparr>
      in case x of FsOk \<Rightarrow> (True, done) | FsFail \<Rightarrow> (False, w) | FsFailDone \<Rightarrow> (False, done))"

definition HardLink :: "world \<Rightarrow> path \<Rightarrow> path \<Rightarrow> bool \<times> world" where
  "HardLink w src dst =
     (if files w src = None \<or> files w dst \<noteq> None then (False, snd (fs_call w)) else fs_set w dst (files w src))"

definition copyFile :: "world \<Rightarrow> path \<Rightarrow> path \<Rightarrow> bool \<times> world" where
  "copyFile w src dst =
     (case fs_call w of (opened, w) \<Rightarrow>
      if \<not> opened \<or> files w src = None then (False, w)
      else
        case fs_set w dst (Some '''') of (created, w) \<Rightarrow>
        if \<not> created then (False, w)
        else
          case fs_set w dst (files w src) of (copied, w) \<Rightarrow>
          if \<not> copied then (False, snd (removeFile w dst))
          else
            case fs_call w of (closed, w) \<Rightarrow>
            if \<not> closed then (False, snd (removeFile w dst)) else (True, w))"

definition BackupPrevious :: "world \<Rightarrow> path \<Rightarrow> bool \<times> world" where
  "BackupPrevious w path =
     (let dst = suffixed path ''.previous''; tmp = suffixed dst ''.tmp''; w = snd (removeFile w tmp) in
      case HardLink w path tmp of (linked, w) \<Rightarrow>
      case (if linked then (True, w) else copyFile w path tmp) of (ok, w) \<Rightarrow>
      if \<not> ok then (False, snd (removeFile w tmp))
      else
        case fs_rename w tmp dst of (renamed, w) \<Rightarrow>
        if \<not> renamed then (False, snd (removeFile w tmp)) else (True, w))"

datatype uefi_error =
    UArch string
  | UBackup path
  | UWrite write_error
  | UChmod
  | URead
  | USize nat nat
  | UDiffers
  | USection cmdline_error
  | UMeta payload_error

text \<open>The temporary file is filled, synced and renamed over the loader, and the directory synced.\<close>

definition replaceLoader :: "world \<Rightarrow> path \<Rightarrow> bytes \<Rightarrow> uefi_error option \<times> world" where
  "replaceLoader w p efi =
     thenDo (check (UWrite WTemp) (fs_call w)) (\<lambda>w.
     thenDo (check (UWrite WWrite) (fs_call w)) (\<lambda>w.
     thenDo (check UChmod (fs_call w)) (\<lambda>w.
     thenDo (check (UWrite WSync) (fs_call w)) (\<lambda>w.
     thenDo (check (UWrite WClose) (fs_call w)) (\<lambda>w.
     thenDo (check (UWrite WRename) (fs_set w p (Some efi))) (\<lambda>w.
     thenDo (check (UWrite WDirOpen) (fs_call w)) (\<lambda>w.
     check (UWrite WDirSync) (fs_call w))))))))"

definition WriteLoader :: "world \<Rightarrow> string \<Rightarrow> string \<Rightarrow> bytes \<Rightarrow> bool \<times> uefi_error option \<times> world" where
  "WriteLoader w mp arch efi =
     (case LoaderPath arch of
        None \<Rightarrow> (False, Some (UArch arch), w)
      | Some rel \<Rightarrow>
          case fs_call w of (made, w) \<Rightarrow>
          if \<not> made then (False, Some (UWrite WMkdir), w)
          else case BackupPrevious w (mp, rel) of (backedUp, w) \<Rightarrow> (backedUp, replaceLoader w (mp, rel) efi))"

definition VerifyLoader :: "world \<Rightarrow> string \<Rightarrow> string \<Rightarrow> bytes \<Rightarrow> uefi_error option \<times> world" where
  "VerifyLoader w mp arch want =
     (case LoaderPath arch of
        None \<Rightarrow> (Some (UArch arch), w)
      | Some rel \<Rightarrow>
          (case readFile w (mp, rel) of
             (Content got, w) \<Rightarrow>
               (if length got \<noteq> length want then Some (USize (length got) (length want))
                else if list_ex (\<lambda>i. got ! i \<noteq> want ! i) [0..<length got] then Some UDiffers
                else None, w)
           | (_, w) \<Rightarrow> (Some URead, w)))"

definition CheckArchMatch :: "Info \<Rightarrow> Info \<Rightarrow> bool" where
  "CheckArchMatch loc latest \<longleftrightarrow> iArch latest = iArch loc"


section \<open>Loader and METADATA as one generation\<close>

record uefiGenerationBackup =
  loaderB :: "bytes option"
  metaB :: "bytes option"

definition backupUEFIGeneration :: "world \<Rightarrow> string \<Rightarrow> string \<Rightarrow> (uefi_error + uefiGenerationBackup) \<times> world" where
  "backupUEFIGeneration w mp rel =
     (case readFile w (mp, rel) of
        (ReadError, w) \<Rightarrow> (Inl (UBackup (mp, rel)), w)
      | (l, w) \<Rightarrow>
          (case readFile w (mp, MetadataFile) of
             (ReadError, w) \<Rightarrow> (Inl (UBackup (mp, MetadataFile)), w)
           | (m, w) \<Rightarrow>
               let content = (\<lambda>r. case r of Content b \<Rightarrow> Some b | _ \<Rightarrow> None)
               in (Inr \<lparr>loaderB = content l, metaB = content m\<rparr>, w)))"

definition rollbackUEFIGeneration :: "world \<Rightarrow> string \<Rightarrow> string \<Rightarrow> uefiGenerationBackup \<Rightarrow> world" where
  "rollbackUEFIGeneration w mp rel b =
     (case restoreAll w [((mp, rel), loaderB b), ((mp, MetadataFile), metaB b)] of
        (ok, w) \<Rightarrow> if ok then report w Restored else w)"

text \<open>\<open>efiFile\<close> is the content of the local file the sections are read from.\<close>

definition writeUEFIMetadata ::
    "codecs \<Rightarrow> pe_open \<Rightarrow> world \<Rightarrow> string \<Rightarrow> string \<Rightarrow> bytes \<Rightarrow> Info \<Rightarrow> uefi_error option \<times> world" where
  "writeUEFIMetadata c peOpen w mp arch efiFile info =
     (case ReadSection peOpen efiFile ''.linux'' of
        Inl e \<Rightarrow> (Some (USection e), w)
      | Inr kern \<Rightarrow>
          (case ReadSection peOpen efiFile ''.initrd'' of
             Inl e \<Rightarrow> (Some (USection e), w)
           | Inr initrd \<Rightarrow>
               mapError UMeta (writeMetadata c w mp arch (iVersion info) (iBuildStamp info) kern initrd)))"

definition writeUEFIGenerationWithRollback ::
    "codecs \<Rightarrow> pe_open \<Rightarrow> world \<Rightarrow> string \<Rightarrow> string \<Rightarrow> bytes \<Rightarrow> bytes \<Rightarrow> Info \<Rightarrow> bool \<times> uefi_error option \<times> world" where
  "writeUEFIGenerationWithRollback c peOpen w mp arch efi efiFile info =
     (case LoaderPath arch of
        None \<Rightarrow> (False, Some (UArch arch), w)
      | Some rel \<Rightarrow>
          (case backupUEFIGeneration w mp rel of
             (Inl e, w) \<Rightarrow> (False, Some e, w)
           | (Inr b, w) \<Rightarrow>
               (case WriteLoader w mp arch efi of
                  (backedUp, r) \<Rightarrow>
                    (case thenDo r (\<lambda>w.
                          thenDo (VerifyLoader w mp arch efi) (\<lambda>w.
                          writeUEFIMetadata c peOpen w mp arch efiFile info)) of
                       (None, w) \<Rightarrow> (backedUp, None, w)
                     | (Some e, w) \<Rightarrow> (backedUp, Some e, rollbackUEFIGeneration w mp rel b)))))"


section \<open>The previous loader is kept\<close>

abbreviation prevOf :: "path \<Rightarrow> path" where "prevOf p \<equiv> suffixed p ''.previous''"
abbreviation tmpOf :: "path \<Rightarrow> path" where "tmpOf p \<equiv> suffixed (suffixed p ''.previous'') ''.tmp''"

lemma suffixed_neq [simp]: "tmpOf p \<noteq> p" "p \<noteq> tmpOf p" "prevOf p \<noteq> p" "p \<noteq> prevOf p" "tmpOf p \<noteq> prevOf p" "prevOf p \<noteq> tmpOf p"
  by (auto simp: suffixed_def prod_eq_iff)

lemma HardLink_evolves:
  assumes "HardLink w src dst = (ok, w')"
  shows "evolves (onlyAt dst) w w' \<and> (ok \<longrightarrow> files w' dst = files w src)"
  using assms fs_set_evolves [of w dst "files w src" ok w'] fs_call_evolves [of w "fst (fs_call w)" "snd (fs_call w)"]
  by (auto simp: HardLink_def split: if_splits)

lemma copyFile_evolves:
  assumes "copyFile w src dst = (ok, w')" "src \<noteq> dst"
  shows "evolves (onlyAt dst) w w' \<and> (ok \<longrightarrow> files w' dst = files w src)"
proof -
  obtain o1 w1 where 1: "fs_call w = (o1, w1)" by fastforce
  obtain o2 w2 where 2: "fs_set w1 dst (Some []) = (o2, w2)" by fastforce
  obtain o3 w3 where 3: "fs_set w2 dst (files w2 src) = (o3, w3)" by fastforce
  obtain o4 w4 where 4: "fs_call w3 = (o4, w4)" by fastforce
  note e1 = fs_call_evolves [OF 1, of "onlyAt dst"] and e2 = fs_set_evolves [OF 2] and e3 = fs_set_evolves [OF 3]
    and e4 = fs_call_evolves [OF 4, of "onlyAt dst"]
  have t1: "evolves (onlyAt dst) w w1" using e1 by blast
  have t2: "evolves (onlyAt dst) w w2" using evolves_trans e2 t1 by blast
  have t3: "evolves (onlyAt dst) w w3" using evolves_trans e3 t2 by blast
  have t4: "evolves (onlyAt dst) w w4" using evolves_trans e4 t3 by blast
  have src: "files w2 src = files w src" using evolves_onlyAt [OF t2 assms(2)] .
  have ok4: "o3 \<Longrightarrow> files w4 dst = files w src" using e3 e4 src by simp
  have rm: "evolves (onlyAt dst) w (snd (removeFile x dst))" if "evolves (onlyAt dst) w x" for x
    using evolves_trans [OF removeFile_evolves that] .
  show ?thesis
    using assms(1) t1 t2 t4 rm [OF t3] rm [OF t4] ok4
    by (auto simp: copyFile_def 1 2 3 4 split: if_splits)
qed

text \<open>What the backup of the previous loader may do.\<close>

definition backStep :: "path \<Rightarrow> bytes option \<Rightarrow> files \<Rightarrow> files \<Rightarrow> bool" where
  "backStep p old f g \<longleftrightarrow> onlyAt (tmpOf p) f g \<or> g = f(prevOf p := old, tmpOf p := None)"

lemma fs_rename_cases:
  assumes "fs_rename w src dst = (ok, w')"
  shows "(changedTo w ((files w)(dst := files w src, src := None)) w') \<or> \<not> ok \<and> quiet w w'"
  using assms
  by (auto simp: fs_rename_def Let_def changedTo_def quiet_def split: prod.splits fs_io.splits dest!: next_fs_quiet)

lemma BackupPrevious_result:
  assumes "BackupPrevious w p = (ok, w')"
  shows "evolves (backStep p (files w p)) w w' \<and> (ok \<longrightarrow> files w' (prevOf p) = files w p)"
proof -
  let ?R = "backStep p (files w p)"
  define w0 where "w0 = snd (removeFile w (tmpOf p))"
  have t0: "evolves (onlyAt (tmpOf p)) w w0" unfolding w0_def by (rule removeFile_evolves)
  obtain l w1 where 1: "HardLink w0 p (tmpOf p) = (l, w1)" by fastforce
  obtain c w2 where 2: "(if l then (True, w1) else copyFile w1 p (tmpOf p)) = (c, w2)" by fastforce
  obtain r w3 where 3: "fs_rename w2 (tmpOf p) (prevOf p) = (r, w3)" by fastforce
  have t1: "evolves (onlyAt (tmpOf p)) w w1" "l \<Longrightarrow> files w1 (tmpOf p) = files w p"
    using HardLink_evolves [OF 1] evolves_trans [OF _ t0] evolves_onlyAt [OF t0, of p] by auto
  have t2: "evolves (onlyAt (tmpOf p)) w w2" "c \<Longrightarrow> files w2 (tmpOf p) = files w p"
    using 2 t1 copyFile_evolves [of w1 p "tmpOf p" c w2] evolves_trans [OF _ t1(1)] evolves_onlyAt [OF t1(1), of p]
    by (auto split: if_splits)
  have R: "evolves ?R w x" if "evolves (onlyAt (tmpOf p)) w x" for x
    using that by (rule evolves_mono) (simp add: backStep_def)
  have rm: "evolves ?R w (snd (removeFile x (tmpOf p)))" if "evolves ?R w x" for x
    using evolves_trans [OF evolves_mono [OF removeFile_evolves [of "tmpOf p" x], of ?R] that] by (simp add: backStep_def)
  have t3: "evolves ?R w w3" "r \<Longrightarrow> files w3 (prevOf p) = files w p" if c
  proof -
    let ?g = "(files w2)(prevOf p := files w2 (tmpOf p), tmpOf p := None)"
    have g: "?R (files w2) ?g" using t2(2) [OF that] by (simp add: backStep_def)
    from fs_rename_cases [OF 3] have "changedTo w2 ?g w3 \<or> \<not> r \<and> quiet w2 w3" by simp
    then show "evolves ?R w w3" using evolves.change [OF R [OF t2(1)] _ g] evolves.silent [OF R [OF t2(1)]] by blast
    show "files w3 (prevOf p) = files w p" if r
      using \<open>changedTo w2 ?g w3 \<or> \<not> r \<and> quiet w2 w3\<close> that t2(2) [OF \<open>c\<close>] by (auto simp: changedTo_def)
  qed
  have "(ok, w') = (if \<not> c then (False, snd (removeFile w2 (tmpOf p)))
      else if \<not> r then (False, snd (removeFile w3 (tmpOf p))) else (True, w3))"
    using assms by (simp add: BackupPrevious_def Let_def w0_def [symmetric] 1 2 3 split: if_splits)
  then show ?thesis using t3 rm R [OF t2(1)] by (cases c; cases r) auto
qed


section \<open>The whole update\<close>

lemma replaceLoader_cases:
  "replaceLoader w p efi = (e, w') \<Longrightarrow> changed w p (Some efi) w' \<or> e \<noteq> None \<and> quiet w w'"
  unfolding replaceLoader_def by (elim replace_call) (rule replace_rename)

lemma WriteLoader_result:
  assumes "WriteLoader w mp arch efi = (bu, e, w')" "LoaderPath arch = Some rel"
  defines "p \<equiv> (mp, rel)"
  shows "\<exists>w1. evolves (backStep p (files w p)) w w1 \<and> (bu \<longrightarrow> files w1 (prevOf p) = files w p) \<and>
    (changed w1 p (Some efi) w' \<or> e \<noteq> None \<and> quiet w1 w')"
proof -
  obtain o1 w0 where 0: "fs_call w = (o1, w0)" by fastforce
  note q = fs_call_evolves [OF 0, of "backStep p (files w p)"]
  show ?thesis
  proof (cases o1)
    case False
    then show ?thesis using assms(1,2) q by (auto simp: WriteLoader_def Let_def 0 intro!: exI [of _ w0])
  next
    case True
    obtain b w1 where 1: "BackupPrevious w0 p = (b, w1)" by fastforce
    have r: "b = bu" "changed w1 p (Some efi) w' \<or> e \<noteq> None \<and> quiet w1 w'"
      using assms(1,2) True 1 replaceLoader_cases [of w1 p efi e w'] by (auto simp: WriteLoader_def 0 p_def)
    have "evolves (backStep p (files w p)) w w1" "bu \<longrightarrow> files w1 (prevOf p) = files w p"
      using BackupPrevious_result [OF 1] q evolves_trans [of "backStep p (files w p)" w0 w1 w] r(1) by auto
    then show ?thesis using r(2) by blast
  qed
qed

lemma VerifyLoader_quiet: "VerifyLoader w mp arch efi = (e, w') \<Longrightarrow> quiet w w'"
  by (auto simp: VerifyLoader_def split: option.splits prod.splits read_result.splits if_splits dest: readFile_quiet)

lemma writeUEFIMetadata_cases:
  assumes "writeUEFIMetadata c peOpen w mp arch efiFile info = (e, w')"
  shows "(\<exists>enc. changed w (mp, MetadataFile) (Some enc) w') \<or> e \<noteq> None \<and> quiet w w'"
proof -
  have "(\<exists>enc. changed w (mp, MetadataFile) (Some enc) x) \<or> r \<noteq> None \<and> quiet w x"
    if "writeMetadata c w mp arch (iVersion info) (iBuildStamp info) kern initrd = (r, x)" for kern initrd r x
    using that WriteFile_cases [of w "(mp, MetadataFile)"]
    by (cases r) (fastforce simp: writeMetadata_def mapError_simps split: sum.splits)+
  then show ?thesis
    using assms by (cases e) (fastforce simp: writeUEFIMetadata_def mapError_simps split: sum.splits)+
qed

lemma backupUEFIGeneration_result:
  assumes "backupUEFIGeneration w mp rel = (r, w')"
  shows "quiet w w' \<and> (\<forall>b. r = Inr b \<longrightarrow> loaderB b = files w (mp, rel) \<and> metaB b = files w (mp, MetadataFile))"
proof -
  obtain l w1 where 1: "readFile w (mp, rel) = (l, w1)" by fastforce
  obtain m w2 where 2: "readFile w1 (mp, MetadataFile) = (m, w2)" by fastforce
  have q: "quiet w w1" "quiet w w2" using readFile_quiet [OF 1] readFile_quiet [OF 2] quiet_trans by blast+
  have "l \<noteq> ReadError \<Longrightarrow> files w (mp, rel) = (case l of Content b \<Rightarrow> Some b | _ \<Rightarrow> None)"
    using readFile_result [of w "(mp, rel)"] 1 by (cases l) auto
  moreover have "m \<noteq> ReadError \<Longrightarrow> files w (mp, MetadataFile) = (case m of Content b \<Rightarrow> Some b | _ \<Rightarrow> None)"
    using readFile_result [of w1 "(mp, MetadataFile)"] 2 q(1) by (cases m) (auto simp: quiet_def)
  ultimately show ?thesis
    using assms q by (cases l; cases m) (auto simp: backupUEFIGeneration_def 1 2 Let_def)
qed

definition uefiStep :: "path \<Rightarrow> path \<Rightarrow> bytes option \<Rightarrow> bytes \<Rightarrow> files \<Rightarrow> files \<Rightarrow> bool" where
  "uefiStep p m old efi f g \<longleftrightarrow> g = f(p := Some efi) \<or> g = f(p := old) \<or> onlyAt m f g"

text \<open>After the loader was backed up, only loader and METADATA change.\<close>

lemma uefiStep_frame: "evolves (uefiStep p m old efi) w w' \<Longrightarrow> q \<noteq> p \<Longrightarrow> q \<noteq> m \<Longrightarrow> files w' q = files w q"
proof -
  assume e: "evolves (uefiStep p m old efi) w w'" and q: "q \<noteq> p" "q \<noteq> m"
  have "files w' q = files w q \<and> (\<exists>t. trace w' = trace w @ t \<and> (\<forall>f. Now f \<in> set t \<longrightarrow> f q = files w q))"
    by (rule evolves_invariant [OF e, of "\<lambda>f. f q = files w q"]) (use q in \<open>auto simp: uefiStep_def onlyAt_def\<close>)
  then show ?thesis by blast
qed

lemma rollbackUEFI_result:
  fixes w mp rel b
  assumes "loaderB b = old" "metaB b = mold" "(mp, rel) \<noteq> (mp, MetadataFile)"
  defines "w' \<equiv> rollbackUEFIGeneration w mp rel b"
  shows "evolves (uefiStep (mp, rel) (mp, MetadataFile) old efi) w w' \<and>
    (critical w' \<or> files w' (mp, rel) = old \<and> files w' (mp, MetadataFile) = mold)"
proof -
  obtain ok x where r: "restoreAll w [((mp, rel), old), ((mp, MetadataFile), mold)] = (ok, x)" by fastforce
  have w': "w' = (if ok then report x Restored else x)" by (simp only: w'_def rollbackUEFIGeneration_def assms(1,2) r prod.case)
  have "evolves (uefiStep (mp, rel) (mp, MetadataFile) old efi) w x"
    by (rule evolves_restoreAll [OF r]) (auto simp: uefiStep_def)
  then have "evolves (uefiStep (mp, rel) (mp, MetadataFile) old efi) w w'" by (auto simp: w' intro: evolves.message)
  moreover have "critical w' \<or> files w' (mp, rel) = old \<and> files w' (mp, MetadataFile) = mold"
  proof (cases ok)
    case True
    then have "files x = foldl setFile (files w) [((mp, rel), old), ((mp, MetadataFile), mold)]" using r by (intro restoreAll_ok) simp
    then show ?thesis using True assms(3) by (simp add: w')
  qed (use restoreAll_critical [OF r] in \<open>simp add: w'\<close>)
  ultimately show ?thesis by blast
qed

lemma loader_not_metadata: "LoaderPath arch = Some rel \<Longrightarrow> (mp, rel) \<noteq> (mp, MetadataFile)" 
    "LoaderPath arch = Some rel \<Longrightarrow> prevOf (mp, rel) \<noteq> (mp, MetadataFile)"
    "LoaderPath arch = Some rel \<Longrightarrow> tmpOf (mp, rel) \<noteq> (mp, MetadataFile)"
  by (auto simp: LoaderPath_def EFILoaderName_def EFIBootDir_def file_defs suffixed_def split: if_splits)

text \<open>The phases of an update: the copy of the previous loader, then the writes, then perhaps the rollback.\<close>

lemma uefi_phases:
  assumes "writeUEFIGenerationWithRollback c peOpen w mp arch efi efiFile info = (bu, e, w')" "LoaderPath arch = Some rel"
  defines "p \<equiv> (mp, rel)" and "m \<equiv> (mp, MetadataFile)"
  shows "\<exists>w1. evolves (backStep p (files w p)) w w1 \<and> (bu \<longrightarrow> files w1 (prevOf p) = files w p) \<and>
    evolves (uefiStep p m (files w p) efi) w1 w' \<and>
    (case e of None \<Rightarrow> files w' p = Some efi \<and> files w' m \<noteq> None
     | Some _ \<Rightarrow> critical w' \<or> files w' p = files w p \<and> files w' m = files w m)"
proof -
  let ?U = "uefiStep p m (files w p) efi" and ?B = "backStep p (files w p)"
  have pm: "p \<noteq> m" "prevOf p \<noteq> m" "tmpOf p \<noteq> m" using loader_not_metadata [OF assms(2), of mp] by (simp_all add: p_def m_def)
  obtain r w0 where 0: "backupUEFIGeneration w mp rel = (r, w0)" by fastforce
  from backupUEFIGeneration_result [OF 0] have q: "quiet w w0"
    and bk: "\<And>b. r = Inr b \<Longrightarrow> loaderB b = files w p \<and> metaB b = files w m" by (auto simp: p_def m_def)
  have f0: "files w0 = files w" using q by (simp add: quiet_def)
  show ?thesis
  proof (cases r)
    case (Inl x)
    then show ?thesis
      using assms(1,2) 0 q f0 by (auto simp: writeUEFIGenerationWithRollback_def intro!: exI [of _ w0] evolves.start)
  next
    case (Inr b)
    obtain bu1 e1 w2 where 1: "WriteLoader w0 mp arch efi = (bu1, e1, w2)" by (metis prod.collapse)
    from WriteLoader_result [OF 1 assms(2)] f0 obtain w1 where w1: "evolves ?B w0 w1" "bu1 \<longrightarrow> files w1 (prevOf p) = files w p"
      "changed w1 p (Some efi) w2 \<or> e1 \<noteq> None \<and> quiet w1 w2" by (auto simp: p_def)
    have w1': "evolves ?B w w1" using evolves_trans [OF w1(1) evolves.start [OF q]] .
    have w2: "evolves ?U w1 w2" by (rule evolves_set [of _ p "Some efi"]) (use w1(3) in \<open>auto simp: uefiStep_def\<close>)
    let ?k = "\<lambda>w. thenDo (VerifyLoader w mp arch efi) (\<lambda>w. writeUEFIMetadata c peOpen w mp arch efiFile info)"
    obtain e3 w3 where 3: "thenDo (e1, w2) ?k = (e3, w3)" by fastforce
    have w3: "evolves ?U w1 w3 \<and> (e3 = None \<longrightarrow> files w3 p = Some efi \<and> files w3 m \<noteq> None)"
      using 3
    proof (cases rule: thenDo_cases)
      case (stop x)
      then show ?thesis using w2 by auto
    next
      case (go y)
      then have y: "y = w2" "changed w1 p (Some efi) w2" using w1(3) by auto
      from go(2) show ?thesis
      proof (cases rule: thenDo_cases)
        case (stop x)
        then show ?thesis using VerifyLoader_quiet [OF stop(1)] w2 y(1) evolves.silent by blast
      next
        case (go z)
        have vz: "quiet w2 z" using VerifyLoader_quiet [OF go(1)] y(1) by simp
        then have z: "evolves ?U w1 z" "files z p = Some efi" using w2 evolves.silent y(2) by (blast, simp add: quiet_def changed_def)
        from writeUEFIMetadata_cases [OF go(2)] show ?thesis
        proof (elim disjE exE conjE)
          fix enc assume ch: "changed z (mp, MetadataFile) (Some enc) w3"
          have "evolves ?U z w3" by (rule evolves_set [of _ m "Some enc"]) (use ch in \<open>auto simp: uefiStep_def m_def\<close>)
          then show ?thesis using evolves_trans z ch pm(1) by (auto simp: changed_def m_def)
        qed (use z evolves.silent in blast)
      qed
    qed
    have res: "bu = bu1" "e = e3" "w' = (if e3 = None then w3 else rollbackUEFIGeneration w3 mp rel b)"
      using assms(1) by (auto simp: writeUEFIGenerationWithRollback_def assms(2) 0 Inr 1 3 split: option.splits)
    show ?thesis
    proof (cases e3)
      case None
      then show ?thesis using w1' w1(2) w3 res by auto
    next
      case (Some x)
      have "loaderB b = files w p" "metaB b = files w m" using bk Inr by auto
      from rollbackUEFI_result [OF this(1) this(2) [unfolded m_def], of mp rel efi w3] loader_not_metadata(1) [OF assms(2)]
      have "evolves ?U w3 w'" "critical w' \<or> files w' p = files w p \<and> files w' m = files w m"
        using Some res by (auto simp: p_def m_def)
      then show ?thesis using w1' w1(2) w3 res Some evolves_trans by (intro exI [of _ w1]) auto
    qed
  qed
qed

text \<open>The loader is whole and its predecessor kept, in every content on the way.\<close>

definition uefiKeeps :: "path \<Rightarrow> files \<Rightarrow> bytes \<Rightarrow> files \<Rightarrow> bool" where
  "uefiKeeps p f0 efi f \<longleftrightarrow> (f p = f0 p \<or> f p = Some efi) \<and> (f (prevOf p) = f0 (prevOf p) \<or> f (prevOf p) = f0 p)"

lemma uefi_every_content:
  assumes "writeUEFIGenerationWithRollback c peOpen w mp arch efi efiFile info = (bu, e, w')" "LoaderPath arch = Some rel" "trace w = []"
    "Now f \<in> set (trace w')"
  shows "uefiKeeps (mp, rel) (files w) efi f"
proof -
  let ?p = "(mp, rel)" and ?m = "(mp, MetadataFile)" and ?I = "uefiKeeps (mp, rel) (files w) efi"
  obtain w1 where b: "evolves (backStep ?p (files w ?p)) w w1" and u: "evolves (uefiStep ?p ?m (files w ?p) efi) w1 w'"
    using uefi_phases [OF assms(1,2)] by blast
  note ne = loader_not_metadata [OF assms(2), of mp]
  have b': "?I (files w1) \<and> (\<exists>t. trace w1 = trace w @ t \<and> (\<forall>f. Now f \<in> set t \<longrightarrow> ?I f))"
    by (rule evolves_invariant [OF b]) (use ne in \<open>auto simp: uefiKeeps_def backStep_def onlyAt_def\<close>)
  have u': "?I (files w') \<and> (\<exists>t. trace w' = trace w1 @ t \<and> (\<forall>f. Now f \<in> set t \<longrightarrow> ?I f))"
    by (rule evolves_invariant [OF u]) (use ne b' in \<open>auto simp: uefiKeeps_def uefiStep_def onlyAt_def\<close>)
  show ?thesis using b' u' assms(3,4) by auto
qed

lemma uefi_outcome:
  assumes "writeUEFIGenerationWithRollback c peOpen w mp arch efi efiFile info = (bu, e, w')" "LoaderPath arch = Some rel"
  defines "p \<equiv> (mp, rel)" and "m \<equiv> (mp, MetadataFile)"
  shows "(case e of None \<Rightarrow> files w' p = Some efi \<and> files w' m \<noteq> None
     | Some _ \<Rightarrow> critical w' \<or> files w' p = files w p \<and> files w' m = files w m) \<and>
    (\<forall>q. q \<notin> {p, m, prevOf p, tmpOf p} \<longrightarrow> files w' q = files w q) \<and> (bu \<longrightarrow> files w' (prevOf p) = files w p)"
proof -
  obtain w1 where b: "evolves (backStep p (files w p)) w w1" and bu: "bu \<longrightarrow> files w1 (prevOf p) = files w p"
    and u: "evolves (uefiStep p m (files w p) efi) w1 w'" and r: "case e of None \<Rightarrow> files w' p = Some efi \<and> files w' m \<noteq> None
     | Some _ \<Rightarrow> critical w' \<or> files w' p = files w p \<and> files w' m = files w m"
    using uefi_phases [OF assms(1,2)] unfolding p_def m_def by blast
  have "prevOf p \<noteq> m" using loader_not_metadata(2) [OF assms(2)] by (simp add: p_def m_def)
  then have prev: "bu \<longrightarrow> files w' (prevOf p) = files w p" using bu uefiStep_frame [OF u] by simp
  have "files w' q = files w q" if q: "q \<notin> {p, m, prevOf p, tmpOf p}" for q
  proof -
    have "files w1 q = files w q \<and> (\<exists>t. trace w1 = trace w @ t \<and> (\<forall>f. Now f \<in> set t \<longrightarrow> f q = files w q))"
      by (rule evolves_invariant [OF b, of "\<lambda>f. f q = files w q"]) (use q in \<open>auto simp: backStep_def onlyAt_def\<close>)
    then show ?thesis using uefiStep_frame [OF u] q by simp
  qed
  then show ?thesis using r prev by blast
qed


section \<open>Properties\<close>


definition uefi_store :: "fs_io list \<Rightarrow> world" where
  "uefi_store io = \<lparr>files = (\<lambda>_. None)((''/esp'', ''EFI/BOOT/BOOTX64.EFI'') \<mapsto> ''old''), fsio = io, trace = []\<rparr>"

definition sample_pe :: pe_open where
  "sample_pe _ = None"

definition sample_info :: Info where
  "sample_info = ParseText ''alpine-zfsboot.version=1 alpine-zfsboot.buildstamp=2''"




end
