(* ===== verification/Verify_Repair.thy ===== *)
theory Verify_Repair
  imports Uefi_Boot
begin

text \<open>
  The checks of an installed partition in \<open>src/cmd/tool/main.go\<close>: METADATA, CHECKSUM and BLKSUM
  against the installed kernel and initrd, the repair of missing ones, and the integrity mode.  The
  lemmas show what a verify may change (only manifests that were missing) and that the integrity
  command changes nothing but the mode of an existing CHECKSUM.

  Of the \<open>target\<close> and \<open>report\<close> structures only the fields these functions use are modelled; the texts
  of the messages are data, and printing them is left out.
\<close>

section \<open>Reading the installed payload\<close>

record target =
  tUefi :: bool
  tArch :: string
  tMountpoint :: string

datatype installed_error = InstArch string | InstRead path | InstLoader cmdline_error

definition readPE :: "world \<Rightarrow> path \<Rightarrow> (bytes \<Rightarrow> cmdline_error + 'a) \<Rightarrow> (installed_error + 'a) \<times> world" where
  "readPE w p f =
     (case readFile w p of
        (Content b, w) \<Rightarrow> (mapErr InstLoader (f b), w)
      | (_, w) \<Rightarrow> (Inl (InstRead p), w))"

definition readPlain :: "world \<Rightarrow> path \<Rightarrow> (installed_error + bytes) \<times> world" where
  "readPlain w p = (case readFile w p of (Content b, w) \<Rightarrow> (Inr b, w) | (_, w) \<Rightarrow> (Inl (InstRead p), w))"

definition readInstalledKernelInitrd :: "pe_open \<Rightarrow> world \<Rightarrow> target \<Rightarrow> (installed_error + bytes \<times> bytes \<times> Info) \<times> world" where
  "readInstalledKernelInitrd peOpen w t =
     (if tUefi t then
        (case LoaderPath (tArch t) of
           None \<Rightarrow> (Inl (InstArch (tArch t)), w)
         | Some rel \<Rightarrow>
             let loader = (tMountpoint t, rel) in
             bindW (readPE w loader (ReadInfo peOpen)) (\<lambda>info w.
             bindW (readPE w loader (\<lambda>b. ReadSection peOpen b ''.linux'')) (\<lambda>kern w.
             bindW (readPE w loader (\<lambda>b. ReadSection peOpen b ''.initrd'')) (\<lambda>initrd w.
             (Inr (kern, initrd, info), w)))))
      else
        bindW (readPlain w (tMountpoint t, KernelFile)) (\<lambda>kern w.
        bindW (readPlain w (tMountpoint t, InitrdFile)) (\<lambda>initrd w.
        bindW (readPlain w (tMountpoint t, CmdlineFile)) (\<lambda>cmdline w.
        (Inr (kern, initrd, ParseText cmdline), w)))))"


section \<open>METADATA\<close>

datatype meta_issue =
    MetaUndecodable "meta_error option"
  | MetaPayload installed_error
  | MetaRepair payload_error
  | MetaKernelHash
  | MetaInitrdHash
  | MetaVersion string string
  | MetaBuildStamp string string
  | MetaArch string string
  | MetaDeep deep_error
  | MetaDeepKernel string string
  | MetaDeepOpenZFS string string

definition metadataIssues :: "MetaManifest \<Rightarrow> string \<Rightarrow> Info \<Rightarrow> bytes \<Rightarrow> bytes \<Rightarrow> meta_issue list" where
  "metadataIssues m arch info kern initrd =
     (if \<not> VerifyHash kern (KernelSHA256 m) then [MetaKernelHash] else []) @
     (if \<not> VerifyHash initrd (InitrdSHA256 m) then [MetaInitrdHash] else []) @
     (if Version m \<noteq> iVersion info then [MetaVersion (Version m) (iVersion info)] else []) @
     (if BuildStamp m \<noteq> iBuildStamp info then [MetaBuildStamp (BuildStamp m) (iBuildStamp info)] else []) @
     (if Arch m \<noteq> arch then [MetaArch (Arch m) arch] else [])"

definition deepIssues :: "codecs \<Rightarrow> MetaManifest \<Rightarrow> string \<Rightarrow> Info \<Rightarrow> bytes \<Rightarrow> bytes \<Rightarrow> meta_issue list" where
  "deepIssues c m arch info kern initrd =
     (case deepMetadataFor c arch (iVersion info) (iBuildStamp info) kern initrd of
        Inl e \<Rightarrow> [MetaDeep e]
      | Inr now \<Rightarrow>
          (if KernelVersion now \<noteq> KernelVersion m then [MetaDeepKernel (KernelVersion m) (KernelVersion now)] else []) @
          (if OpenZFS now \<noteq> OpenZFS m then [MetaDeepOpenZFS (OpenZFS m) (OpenZFS now)] else []))"

definition verifyMetadata :: "codecs \<Rightarrow> pe_open \<Rightarrow> world \<Rightarrow> target \<Rightarrow> bool \<Rightarrow> bool \<Rightarrow> meta_issue list \<times> world" where
  "verifyMetadata c peOpen w t deep repair =
     (case tryReadMetadata w (tMountpoint t) of
        (MetaBad e, w) \<Rightarrow> ([MetaUndecodable e], w)
      | (m, w) \<Rightarrow>
          (case readInstalledKernelInitrd peOpen w t of
             (Inl e, w) \<Rightarrow> ([MetaPayload e], w)
           | (Inr (kern, initrd, info), w) \<Rightarrow>
               (case m of
                  MetaPresent m \<Rightarrow>
                    (let errs = metadataIssues m (tArch t) info kern initrd in
                     if errs \<noteq> [] then (errs, w)
                     else if deep then (deepIssues c m (tArch t) info kern initrd, w)
                     else ([], w))
                | _ \<Rightarrow>
                    if \<not> repair then ([], w)
                    else
                      (case writeMetadata c w (tMountpoint t) (tArch t) (iVersion info) (iBuildStamp info) kern initrd of
                         (Some e, w) \<Rightarrow> ([MetaRepair e], w)
                       | (None, w) \<Rightarrow> ([], w)))))"


section \<open>The integrity mode\<close>

fun integrityWord :: "string list \<Rightarrow> string" where
  "integrityWord [] = ''''"
| "integrityWord (x # xs) =
     (case cutPrefix x ''alpine-zfsboot.integrity='' of
        Some v \<Rightarrow> if ValidMode v then v else ''''
      | None \<Rightarrow> integrityWord xs)"

definition cmdlineIntegrity :: "string \<Rightarrow> string" where
  "cmdlineIntegrity cmd = integrityWord (Fields cmd)"

definition effectiveIntegrity :: "world \<Rightarrow> string \<Rightarrow> string \<Rightarrow> string \<times> world" where
  "effectiveIntegrity w mp checksumMode =
     (case readFile w (mp, CmdlineFile) of
        (Content raw, w) \<Rightarrow> (let v = cmdlineIntegrity raw in if v \<noteq> '''' then v else checksumMode, w)
      | (_, w) \<Rightarrow> (checksumMode, w))"

datatype mode_error =
    ModeInvalid string
  | ModePayload installed_error
  | ModeChecksum psum_error
  | ModeBlkSum blk_error
  | ModeRead
  | ModeDecode psum_error
  | ModeWrite path write_error

definition setIntegrityMode :: "pe_open \<Rightarrow> world \<Rightarrow> target \<Rightarrow> string \<Rightarrow> mode_error option \<times> world" where
  "setIntegrityMode peOpen w t mode =
     (let mp = tMountpoint t;
          write = (\<lambda>w m. mapError (ModeWrite (mp, PayloadSumFile)) (WriteFile w (mp, PayloadSumFile) (Encode m)))
      in if \<not> ValidMode mode then (Some (ModeInvalid mode), w)
         else
           (case readFile w (mp, PayloadSumFile) of
              (NotExist, w) \<Rightarrow>
                (case readInstalledKernelInitrd peOpen w t of
                   (Inl e, w) \<Rightarrow> (Some (ModePayload e), w)
                 | (Inr (kern, initrd, _), w) \<Rightarrow>
                     (case New kern initrd mode of
                        Inl e \<Rightarrow> (Some (ModeChecksum e), w)
                      | Inr m \<Rightarrow>
                          (case GenerateBlkSum kern initrd of
                             Inl e \<Rightarrow> (Some (ModeBlkSum e), w)
                           | Inr blk \<Rightarrow>
                               thenDo (mapError (ModeWrite (mp, BlkSumFile)) (WriteFile w (mp, BlkSumFile) blk)) (\<lambda>w. write w m))))
            | (ReadError, w) \<Rightarrow> (Some ModeRead, w)
            | (Content raw, w) \<Rightarrow>
                (case Decode raw of
                   Inl e \<Rightarrow> (Some (ModeDecode e), w)
                 | Inr m \<Rightarrow> write w (m\<lparr>Mode := mode\<rparr>))))"


section \<open>CHECKSUM and BLKSUM\<close>

datatype sum_issue =
    SumRead
  | SumDecode psum_error
  | SumSize string nat u32 string
  | SumPayload installed_error
  | SumRepair psum_error
  | SumRepairBlk blk_error
  | SumRepairWrite path write_error
  | SumMismatch verify_error
  | BlkRead
  | BlkDecode blk_error
  | BlkMismatch blk_problem

datatype blk_status = BlkUnread | BlkAbsent | BlkWarning "blk_error option" | BlkInfo u32 u32 | BlkVerified u32 u32

record sum_report =
  payloadSumPresent :: bool
  payloadSumMode :: string
  payloadSumErr :: "sum_issue option"
  payloadSumVerified :: bool
  payloadSumWarn :: bool
  blkSum :: blk_status

definition statSize :: "world \<Rightarrow> path \<Rightarrow> nat option \<times> world" where
  "statSize w p = (case readFile w p of (Content b, w) \<Rightarrow> (Some (length b), w) | (_, w) \<Rightarrow> (None, w))"

fun checkSizes :: "world \<Rightarrow> string \<Rightarrow> string \<Rightarrow> (string \<times> u32) list \<Rightarrow> sum_issue option \<times> world" where
  "checkSizes w mp mode [] = (None, w)"
| "checkSizes w mp mode ((rel, want) # rest) =
     (case statSize w (mp, rel) of
        (None, w) \<Rightarrow> checkSizes w mp mode rest
      | (Some n, w) \<Rightarrow>
          if n \<noteq> unat want then (case effectiveIntegrity w mp mode of (eff, w) \<Rightarrow> (Some (SumSize rel n want eff), w))
          else checkSizes w mp mode rest)"

definition inspectPayloadSum :: "world \<Rightarrow> string \<Rightarrow> (bool \<times> string \<times> sum_issue option) \<times> world" where
  "inspectPayloadSum w mp =
     (case readFile w (mp, PayloadSumFile) of
        (NotExist, w) \<Rightarrow> ((False, '''', None), w)
      | (ReadError, w) \<Rightarrow> ((True, '''', Some SumRead), w)
      | (Content raw, w) \<Rightarrow>
          (case Decode raw of
             Inl e \<Rightarrow> ((True, '''', Some (SumDecode e)), w)
           | Inr m \<Rightarrow>
               (case checkSizes w mp (Mode m) [(KernelFile, Size (Kernel m)), (InitrdFile, Size (Initrd m))] of
                  (e, w) \<Rightarrow> ((True, Mode m, e), w))))"

definition inspectBlkSum :: "world \<Rightarrow> string \<Rightarrow> blk_status \<times> world" where
  "inspectBlkSum w mp =
     (case readFile w (mp, BlkSumFile) of
        (NotExist, w) \<Rightarrow> (BlkAbsent, w)
      | (ReadError, w) \<Rightarrow> (BlkWarning None, w)
      | (Content raw, w) \<Rightarrow>
          (case DecodeBlkSum raw of
             Inl e \<Rightarrow> (BlkWarning (Some e), w)
           | Inr b \<Rightarrow> (BlkInfo (Blocks (BKernel b)) (Blocks (BInitrd b)), w)))"

text \<open>An out-of-range index of \<open>VerifyBlkSum\<close> ends the program: the value \<^const>\<open>None\<close>.\<close>

definition checkBlkSum ::
    "sum_report \<Rightarrow> Manifest \<Rightarrow> bytes \<Rightarrow> bytes \<Rightarrow> bytes \<Rightarrow> (sum_issue list \<times> sum_report) option" where
  "checkBlkSum r m kern initrd raw =
     (case DecodeBlkSum raw of
        Inl e \<Rightarrow> Some ([BlkDecode e], r)
      | Inr b \<Rightarrow>
          map_option (\<lambda>errs.
            (map BlkMismatch errs,
             if errs = [] then r\<lparr>blkSum := BlkVerified (Blocks (BKernel b)) (Blocks (BInitrd b))\<rparr> else r))
            (VerifyBlkSum b m kern initrd))"

definition verifyBlkSum ::
    "world \<Rightarrow> target \<Rightarrow> sum_report \<Rightarrow> Manifest \<Rightarrow> bytes \<Rightarrow> bytes \<Rightarrow> bool \<Rightarrow>
     (sum_issue list \<times> sum_report) option \<times> world" where
  "verifyBlkSum w t r m kern initrd repair =
     (let p = (tMountpoint t, BlkSumFile) in
      case readFile w p of
        (NotExist, w) \<Rightarrow>
          if \<not> repair then (Some ([], r\<lparr>blkSum := BlkAbsent\<rparr>), w)
          else
            (case GenerateBlkSum kern initrd of
               Inl e \<Rightarrow> (Some ([SumRepairBlk e], r), w)
             | Inr blk \<Rightarrow>
                 (case WriteFile w p blk of
                    (Some e, w) \<Rightarrow> (Some ([SumRepairWrite p e], r), w)
                  | (None, w) \<Rightarrow> (checkBlkSum r m kern initrd blk, w)))
      | (ReadError, w) \<Rightarrow> (Some ([BlkRead], r), w)
      | (Content raw, w) \<Rightarrow> (checkBlkSum r m kern initrd raw, w))"

definition repairPayloadSum ::
    "world \<Rightarrow> target \<Rightarrow> sum_report \<Rightarrow> bytes \<Rightarrow> bytes \<Rightarrow> (sum_issue list \<times> sum_report) \<times> world" where
  "repairPayloadSum w t r kern initrd =
     (let mp = tMountpoint t in
      case Generate kern initrd ModeWarn of
        Inl e \<Rightarrow> (([SumRepair e], r), w)
      | Inr raw \<Rightarrow>
          (case GenerateBlkSum kern initrd of
             Inl e \<Rightarrow> (([SumRepairBlk e], r), w)
           | Inr blk \<Rightarrow>
               (case thenDo (mapError (SumRepairWrite (mp, BlkSumFile)) (WriteFile w (mp, BlkSumFile) blk)) (\<lambda>w.
                     mapError (SumRepairWrite (mp, PayloadSumFile)) (WriteFile w (mp, PayloadSumFile) raw)) of
                  (Some e, w) \<Rightarrow> (([e], r), w)
                | (None, w) \<Rightarrow> (([], r\<lparr>payloadSumPresent := True, payloadSumVerified := True\<rparr>), w))))"

text \<open>With an effective mode other than enforce the problems are warnings: they are not returned.\<close>

definition verifyPayloadSum ::
    "pe_open \<Rightarrow> world \<Rightarrow> target \<Rightarrow> sum_report \<Rightarrow> bool \<Rightarrow> (sum_issue list \<times> sum_report) option \<times> world" where
  "verifyPayloadSum peOpen w t r repair =
     (let mp = tMountpoint t in
      if payloadSumErr r \<noteq> None then (Some ([], r), w)
      else if \<not> payloadSumPresent r \<and> \<not> repair then (Some ([], r), w)
      else
        case readInstalledKernelInitrd peOpen w t of
          (Inl e, w) \<Rightarrow> (Some ([SumPayload e], r), w)
        | (Inr (kern, initrd, _), w) \<Rightarrow>
            if \<not> payloadSumPresent r then (case repairPayloadSum w t r kern initrd of (x, w) \<Rightarrow> (Some x, w))
            else
              (case readFile w (mp, PayloadSumFile) of
                 (Content raw, w) \<Rightarrow>
                   (case Decode raw of
                      Inl e \<Rightarrow> (Some ([SumDecode e], r), w)
                    | Inr m \<Rightarrow>
                        (case (case Verify m kern initrd of
                                 [] \<Rightarrow> verifyBlkSum w t r m kern initrd repair
                               | errs \<Rightarrow> (Some (map SumMismatch errs, r), w)) of
                           (None, w) \<Rightarrow> (None, w)
                         | (Some (errs, r), w) \<Rightarrow>
                             let r = r\<lparr>payloadSumVerified := (errs = []), payloadSumMode := Mode m\<rparr> in
                             (case effectiveIntegrity w mp (Mode m) of
                                (eff, w) \<Rightarrow>
                                  if errs \<noteq> [] \<and> eff \<noteq> ModeEnforce then (Some ([], r\<lparr>payloadSumWarn := True\<rparr>), w)
                                  else (Some (errs, r), w))))
               | (_, w) \<Rightarrow> (Some ([SumRead], r), w)))"

text \<open>The manifest checks of one \<open>verify\<close>: \<open>inspect\<close>'s look at CHECKSUM and BLKSUM, then METADATA, then CHECKSUM.\<close>

definition inspectSums :: "world \<Rightarrow> string \<Rightarrow> sum_report \<times> world" where
  "inspectSums w mp =
     (case inspectPayloadSum w mp of
        ((present, mode, e), w) \<Rightarrow>
          (case inspectBlkSum w mp of
             (b, w) \<Rightarrow>
               (\<lparr>payloadSumPresent = present, payloadSumMode = mode, payloadSumErr = e, payloadSumVerified = False,
                 payloadSumWarn = False, blkSum = b\<rparr>, w)))"

definition verifyManifests ::
    "codecs \<Rightarrow> pe_open \<Rightarrow> world \<Rightarrow> target \<Rightarrow> bool \<Rightarrow> bool \<Rightarrow> (meta_issue list \<times> sum_issue list) option \<times> world" where
  "verifyManifests c peOpen w t deep repair =
     (if tUefi t then
        (case verifyMetadata c peOpen w t deep repair of (metaErrs, w) \<Rightarrow> (Some (metaErrs, []), w))
      else
        case inspectSums w (tMountpoint t) of
          (r, w) \<Rightarrow>
            (case verifyMetadata c peOpen w t deep repair of
               (metaErrs, w) \<Rightarrow>
                 (case verifyPayloadSum peOpen w t r (repair \<and> metaErrs = []) of
                    (x, w) \<Rightarrow> (map_option (\<lambda>(errs, _). (metaErrs, errs)) x, w))))"


section \<open>What the checks read\<close>

lemma readPE_quiet: "readPE w p f = (r, w') \<Longrightarrow> quiet w w'"
  by (auto simp: readPE_def split: prod.splits read_result.splits dest: readFile_quiet)

lemma readPlain_result: "readPlain w p = (r, w') \<Longrightarrow> quiet w w' \<and> (\<forall>b. r = Inr b \<longrightarrow> files w p = Some b)"
  by (auto simp: readPlain_def split: prod.splits read_result.splits dest: readFile_quiet readFile_result)

lemma bindW_quiet:
  assumes "bindW r k = (y, w')" "\<And>x w1. r = (x, w1) \<Longrightarrow> quiet w w1" "\<And>x w1. r = (Inr x, w1) \<Longrightarrow> k x w1 = (y, w') \<Longrightarrow> quiet w1 w'"
  shows "quiet w w'"
  using assms(1) by (cases rule: bindW_cases) (auto dest: assms(2,3) intro: quiet_trans)

lemma readInstalled_quiet: "readInstalledKernelInitrd peOpen w t = (r, w') \<Longrightarrow> quiet w w'"
  unfolding readInstalledKernelInitrd_def Let_def
  by (auto split: if_splits option.splits elim!: bindW_quiet dest: readPE_quiet conjunct1 [OF readPlain_result])

lemma readInstalled_files:
  assumes "readInstalledKernelInitrd peOpen w t = (Inr (kern, initrd, info), w')" "\<not> tUefi t"
  shows "files w (tMountpoint t, KernelFile) = Some kern \<and> files w (tMountpoint t, InitrdFile) = Some initrd"
  using assms unfolding readInstalledKernelInitrd_def
  by (auto elim!: bindW_cases dest!: readPlain_result) (auto simp: quiet_def)

lemma tryReadMetadata_result:
  "tryReadMetadata w mp = (m, w') \<Longrightarrow> quiet w w' \<and> (m = MetaAbsent \<longleftrightarrow> files w (mp, MetadataFile) = None \<and> m = MetaAbsent)"
  by (auto simp: tryReadMetadata_def split: prod.splits read_result.splits sum.splits dest: readFile_quiet readFile_result)

lemma effectiveIntegrity_quiet: "effectiveIntegrity w mp mode = (e, w') \<Longrightarrow> quiet w w'"
  by (auto simp: effectiveIntegrity_def split: prod.splits read_result.splits dest: readFile_quiet)

lemma statSize_quiet: "statSize w p = (n, w') \<Longrightarrow> quiet w w'"
  by (auto simp: statSize_def split: prod.splits read_result.splits dest: readFile_quiet)

lemma checkSizes_quiet: "checkSizes w mp mode fs = (e, w') \<Longrightarrow> quiet w w'"
  by (induction w mp mode fs rule: checkSizes.induct)
    (auto split: prod.splits option.splits if_splits dest!: statSize_quiet effectiveIntegrity_quiet intro: quiet_trans)

declare checkSizes.simps [simp del]

lemma inspectPayloadSum_result:
  "inspectPayloadSum w mp = ((present, mode, e), w') \<Longrightarrow> quiet w w' \<and> (\<not> present \<longrightarrow> files w (mp, PayloadSumFile) = None)"
  by (auto simp: inspectPayloadSum_def split: prod.splits read_result.splits sum.splits
      dest: readFile_quiet readFile_result dest!: checkSizes_quiet intro: quiet_trans)

lemma inspectBlkSum_quiet: "inspectBlkSum w mp = (s, w') \<Longrightarrow> quiet w w'"
  by (auto simp: inspectBlkSum_def split: prod.splits read_result.splits sum.splits dest: readFile_quiet)

lemma inspectSums_result:
  "inspectSums w mp = (r, w') \<Longrightarrow> quiet w w' \<and> (\<not> payloadSumPresent r \<longrightarrow> files w (mp, PayloadSumFile) = None)"
  by (auto simp: inspectSums_def split: prod.splits dest!: inspectPayloadSum_result inspectBlkSum_quiet intro: quiet_trans)


section \<open>What a repair may change\<close>

text \<open>The manifests that were missing; BLKSUM also beside a missing CHECKSUM, which it is only used with.\<close>

definition mayRepair :: "files \<Rightarrow> string \<Rightarrow> path \<Rightarrow> bool" where
  "mayRepair f0 mp p \<longleftrightarrow>
     p = (mp, MetadataFile) \<and> f0 (mp, MetadataFile) = None \<or>
     p = (mp, PayloadSumFile) \<and> f0 (mp, PayloadSumFile) = None \<or>
     p = (mp, BlkSumFile) \<and> (f0 (mp, BlkSumFile) = None \<or> f0 (mp, PayloadSumFile) = None)"

definition repairStep :: "files \<Rightarrow> string \<Rightarrow> files \<Rightarrow> files \<Rightarrow> bool" where
  "repairStep f0 mp f g \<longleftrightarrow>
     (\<exists>p b. mayRepair f0 mp p \<and> g = f(p \<mapsto> b) \<and> (p = (mp, PayloadSumFile) \<longrightarrow> checksumHolds mp g))"

lemma repairStepI:
  "mayRepair f0 mp p \<Longrightarrow> (p = (mp, PayloadSumFile) \<Longrightarrow> checksumHolds mp (f(p \<mapsto> b))) \<Longrightarrow> repairStep f0 mp f (f(p \<mapsto> b))"
  unfolding repairStep_def by blast

lemma checksumHolds_cong:
  "f (mp, PayloadSumFile) = g (mp, PayloadSumFile) \<Longrightarrow> f (mp, KernelFile) = g (mp, KernelFile) \<Longrightarrow>
   f (mp, InitrdFile) = g (mp, InitrdFile) \<Longrightarrow> checksumHolds mp f = checksumHolds mp g"
  unfolding checksumHolds_def by (simp only:)

lemma checksumHolds_generated:
  assumes "Generate kern initrd mode = Inr raw" "f (mp, KernelFile) = Some kern" "f (mp, InitrdFile) = Some initrd"
  shows "checksumHolds mp (f((mp, PayloadSumFile) \<mapsto> raw))"
proof -
  obtain off where "KernelRAMOffset kern = Inr off"
    using assms(1) by (auto simp: Generate_def New_def bindE_def mapErr_def split: if_splits sum.splits)
  then obtain m where "Decode raw = Inr m" "Verify m kern initrd = []" using Generate_verifies [OF assms(1)] by auto
  then show ?thesis using assms(2,3) by (simp add: checksumHolds_def file_neq)
qed

lemma repairStep_keeps:
  assumes "repairStep f0 mp f g"
  shows "(\<And>p. f p \<noteq> f0 p \<Longrightarrow> mayRepair f0 mp p) \<Longrightarrow> g q \<noteq> f0 q \<Longrightarrow> mayRepair f0 mp q"
    "checksumHolds mp f \<Longrightarrow> checksumHolds mp g"
proof -
  obtain p b where p: "mayRepair f0 mp p" "g = f(p \<mapsto> b)" "p = (mp, PayloadSumFile) \<Longrightarrow> checksumHolds mp g"
    using assms unfolding repairStep_def by blast
  show "mayRepair f0 mp q" if "\<And>p. f p \<noteq> f0 p \<Longrightarrow> mayRepair f0 mp p" "g q \<noteq> f0 q"
    using p(1,2) that by (cases "q = p") simp_all
  show "checksumHolds mp g" if "checksumHolds mp f"
  proof (cases "p = (mp, PayloadSumFile)")
    case False
    then have "p = (mp, MetadataFile) \<or> p = (mp, BlkSumFile)" using p(1) by (auto simp: mayRepair_def)
    then have "checksumHolds mp g = checksumHolds mp f"
      unfolding p(2) by (intro checksumHolds_cong) (auto simp: file_neq)
    then show ?thesis using that by simp
  qed (rule p(3))
qed

lemma writeMetadata_evolves:
  assumes "writeMetadata c w mp arch version buildStamp kern initrd = (e, w')" "f0 (mp, MetadataFile) = None"
  shows "evolves (repairStep f0 mp) w w'"
proof (cases "metadataBytes c arch version buildStamp kern initrd")
  case (Inl x)
  then show ?thesis using assms(1) by (auto simp: writeMetadata_def intro: evolves.start)
next
  case (Inr enc)
  then obtain e' where "WriteFile w (mp, MetadataFile) enc = (e', w')"
    using assms(1) by (cases e) (auto simp: writeMetadata_def mapError_simps)
  then show ?thesis
    by (rule evolves_WriteFile) (use assms(2) in \<open>auto simp: mayRepair_def file_neq intro!: repairStepI\<close>)
qed

lemma verifyMetadata_evolves:
  assumes "verifyMetadata c peOpen w t deep repair = (errs, w')"
  shows "evolves (repairStep (files w) (tMountpoint t)) w w' \<and>
    (\<not> repair \<or> files w (tMountpoint t, MetadataFile) \<noteq> None \<longrightarrow> quiet w w')"
proof -
  obtain m w1 where m: "tryReadMetadata w (tMountpoint t) = (m, w1)" by fastforce
  obtain r w2 where r: "readInstalledKernelInitrd peOpen w1 t = (r, w2)" by fastforce
  note m' = tryReadMetadata_result [OF m]
  have q: "quiet w w1" "quiet w w2" using m' readInstalled_quiet [OF r] by (auto intro: quiet_trans)
  have wr: "evolves (repairStep (files w) (tMountpoint t)) w w3"
    if "m = MetaAbsent" "writeMetadata c w2 (tMountpoint t) arch v b k i = (e, w3)" for arch v b k i e w3
    using evolves_trans [OF writeMetadata_evolves [OF that(2)] evolves.start [OF q(2)]] m' that(1) by blast
  show ?thesis
    using assms q m' unfolding verifyMetadata_def m
    by (auto simp: r Let_def split: meta_state.splits sum.splits prod.splits option.splits if_splits intro: evolves.start wr)
qed


lemma verifyMetadata_frame:
  assumes "verifyMetadata c peOpen w t deep repair = (errs, w')" "p \<noteq> (tMountpoint t, MetadataFile)"
  shows "files w' p = files w p"
proof -
  obtain m w1 where m: "tryReadMetadata w (tMountpoint t) = (m, w1)" by fastforce
  obtain r w2 where r: "readInstalledKernelInitrd peOpen w1 t = (r, w2)" by fastforce
  have q: "files w1 = files w" "files w2 = files w"
    using tryReadMetadata_result [OF m] readInstalled_quiet [OF r] by (simp_all add: quiet_def)
  have "files w3 p = files w p" if "writeMetadata c w2 (tMountpoint t) arch v b k i = (e, w3)" for arch v b k i e w3
    using that assms(2) q wf.wr_frame
    by (auto simp: writeMetadata_def mapError_def split: sum.splits)
      (metis wf.wr_frame prod.collapse)
  then show ?thesis
    using assms(1) q unfolding verifyMetadata_def m
    by (auto simp: r Let_def split: meta_state.splits sum.splits prod.splits option.splits if_splits)
qed

lemma verifyBlkSum_evolves:
  assumes "verifyBlkSum w t r m kern initrd repair = (x, w')"
    and "\<And>p. f0 p = files w p \<or> p = (tMountpoint t, MetadataFile)"
  shows "evolves (repairStep f0 (tMountpoint t)) w w' \<and> (\<not> repair \<longrightarrow> quiet w w')"
proof -
  let ?p = "(tMountpoint t, BlkSumFile)"
  obtain d w1 where d: "readFile w ?p = (d, w1)" by fastforce
  note q = readFile_quiet [OF d]
  have "evolves (repairStep f0 (tMountpoint t)) w w2" if "d = NotExist" "WriteFile w1 ?p b = (e, w2)" for b e w2
  proof -
    have "mayRepair f0 (tMountpoint t) ?p"
      using assms(2) [of ?p] d that(1) readFile_result(2) [of w ?p w1] by (auto simp: mayRepair_def file_neq)
    then have "evolves (repairStep f0 (tMountpoint t)) w1 w2"
      by (intro evolves_WriteFile [OF that(2)] repairStepI) (simp_all add: file_neq)
    then show ?thesis using evolves_trans evolves.start [OF q] by blast
  qed
  then show ?thesis
    using assms(1) q unfolding verifyBlkSum_def
    by (auto simp: d Let_def split: read_result.splits sum.splits prod.splits option.splits if_splits intro: evolves.start)
qed

lemma repairPayloadSum_evolves:
  assumes "repairPayloadSum w t r kern initrd = (x, w')" "f0 (tMountpoint t, PayloadSumFile) = None"
    and "files w (tMountpoint t, KernelFile) = Some kern" "files w (tMountpoint t, InitrdFile) = Some initrd"
  shows "evolves (repairStep f0 (tMountpoint t)) w w'"
proof -
  let ?mp = "tMountpoint t"
  let ?R = "repairStep f0 ?mp"
  show ?thesis
  proof (cases "Generate kern initrd ModeWarn")
    case (Inl e)
    then show ?thesis using assms(1) by (auto simp: repairPayloadSum_def intro: evolves.start)
  next
    case raw: (Inr raw)
    show ?thesis
    proof (cases "GenerateBlkSum kern initrd")
      case (Inl e)
      then show ?thesis using assms(1) raw by (auto simp: repairPayloadSum_def intro: evolves.start)
    next
      case (Inr blk)
      obtain e1 w1 where 1: "WriteFile w (?mp, BlkSumFile) blk = (e1, w1)" by fastforce
      obtain e2 w2 where 2: "WriteFile w1 (?mp, PayloadSumFile) raw = (e2, w2)" by fastforce
      have r1: "evolves ?R w w1"
        by (rule evolves_WriteFile [OF 1], rule repairStepI) (use assms(2) in \<open>simp_all add: mayRepair_def file_neq\<close>)
      have "evolves ?R w1 w2"
        by (rule evolves_WriteFile [OF 2], rule repairStepI)
          (use assms(2-4) wf.wr_frame [OF 1] in \<open>simp_all add: mayRepair_def file_neq checksumHolds_generated [OF raw]\<close>)
      then have "evolves ?R w w2" using evolves_trans r1 by blast
      moreover have "w' = w1 \<or> w' = w2"
        using assms(1) by (cases e1; cases e2) (simp_all add: repairPayloadSum_def raw Inr 1 2 mapError_def)
      ultimately show ?thesis using r1 by blast
    qed
  qed
qed


lemma verifyPayloadSum_evolves:
  assumes "verifyPayloadSum peOpen w t r repair = (x, w')" "\<not> tUefi t"
    and "\<not> payloadSumPresent r \<Longrightarrow> f0 (tMountpoint t, PayloadSumFile) = None"
    and "\<And>p. f0 p = files w p \<or> p = (tMountpoint t, MetadataFile)"
  shows "evolves (repairStep f0 (tMountpoint t)) w w' \<and> (\<not> repair \<longrightarrow> quiet w w')"
proof -
  let ?mp = "tMountpoint t"
  let ?G = "\<lambda>y. evolves (repairStep f0 ?mp) w y \<and> (\<not> repair \<longrightarrow> quiet w y)"
  obtain i w1 where i: "readInstalledKernelInitrd peOpen w t = (i, w1)" by fastforce
  obtain d w2 where d: "readFile w1 (?mp, PayloadSumFile) = (d, w2)" by fastforce
  have q1: "quiet w w1" using readInstalled_quiet [OF i] .
  have q2: "quiet w w2" using quiet_trans [OF q1 readFile_quiet [OF d]] .
  have still: "?G y" if "quiet w y" for y using that by (simp add: evolves.start)
  have rep: "evolves (repairStep f0 ?mp) w y"
    if "\<not> payloadSumPresent r" "i = Inr (kern, initrd, info)" "repairPayloadSum w1 t r kern initrd = (z, y)" for kern initrd info z y
  proof -
    have "files w1 (?mp, KernelFile) = Some kern" "files w1 (?mp, InitrdFile) = Some initrd"
      using readInstalled_files [of peOpen w t kern initrd info w1] i that(2) assms(2) q1 by (simp_all add: quiet_def)
    from repairPayloadSum_evolves [where ?f0.0 = f0, OF that(3) assms(3) [OF that(1)] this] show ?thesis
      using evolves_trans evolves.start [OF q1] by blast
  qed
  have blk: "?G y" if "verifyBlkSum w2 t r m kern initrd repair = (z, y)" for m kern initrd z y
  proof -
    have "evolves (repairStep f0 ?mp) w2 y \<and> (\<not> repair \<longrightarrow> quiet w2 y)"
      by (rule verifyBlkSum_evolves [OF that]) (use assms(4) q2 in \<open>simp add: quiet_def\<close>)
    then show ?thesis using evolves_trans evolves.start [OF q2] quiet_trans [OF q2] by blast
  qed
  have eff: "?G y" if "effectiveIntegrity z mp mode = (e, y)" "?G z" for z mp mode e y
    using that effectiveIntegrity_quiet [OF that(1)] by (auto intro: evolves.silent quiet_trans)
  show ?thesis
    using assms(1) q1 q2 unfolding verifyPayloadSum_def Let_def i prod.case
    by (auto simp: d split: if_splits sum.splits prod.splits read_result.splits option.splits list.splits
        dest: rep blk eff still intro: evolves.start quiet_refl)
qed


lemma verifyManifests_evolves:
  assumes "verifyManifests c peOpen w t deep repair = (res, w')"
  shows "evolves (repairStep (files w) (tMountpoint t)) w w' \<and> (\<not> repair \<longrightarrow> quiet w w') \<and>
    (\<forall>metaErrs errs. res = Some (metaErrs, errs) \<and> metaErrs \<noteq> [] \<and> files w (tMountpoint t, MetadataFile) \<noteq> None \<longrightarrow> quiet w w')"
proof (cases "tUefi t")
  case True
  obtain errs w1 where "verifyMetadata c peOpen w t deep repair = (errs, w1)" by fastforce
  with verifyMetadata_evolves [OF this] assms True show ?thesis by (auto simp: verifyManifests_def)
next
  case False
  let ?mp = "tMountpoint t"
  let ?R = "repairStep (files w) ?mp"
  obtain r w1 where r: "inspectSums w ?mp = (r, w1)" by fastforce
  obtain errs w2 where m: "verifyMetadata c peOpen w1 t deep repair = (errs, w2)" by fastforce
  obtain x w3 where p: "verifyPayloadSum peOpen w2 t r (repair \<and> errs = []) = (x, w3)" by fastforce
  have w': "w' = w3" "res = map_option (\<lambda>(e, _). (errs, e)) x"
    using assms False by (simp_all add: verifyManifests_def r m p)
  have q: "quiet w w1" and absent: "\<not> payloadSumPresent r \<Longrightarrow> files w (?mp, PayloadSumFile) = None"
    using inspectSums_result [OF r] by auto
  have f: "files w1 = files w" using q by (simp add: quiet_def)
  have m1: "evolves ?R w1 w2" "\<not> repair \<or> files w (?mp, MetadataFile) \<noteq> None \<Longrightarrow> quiet w1 w2"
    using verifyMetadata_evolves [OF m] by (simp_all add: f)
  have only: "files w p = files w2 p \<or> p = (?mp, MetadataFile)" for p
    using verifyMetadata_frame [OF m] f by metis
  have p1: "evolves ?R w2 w3 \<and> (\<not> (repair \<and> errs = []) \<longrightarrow> quiet w2 w3)"
    by (rule verifyPayloadSum_evolves [OF p False absent only])
  have "evolves ?R w w3" using p1 m1(1) evolves.start [OF q] evolves_trans by blast
  then show ?thesis
    using p1 m1(2) q unfolding w' by (auto intro: quiet_trans)
qed


lemma verifyManifests_frame:
  assumes "trace w = []" "verifyManifests c peOpen w t deep repair = (res, w')" "f = files w' \<or> Now f \<in> set (trace w')"
  shows "f p \<noteq> files w p \<Longrightarrow> repair \<and> mayRepair (files w) (tMountpoint t) p"
    "checksumHolds (tMountpoint t) (files w) \<Longrightarrow> checksumHolds (tMountpoint t) f"
    "res = Some (metaErrs, errs) \<Longrightarrow> metaErrs \<noteq> [] \<Longrightarrow> files w (tMountpoint t, MetadataFile) \<noteq> None \<Longrightarrow> f = files w"
proof -
  let ?mp = "tMountpoint t"
  note v = verifyManifests_evolves [OF assms(2)]
  have same: "f = files w" if "quiet w w'" using that assms(1,3) by (auto simp: quiet_def)
  show "f = files w" if "res = Some (metaErrs, errs)" "metaErrs \<noteq> []" "files w (?mp, MetadataFile) \<noteq> None"
    using same v that by blast
  have inv: "I f" if "\<And>f g. I f \<Longrightarrow> repairStep (files w) ?mp f g \<Longrightarrow> I g" "I (files w)" for I
    using evolves_invariant [of "repairStep (files w) ?mp" w w' I] v that assms(1,3) by auto
  show "checksumHolds ?mp f" if "checksumHolds ?mp (files w)"
    by (rule inv [where I = "checksumHolds ?mp"]) (use repairStep_keeps(2) that in blast)+
  have "\<forall>q. f q \<noteq> files w q \<longrightarrow> mayRepair (files w) ?mp q"
    by (rule inv [where I = "\<lambda>f. \<forall>q. f q \<noteq> files w q \<longrightarrow> mayRepair (files w) ?mp q"]) (use repairStep_keeps(1) in blast)+
  then show "repair \<and> mayRepair (files w) ?mp p" if "f p \<noteq> files w p"
    using that same v by metis
qed


section \<open>What the integrity command changes\<close>

lemma WriteFile_frame: "p \<noteq> q \<Longrightarrow> files (snd (WriteFile w q b)) p = files w p"
  by (rule wf.wr_frame [of w q b "fst (WriteFile w q b)"]) simp_all

lemma snd_mapError [simp]: "snd (mapError g r) = snd r"
  by (simp add: mapError_def)

lemma WriteFile_twice_frame:
  assumes "p \<noteq> q" "p \<noteq> q'"
  shows "files (snd (thenDo (mapError g (WriteFile w q b)) (\<lambda>w. mapError h (WriteFile w q' b')))) p = files w p"
  by (simp add: thenDo_def mapError_def WriteFile_frame [OF assms(1)] WriteFile_frame [OF assms(2)] split: option.split)

lemma setIntegrityMode_frame:
  assumes "setIntegrityMode peOpen w t mode = (e, w')" "p \<noteq> (tMountpoint t, PayloadSumFile)" "p \<noteq> (tMountpoint t, BlkSumFile)"
  shows "files w' p = files w p"
proof -
  let ?mp = "tMountpoint t"
  obtain r w1 where r: "readFile w (?mp, PayloadSumFile) = (r, w1)" by fastforce
  obtain i w2 where i: "readInstalledKernelInitrd peOpen w1 t = (i, w2)" by fastforce
  have f: "files w1 p = files w p" "files w2 p = files w p"
    using readFile_quiet [OF r] readInstalled_quiet [OF i] by (simp_all add: quiet_def)
  note wr = WriteFile_frame [OF assms(2)] WriteFile_frame [OF assms(3)] and two = WriteFile_twice_frame [OF assms(3,2)]
  have w': "w' = snd (setIntegrityMode peOpen w t mode)" using assms(1) by simp
  show ?thesis
    unfolding w' setIntegrityMode_def Let_def r prod.case
    by (auto simp: i f wr two split: read_result.splits sum.splits)
qed

text \<open>The integrity command keeps what an existing CHECKSUM says about the files.\<close>

lemma setIntegrityMode_mode_only:
  assumes "setIntegrityMode peOpen w t mode = (None, w')" "files w (tMountpoint t, PayloadSumFile) = Some raw"
  shows "\<exists>m. Decode raw = Inr m \<and> files w' = (files w)((tMountpoint t, PayloadSumFile) \<mapsto> Encode (m\<lparr>Mode := mode\<rparr>))"
proof -
  let ?p = "(tMountpoint t, PayloadSumFile)"
  obtain r w1 where r: "readFile w ?p = (r, w1)" by fastforce
  have f: "files w1 = files w" using readFile_quiet [OF r] by (simp add: quiet_def)
  have "r = Content raw \<or> r = ReadError" using r assms(2) readFile_result [of w ?p] by (cases r) auto
  then have r': "r = Content raw" "ValidMode mode"
    using assms(1) by (auto simp: setIntegrityMode_def r Let_def split: if_splits)
  then obtain m where m: "Decode raw = Inr m" using assms(1) by (cases "Decode raw") (auto simp: setIntegrityMode_def r Let_def)
  then have "WriteFile w1 ?p (Encode (m\<lparr>Mode := mode\<rparr>)) = (None, w')"
    using assms(1) r' by (simp add: setIntegrityMode_def r Let_def mapError_simps)
  from wf.wr_ok [OF this] m f show ?thesis by simp
qed


section \<open>Properties\<close>

text \<open>A partition with a broken METADATA and no CHECKSUM.\<close>

definition repair_store :: world where
  "repair_store =
     \<lparr>files = Map.empty((''m'', KernelFile) \<mapsto> sample_kernel, (''m'', InitrdFile) \<mapsto> ''initrd'',
        (''m'', CmdlineFile) \<mapsto> ''quiet'', (''m'', MetadataFile) \<mapsto> ''x''), fsio = [], trace = []\<rparr>"

definition repair_target :: target where
  "repair_target = \<lparr>tUefi = False, tArch = ''x86_64'', tMountpoint = ''m''\<rparr>"

lemma repair_store_run:
  "\<exists>e. verifyManifests c peOpen repair_store repair_target deep True = (Some ([MetaUndecodable e], []), repair_store)"
proof -
  have "\<not> isOk (metaDecode ''x'')" by code_simp
  then obtain e where "metaDecode ''x'' = Inl e" by (cases "metaDecode ''x''") auto
  then show ?thesis
    by (auto simp: verifyManifests_def inspectSums_def inspectPayloadSum_def inspectBlkSum_def verifyMetadata_def
        tryReadMetadata_def verifyPayloadSum_def repair_store_def repair_target_def calm file_neq)
qed



end
