(* ===== verification/Bios_Update.thy ===== *)
theory Bios_Update
  imports Bios_Boot Verify_Repair
begin

text \<open>
  \<open>update\<close> of one disk and its partition, \<open>updateBIOSTarget\<close> of \<open>src/cmd/tool/main.go\<close>, composed from the stage
  pair writer of \<open>Bios_Boot\<close> and the payload writer of \<open>Payload_Writer\<close>, with the checks before them
  (\<open>ExtractStage2Version\<close>, \<open>CheckSectorSize\<close>) and the settings it keeps.  An abstract specification says
  what an update may do to the disk and the partition, and the lemmas show that every run whose
  rollbacks worked refines it, that nothing is written before all checks passed, and what a refused
  update leaves behind.

  The disk is a \<^typ>\<open>dev\<close>, the partitions a \<^typ>\<open>world\<close>; the operator's answer and the kernel's report of
  the sector size are arguments.
\<close>

section \<open>Checks of the disk\<close>

definition stage2VersionPrefix :: string where
  "stage2VersionPrefix = ''alpine-zfsboot by UniDoc, version ''"

datatype version_error = NoVersionString | NoBuildMarker | NotTerminated

definition ExtractStage2Version :: "bytes \<Rightarrow> version_error + string \<times> string" where
  "ExtractStage2Version stage2Data =
     (case indexOf stage2Data stage2VersionPrefix of
        None \<Rightarrow> Inl NoVersionString
      | Some idx \<Rightarrow>
          let rest = drop (idx + length stage2VersionPrefix) stage2Data;
              buildMarker = '', build=''
          in case indexOf rest buildMarker of
               None \<Rightarrow> Inl NoBuildMarker
             | Some buildIdx \<Rightarrow>
                 let afterBuild = drop (buildIdx + length buildMarker) rest
                 in case indexAny {NL, NUL} afterBuild of
                      None \<Rightarrow> Inl NotTerminated
                    | Some n \<Rightarrow> Inr (take buildIdx rest, take n afterBuild))"

text \<open>What the kernel says about the disk: it cannot be opened or examined, it is a plain file, or it is a
  device with the answer of the sector size call.\<close>

datatype disk_probe = ProbeFails | ProbeFile | ProbeDevice "int option"

definition logicalSectorSize :: "disk_probe \<Rightarrow> int option" where
  "logicalSectorSize p =
     (case p of ProbeFails \<Rightarrow> None | ProbeFile \<Rightarrow> Some (int SectorSize) | ProbeDevice r \<Rightarrow> r)"

definition CheckSectorSize :: "disk_probe \<Rightarrow> int option option" where
  "CheckSectorSize p =
     (case logicalSectorSize p of
        None \<Rightarrow> Some None
      | Some n \<Rightarrow> if n \<noteq> int SectorSize then Some (Some n) else None)"

datatype eligible_error = EligibleRead stage_error | EligibleVersion version_error

definition checkUpdateEligible :: "dev \<Rightarrow> eligible_error option \<times> dev" where
  "checkUpdateEligible d =
     (case ReadStage2 d of
        (Inl e, d) \<Rightarrow> (Some (EligibleRead e), d)
      | (Inr existing, d) \<Rightarrow>
          (case ExtractStage2Version existing of Inl e \<Rightarrow> Some (EligibleVersion e) | Inr _ \<Rightarrow> None, d))"


section \<open>The build and the settings\<close>

definition trimStage1Asset :: "bytes \<Rightarrow> nat + bytes" where
  "trimStage1Asset raw =
     (if length raw = Stage1Bytes then Inr raw
      else if length raw = SectorSize then Inr (take Stage1Bytes raw)
      else Inl (length raw))"

record biosAssets =
  aStage1 :: bytes
  aStage2 :: bytes
  aKernel :: bytes
  aInitrd :: bytes
  aCmdline :: bytes

datatype asset_error = AssetResolve | AssetRead nat | AssetStage1 nat | AssetStage2 nat

text \<open>The resolver downloads or copies the five files (stage1, stage2, kernel, initrd, command line): its
  failure, or what reading each of them gives.\<close>

definition readAsset :: "nat \<Rightarrow> bytes option \<Rightarrow> asset_error + bytes" where
  "readAsset i r = (case r of None \<Rightarrow> Inl (AssetRead i) | Some b \<Rightarrow> Inr b)"

definition loadBIOSAssets ::
    "(bytes option \<times> bytes option \<times> bytes option \<times> bytes option \<times> bytes option) option \<Rightarrow> asset_error + biosAssets" where
  "loadBIOSAssets resolved =
     (case resolved of
        None \<Rightarrow> Inl AssetResolve
      | Some (r1, r2, r3, r4, r5) \<Rightarrow>
          bindE (readAsset 0 r1) (\<lambda>stage1.
          bindE (readAsset 1 r2) (\<lambda>stage2.
          bindE (readAsset 2 r3) (\<lambda>kern.
          bindE (readAsset 3 r4) (\<lambda>initrd.
          bindE (readAsset 4 r5) (\<lambda>cmdline.
          bindE (mapErr AssetStage1 (trimStage1Asset stage1)) (\<lambda>stage1.
          if length stage2 > Stage2Bytes then Inl (AssetStage2 (length stage2))
          else Inr \<lparr>aStage1 = stage1, aStage2 = stage2, aKernel = kern, aInitrd = initrd, aCmdline = cmdline\<rparr>)))))))"

record biosOpts =
  optForce :: bool
  optIntegrity :: string
  optIntegritySet :: bool
  optInt13chunk :: string

fun goStrLE :: "string \<Rightarrow> string \<Rightarrow> bool" where
  "goStrLE [] ys = True"
| "goStrLE (x # xs) [] = False"
| "goStrLE (x # xs) (y # ys) = ((of_char x :: nat) < of_char y \<or> x = y \<and> goStrLE xs ys)"

definition checkBIOSUpToDate :: "world \<Rightarrow> string \<Rightarrow> string \<Rightarrow> (string \<times> bool) \<times> world" where
  "checkBIOSUpToDate w mp newBuildStamp =
     (case readFile w (mp, CmdlineFile) of
        (Content installed, w) \<Rightarrow>
          (let stamp = iBuildStamp (ParseText installed) in
           if stamp = '''' then (('''', False), w) else ((stamp, goStrLE newBuildStamp stamp), w))
      | (_, w) \<Rightarrow> (('''', False), w))"

definition applyInt13Chunk :: "world \<Rightarrow> bytes \<Rightarrow> string \<Rightarrow> biosOpts \<Rightarrow> (string + bytes) \<times> world" where
  "applyInt13Chunk w cmdlineTxt mp opts =
     (if optInt13chunk opts \<noteq> '''' then
        (case parseInt13Chunk (optInt13chunk opts) of
           Inl e \<Rightarrow> (Inl e, w)
         | Inr v \<Rightarrow> (Inr (setCmdlineInt13Chunk cmdlineTxt v), w))
      else if mp \<noteq> '''' then
        (case installedInt13Chunk w mp of
           (v, w) \<Rightarrow> (Inr (if v \<noteq> '''' then setCmdlineInt13Chunk cmdlineTxt v else cmdlineTxt), w))
      else (Inr cmdlineTxt, w))"

definition updateIntegrityMode :: "world \<Rightarrow> string \<Rightarrow> biosOpts \<Rightarrow> string \<times> world" where
  "updateIntegrityMode w mp opts =
     (if optIntegritySet opts then (optIntegrity opts, w)
      else
        (case readFile w (mp, PayloadSumFile) of
           (Content raw, w) \<Rightarrow> (case Decode raw of Inl _ \<Rightarrow> ModeWarn | Inr m \<Rightarrow> Mode m, w)
         | (_, w) \<Rightarrow> (ModeWarn, w)))"

text \<open>\<open>cmdlineEditor\<close>: the words of one partition of a mirror.  \<open>src\<close> is the mountpoint of another member the
  settings are copied from; a file that cannot be read counts as empty.\<close>

definition readOrEmpty :: "world \<Rightarrow> path \<Rightarrow> bytes \<times> world" where
  "readOrEmpty w p = (case readFile w p of (Content b, w) \<Rightarrow> (b, w) | (_, w) \<Rightarrow> ([], w))"

definition editorBase :: "string \<Rightarrow> string option \<Rightarrow> biosOpts \<Rightarrow> world \<Rightarrow> bytes \<Rightarrow> (bytes \<times> bytes) \<times> world" where
  "editorBase mp src opts w c =
     (case readOrEmpty w (mp, CmdlineFile) of
        (installed, w) \<Rightarrow>
          (case (if installed = [] then src else None) of
             None \<Rightarrow> ((installed, c), w)
           | Some other \<Rightarrow>
               (case readOrEmpty w (other, CmdlineFile) of
                  (base, w) \<Rightarrow>
                    let v = cmdlineValue base Int13ChunkKey in
                    ((base, if optInt13chunk opts = '''' \<and> v \<noteq> '''' then setCmdlineWord c Int13ChunkKey v else c), w))))"

definition cmdlineEditor ::
    "string list option \<Rightarrow> string \<Rightarrow> string \<Rightarrow> string option \<Rightarrow> biosOpts \<Rightarrow> world \<Rightarrow> bytes \<Rightarrow> (nat + bytes) \<times> world" where
  "cmdlineEditor explicitList mp uuid src opts w c =
     (case editorBase mp src opts w c of
        ((base, c), w) \<Rightarrow>
          let uuids = (case explicitList of Some l \<Rightarrow> join_with '','' l | None \<Rightarrow> cmdlineValue base ESPUUIDsKey);
              c = setCmdlineWord (setCmdlineWord c ESPUUIDsKey uuids) ESPSelfKey uuid
          in (case checkCmdlineLength c of Some n \<Rightarrow> Inl n | None \<Rightarrow> Inr c, w))"

record memberOpts =
  seed :: bool
  editCmdline :: "(world \<Rightarrow> bytes \<Rightarrow> (nat + bytes) \<times> world) option"
  integrityFrom :: string


section \<open>The update\<close>

datatype update_error =
    UpdSector "int option"
  | UpdGate gate_error
  | UpdEligible eligible_error
  | UpdMode mode_error
  | UpdChunkValue string
  | UpdChunk chunk_error
  | UpdPreflight payload_error
  | UpdStagePair stage2_error
  | UpdIntegrity string
  | UpdInt13 string
  | UpdCmdline nat
  | UpdStages pair_error
  | UpdPayload payload_error

definition updateDiskChecks :: "disk_probe \<Rightarrow> dev \<Rightarrow> bool \<Rightarrow> update_error option \<times> dev" where
  "updateDiskChecks probe d seeded =
     (case CheckSectorSize probe of
        Some n \<Rightarrow> (Some (UpdSector n), d)
      | None \<Rightarrow>
          (case gate d of
             (Inl e, d) \<Rightarrow> (Some (UpdGate e), d)
           | (Inr _, d) \<Rightarrow>
               if seeded then (None, d)
               else (case checkUpdateEligible d of (e, d) \<Rightarrow> (map_option UpdEligible e, d))))"

text \<open>The build is not newer: only settings that were asked for are changed.\<close>

definition updateSettings :: "pe_open \<Rightarrow> world \<Rightarrow> target \<Rightarrow> biosOpts \<Rightarrow> update_error option \<times> world" where
  "updateSettings peOpen w t opts =
     (case (if optIntegritySet opts then setIntegrityMode peOpen w t (optIntegrity opts) else (None, w)) of
        (Some e, w) \<Rightarrow> (Some (UpdMode e), w)
      | (None, w) \<Rightarrow>
          if optInt13chunk opts = '''' then (None, w)
          else
            (case parseInt13Chunk (optInt13chunk opts) of
               Inl e \<Rightarrow> (Some (UpdChunkValue e), w)
             | Inr v \<Rightarrow>
                 (case setInt13Chunk w (tMountpoint t) v of
                    (Some e, w) \<Rightarrow> (Some (UpdChunk e), w)
                  | (None, w) \<Rightarrow> (None, snd (readFile w (tMountpoint t, CmdlineFile))))))"

definition editedCmdline :: "memberOpts \<Rightarrow> world \<Rightarrow> bytes \<Rightarrow> (update_error + bytes) \<times> world" where
  "editedCmdline mo w c =
     (case editCmdline mo of
        None \<Rightarrow> (Inr c, w)
      | Some edit \<Rightarrow> (case edit w c of (r, w) \<Rightarrow> (mapErr UpdCmdline r, w)))"

text \<open>The checks of the build; the command line to write.\<close>

definition updatePreflight ::
    "codecs \<Rightarrow> world \<Rightarrow> target \<Rightarrow> biosAssets \<Rightarrow> biosOpts \<Rightarrow> memberOpts \<Rightarrow> (update_error + bytes) \<times> world" where
  "updatePreflight c w t a opts mo =
     (let info = ParseText (aCmdline a) in
      case preflightBIOSMetadata c (tArch t) (iVersion info) (iBuildStamp info) (aKernel a) (aInitrd a) of
        Some e \<Rightarrow> (Inl (UpdPreflight e), w)
      | None \<Rightarrow>
          (case checkStagePair (aStage2 a) (optForce opts) of
             Some e \<Rightarrow> (Inl (UpdStagePair e), w)
           | None \<Rightarrow>
               if \<not> ValidMode (optIntegrity opts) then (Inl (UpdIntegrity (optIntegrity opts)), w)
               else
                 (case applyInt13Chunk w (aCmdline a) (tMountpoint t) opts of
                    (Inl e, w) \<Rightarrow> (Inl (UpdInt13 e), w)
                  | (Inr cmdlineTxt, w) \<Rightarrow> editedCmdline mo w cmdlineTxt)))"

definition updateWrite ::
    "codecs \<Rightarrow> dev \<Rightarrow> world \<Rightarrow> target \<Rightarrow> biosAssets \<Rightarrow> bytes \<Rightarrow> biosOpts \<Rightarrow> memberOpts \<Rightarrow>
     (bool \<times> update_error option \<times> rollback_event list) \<times> dev \<times> world" where
  "updateWrite c d w t a cmdlineTxt opts mo =
     (case writeBIOSStagesWithRollback d (aStage1 a) (aStage2 a) of
        ((Some e, ev), d) \<Rightarrow> ((False, Some (UpdStages e), ev), d, w)
      | ((None, ev), d) \<Rightarrow>
          (case updateIntegrityMode w (if integrityFrom mo \<noteq> '''' then integrityFrom mo else tMountpoint t) opts of
             (mode, w) \<Rightarrow>
               let info = ParseText (aCmdline a) in
               (case writePayloadWithRollback c w (tMountpoint t) (tArch t) (iVersion info) (iBuildStamp info)
                       (aKernel a) (aInitrd a) cmdlineTxt mode of
                  (e, w) \<Rightarrow> ((True, map_option UpdPayload e, ev), d, w))))"

definition updateBIOSTarget ::
    "codecs \<Rightarrow> pe_open \<Rightarrow> disk_probe \<Rightarrow> dev \<Rightarrow> world \<Rightarrow> target \<Rightarrow> biosAssets \<Rightarrow> bool \<Rightarrow> bool \<Rightarrow> biosOpts \<Rightarrow> memberOpts \<Rightarrow>
     (bool \<times> update_error option \<times> rollback_event list) \<times> dev \<times> world" where
  "updateBIOSTarget c peOpen probe d w t a yes confirmed opts mo =
     (case updateDiskChecks probe d (seed mo) of
        (Some e, d) \<Rightarrow> ((False, Some e, []), d, w)
      | (None, d) \<Rightarrow>
          (case checkBIOSUpToDate w (tMountpoint t) (iBuildStamp (ParseText (aCmdline a))) of
             ((_, upToDate), w) \<Rightarrow>
               if upToDate \<and> \<not> seed mo then
                 (case updateSettings peOpen w t opts of (e, w) \<Rightarrow> ((False, e, []), d, w))
               else
                 (case updatePreflight c w t a opts mo of
                    (Inl e, w) \<Rightarrow> ((False, Some e, []), d, w)
                  | (Inr cmdlineTxt, w) \<Rightarrow>
                      if \<not> yes \<and> \<not> confirmed then ((False, None, []), d, w)
                      else updateWrite c d w t a cmdlineTxt opts mo)))"


section \<open>The checks write nothing\<close>

lemma gate_accepts:
  assumes "gate d = (Inr x, d')"
  shows "CheckStage2ExtentFree (Some (file_reader (content d))) = Inr ()"
proof -
  obtain ok d1 where o: "io_call d = (ok, d1)" by fastforce
  have "CheckStage2ExtentFree None \<noteq> Inr y" for y
    by (simp add: CheckStage2ExtentFree_def ReadGPTHeader_def)
  then have ok using assms by (cases ok) (auto simp: gate_def o)
  then show ?thesis using assms io_callD [OF o] by (simp add: gate_def o)
qed

definition recognized :: "bytes \<Rightarrow> bool" where
  "recognized c = isOk (ExtractStage2Version (trimZeros (region stage2Offset Stage2Bytes c)))"

lemma checkUpdateEligible_result:
  assumes "checkUpdateEligible d = (e, d')"
  shows "content d' = content d \<and> history d' = history d \<and> (e = None \<longrightarrow> recognized (content d))"
proof -
  obtain r d1 where r: "readRegion d stage2Offset Stage2Bytes = (r, d1)" by fastforce
  then show ?thesis
    using assms readRegionD [OF r]
    by (auto simp: checkUpdateEligible_def ReadStage2_def recognized_def split: sum.splits)
qed

lemma updateDiskChecks_result:
  assumes "updateDiskChecks probe d seeded = (e, d')"
  shows "content d' = content d \<and> history d' = history d \<and>
    (e = None \<longrightarrow> CheckSectorSize probe = None \<and> CheckStage2ExtentFree (Some (file_reader (content d))) = Inr () \<and>
       (seeded \<or> recognized (content d)))"
proof (cases "CheckSectorSize probe")
  case None
  obtain g d1 where g: "gate d = (g, d1)" by fastforce
  obtain r d2 where r: "checkUpdateEligible d1 = (r, d2)" by fastforce
  note gateD [OF g] checkUpdateEligible_result [OF r] gate_accepts [of d _ d1]
  then show ?thesis using assms None by (auto simp: updateDiskChecks_def g r split: sum.splits if_splits)
qed (use assms in \<open>auto simp: updateDiskChecks_def\<close>)

lemma readOrEmpty_quiet: "readOrEmpty w p = (b, w') \<Longrightarrow> quiet w w'"
  by (auto simp: readOrEmpty_def split: prod.splits read_result.splits dest: readFile_quiet)

text \<open>An editor that only reads.\<close>

definition readsOnly :: "memberOpts \<Rightarrow> bool" where
  "readsOnly mo \<longleftrightarrow> (\<forall>edit w c r w'. editCmdline mo = Some edit \<longrightarrow> edit w c = (r, w') \<longrightarrow> quiet w w')"

lemma cmdlineEditor_readsOnly:
  "readsOnly \<lparr>seed = s, editCmdline = Some (cmdlineEditor explicitList mp uuid src opts), integrityFrom = i\<rparr>"
  by (auto simp: readsOnly_def cmdlineEditor_def editorBase_def Let_def split: prod.splits option.splits if_splits
      dest!: readOrEmpty_quiet intro: quiet_trans)

lemma no_editor_readsOnly [simp]: "editCmdline mo = None \<Longrightarrow> readsOnly mo"
  by (simp add: readsOnly_def)

definition notNewer :: "files \<Rightarrow> string \<Rightarrow> biosAssets \<Rightarrow> bool" where
  "notNewer f mp a =
     (case f (mp, CmdlineFile) of
        None \<Rightarrow> False
      | Some b \<Rightarrow>
          let stamp = iBuildStamp (ParseText b) in stamp \<noteq> '''' \<and> goStrLE (iBuildStamp (ParseText (aCmdline a))) stamp)"

lemma checkBIOSUpToDate_result:
  assumes "checkBIOSUpToDate w mp (iBuildStamp (ParseText (aCmdline a))) = ((s, upToDate), w')"
  shows "quiet w w' \<and> (upToDate \<longrightarrow> notNewer (files w) mp a) \<and> (fsio w = [] \<longrightarrow> upToDate = notNewer (files w) mp a)"
proof -
  obtain r w1 where r: "readFile w (mp, CmdlineFile) = (r, w1)" by fastforce
  have c: "fsio w = [] \<Longrightarrow> r = (case files w (mp, CmdlineFile) of None \<Rightarrow> NotExist | Some b \<Rightarrow> Content b)"
    using r by (auto simp: calm)
  note q = readFile_quiet [OF r] and res = r readFile_result [of w "(mp, CmdlineFile)"]
  show ?thesis
  proof (cases r)
    case (Content b)
    then have "files w (mp, CmdlineFile) = Some b" using res by simp
    then show ?thesis
      using assms q r Content by (auto simp: checkBIOSUpToDate_def notNewer_def Let_def split: if_splits)
  next
    case NotExist
    then have "files w (mp, CmdlineFile) = None" using res by simp
    then show ?thesis using assms q r NotExist by (simp add: checkBIOSUpToDate_def notNewer_def)
  next
    case ReadError
    then have "fsio w \<noteq> []" using c by (auto split: option.splits)
    then show ?thesis using assms q r ReadError by (simp add: checkBIOSUpToDate_def)
  qed
qed

lemma applyInt13Chunk_quiet: "applyInt13Chunk w c mp opts = (r, w') \<Longrightarrow> quiet w w'"
  by (auto simp: applyInt13Chunk_def installedInt13Chunk_def split: if_splits sum.splits prod.splits read_result.splits bool.splits
      dest: readFile_quiet)

lemma updateIntegrityMode_quiet: "updateIntegrityMode w mp opts = (r, w') \<Longrightarrow> quiet w w'"
  by (auto simp: updateIntegrityMode_def split: if_splits prod.splits read_result.splits dest: readFile_quiet)

text \<open>The command line an update writes: the build's, with the chunk setting and the editor's words.\<close>

definition cmdlineFrom :: "memberOpts \<Rightarrow> files \<Rightarrow> biosAssets \<Rightarrow> bytes \<Rightarrow> bool" where
  "cmdlineFrom mo f a cmd \<longleftrightarrow>
     (\<exists>base. (base = aCmdline a \<or> (\<exists>v. base = setCmdlineInt13Chunk (aCmdline a) v)) \<and>
        (case editCmdline mo of
           None \<Rightarrow> cmd = base
         | Some edit \<Rightarrow> \<exists>w w'. files w = f \<and> edit w base = (Inr cmd, w')))"

definition buildChecked :: "codecs \<Rightarrow> target \<Rightarrow> biosAssets \<Rightarrow> biosOpts \<Rightarrow> bool" where
  "buildChecked c t a opts \<longleftrightarrow>
     (let info = ParseText (aCmdline a) in
      preflightBIOSMetadata c (tArch t) (iVersion info) (iBuildStamp info) (aKernel a) (aInitrd a) = None) \<and>
     (CheckStage2 (aStage2 a) = None \<or> optForce opts) \<and> ValidMode (optIntegrity opts)"

lemma applyInt13Chunk_base:
  "applyInt13Chunk w c mp opts = (Inr b, w') \<Longrightarrow> b = c \<or> (\<exists>v. b = setCmdlineInt13Chunk c v)"
  by (auto simp: applyInt13Chunk_def split: if_splits sum.splits prod.splits)

lemma updatePreflight_result:
  assumes "updatePreflight c w t a opts mo = (r, w')" "readsOnly mo"
  shows "quiet w w' \<and> (\<forall>cmd. r = Inr cmd \<longrightarrow> buildChecked c t a opts \<and> cmdlineFrom mo (files w) a cmd)"
proof -
  obtain b w1 where b: "applyInt13Chunk w (aCmdline a) (tMountpoint t) opts = (b, w1)" by fastforce
  note q = applyInt13Chunk_quiet [OF b]
  have ed: "quiet w1 w2 \<and> (\<forall>cmd. x = Inr cmd \<longrightarrow> cmdlineFrom mo (files w) a cmd)"
    if "b = Inr base" "editedCmdline mo w1 base = (x, w2)" for base x w2
  proof -
    have base: "base = aCmdline a \<or> (\<exists>v. base = setCmdlineInt13Chunk (aCmdline a) v)"
      using applyInt13Chunk_base b that(1) by blast
    have f: "files w1 = files w" using q by (simp add: quiet_def)
    show ?thesis
    proof (cases "editCmdline mo")
      case None
      then show ?thesis using that(2) base by (auto simp: editedCmdline_def cmdlineFrom_def)
    next
      case (Some edit)
      obtain y z where e: "edit w1 base = (y, z)" by fastforce
      then have z: "w2 = z" "x = mapErr UpdCmdline y" using that(2) Some by (simp_all add: editedCmdline_def)
      have "quiet w1 w2" using assms(2) Some e z by (simp add: readsOnly_def)
      moreover have "cmdlineFrom mo (files w) a cmd" if "x = Inr cmd" for cmd
      proof -
        have "edit w1 base = (Inr cmd, z)" using that z(2) e by (cases y) (simp_all add: mapErr_def)
        then have "\<exists>v v'. files v = files w \<and> edit v base = (Inr cmd, v')" using f by blast
        then show ?thesis using base unfolding cmdlineFrom_def Some option.case by blast
      qed
      ultimately show ?thesis by blast
    qed
  qed
  have ok: "buildChecked c t a opts" if "r = Inr cmd" for cmd
    using assms(1) unfolding that updatePreflight_def buildChecked_def checkStagePair_def Let_def
    by (simp split: option.splits if_splits)
  show ?thesis
  proof (cases "\<exists>base. b = Inr base \<and> editedCmdline mo w1 base = (r, w')")
    case True
    then obtain base where "b = Inr base" "editedCmdline mo w1 base = (r, w')" by blast
    from ed [OF this] q ok show ?thesis by (blast intro: quiet_trans)
  next
    case False
    then have "(w' = w \<or> w' = w1) \<and> (\<forall>cmd. r \<noteq> Inr cmd)"
      using assms(1) unfolding updatePreflight_def Let_def b by (auto split: option.splits if_splits sum.splits)
    then show ?thesis using q by auto
  qed
qed


section \<open>What an update may do\<close>

lemma overwrite_eq:
  assumes "same_outside off n c c'" "region off n c' = b" "length b = n" "off + n \<le> length c"
  shows "c' = overwrite c off b"
proof (rule region_outside_eq)
  have f: "same_outside off n c (overwrite c off b)" using assms(3,4) by (intro overwrite_frame) simp_all
  show "same_outside off n c' (overwrite c off b)" using assms(1) f by (simp add: same_outside_def)
  show "region off n c' = region off n (overwrite c off b)" using assms overwrite_region [of off b c] by simp
qed

definition newStages :: "bytes \<Rightarrow> biosAssets \<Rightarrow> bytes" where
  "newStages c a = overwrite (overwrite c stage2Offset (stage2_region (aStage2 a))) 0 (aStage1 a)"

text \<open>A pair writer that reports success has written exactly the pair, whatever failed in between.\<close>

lemma pair_written_exactly:
  assumes "writeBIOSStagesWithRollback d (aStage1 a) (aStage2 a) = ((None, ev), d')"
  shows "content d' = newStages (content d) a \<and> ev = []"
  using assms
proof (cases rule: writeBIOSStages_cases)
  case (ok p2 d1 d2 p1 d3)
  note v = VerifyStage2D [OF ok(2)] VerifyStage1D [OF ok(4)]
  have 1: "content d1 = overwrite (content d) stage2Offset (stage2_region (aStage2 a))"
    using ok(1) by (cases rule: WriteStage2_cases) (simp_all add: overwrite_eq length_stage2_region)
  have 2: "content d3 = overwrite (content d2) 0 (aStage1 a)"
    using ok(3) by (cases rule: WriteStage1_cases) (simp_all add: overwrite_eq)
  show ?thesis using 1 2 v ok(6) by (simp add: newStages_def)
qed simp_all

text \<open>
  The specification, on the content of the disk and the files: the flags say whether the update reports
  a write and whether it reports an error.  A disk is left alone, or gets exactly the new pair; the
  partition is left alone, or gets exactly the new generation, never without the pair; settings are
  changed only when the installed build is not older.
\<close>

definition settingFiles :: "string \<Rightarrow> path set" where
  "settingFiles mp = {(mp, PayloadSumFile), (mp, BlkSumFile), (mp, CmdlineFile)}"

inductive updated :: "codecs \<Rightarrow> target \<Rightarrow> biosAssets \<Rightarrow> memberOpts \<Rightarrow> bytes \<times> files \<Rightarrow> bool \<Rightarrow> bool \<Rightarrow> bytes \<times> files \<Rightarrow> bool"
  for c t a mo where
  left_alone: "updated c t a mo s False failed s"
| settings: "notNewer f (tMountpoint t) a \<Longrightarrow> \<not> seed mo \<Longrightarrow> (\<And>p. p \<notin> settingFiles (tMountpoint t) \<Longrightarrow> g p = f p) \<Longrightarrow>
    updated c t a mo (b, f) False failed (b, g)"
| stages_only: "updated c t a mo (b, f) True True (newStages b a, f)"
| whole: "cmdlineFrom mo f a cmd \<Longrightarrow>
    metadataBytes c (tArch t) (iVersion (ParseText (aCmdline a))) (iBuildStamp (ParseText (aCmdline a))) (aKernel a) (aInitrd a) = Inr enc \<Longrightarrow>
    payloadSums (tArch t) (aKernel a) (aInitrd a) mode = Inr (ps, bs) \<Longrightarrow>
    updated c t a mo (b, f) True False
      (newStages b a, newGeneration f (tMountpoint t) (aKernel a) (aInitrd a) cmd enc ps bs)"

lemma setInt13Chunk_frame:
  assumes "setInt13Chunk w mp v = (e, w')" "p \<noteq> (mp, CmdlineFile)"
  shows "files w' p = files w p"
proof -
  obtain r w1 where r: "readFile w (mp, CmdlineFile) = (r, w1)" by fastforce
  show ?thesis
    using assms(1) readFile_quiet [OF r] WriteFile_frame [OF assms(2)]
    by (cases r) (auto simp: setInt13Chunk_def r Let_def mapError_def quiet_def split: if_splits option.splits)
qed

lemma updateSettings_frame:
  assumes "updateSettings peOpen w t opts = (e, w')" "p \<notin> settingFiles (tMountpoint t)"
  shows "files w' p = files w p"
proof -
  have neq: "p \<noteq> (tMountpoint t, CmdlineFile)" "p \<noteq> (tMountpoint t, PayloadSumFile)" "p \<noteq> (tMountpoint t, BlkSumFile)"
    using assms(2) by (auto simp: settingFiles_def)
  obtain m w1 where m: "(if optIntegritySet opts then setIntegrityMode peOpen w t (optIntegrity opts) else (None, w)) = (m, w1)"
    by fastforce
  have 1: "files w1 p = files w p" using m setIntegrityMode_frame [OF _ neq(2,3)] by (auto split: if_splits)
  have 2: "files (snd (readFile x q)) p = files x p" for x q
    using readFile_quiet [of x q] by (cases "readFile x q") (simp add: quiet_def)
  obtain k w2 where k: "parseInt13Chunk (optInt13chunk opts) = Inr v \<Longrightarrow> setInt13Chunk w1 (tMountpoint t) v = (k, w2)" for v
    by (cases "parseInt13Chunk (optInt13chunk opts)") fastforce+
  show ?thesis
    using assms(1) 1 2 k setInt13Chunk_frame [OF _ neq(1)]
    by (auto simp: updateSettings_def m split: option.splits if_splits sum.splits)
qed

lemma updateWrite_refines:
  assumes "updateWrite c d w t a cmd opts mo = ((wrote, err, ev), d', w')" "trace w = []" "cmdlineFrom mo (files w) a cmd"
    and "\<not> Bios_Boot.critical ev" "\<not> Esp_Store.critical w'"
  shows "updated c t a mo (content d, files w) wrote (err \<noteq> None) (content d', files w')"
proof -
  let ?i = "ParseText (aCmdline a)"
  obtain e1 ev1 d1 where s: "writeBIOSStagesWithRollback d (aStage1 a) (aStage2 a) = ((e1, ev1), d1)" by (metis prod.exhaust)
  show ?thesis
  proof (cases e1)
    case (Some x)
    then have r: "wrote = False" "ev = ev1" "d' = d1" "w' = w" using assms(1) s by (simp_all add: updateWrite_def)
    have "content d1 = content d" using pair_failure_restores [of d _ _ x ev1 d1] s Some assms(4) r by simp
    then show ?thesis using r updated.left_alone by simp
  next
    case None
    obtain mode w1 where m: "updateIntegrityMode w (if integrityFrom mo \<noteq> '''' then integrityFrom mo else tMountpoint t) opts = (mode, w1)"
      by fastforce
    obtain e w2 where p: "writePayloadWithRollback c w1 (tMountpoint t) (tArch t) (iVersion ?i) (iBuildStamp ?i) (aKernel a) (aInitrd a)
        cmd mode = (e, w2)" by fastforce
    have r: "wrote" "err = map_option UpdPayload e" "d' = d1" "w' = w2"
      using assms(1) s None p by (auto simp: updateWrite_def m Let_def)
    have f: "files w1 = files w" "trace w1 = []" using updateIntegrityMode_quiet [OF m] assms(2) by (simp_all add: quiet_def)
    have c: "content d1 = newStages (content d) a" using pair_written_exactly [of d a ev1 d1] s None by simp
    show ?thesis
    proof (cases e)
      case None
      then obtain enc ps bs where g: "metadataBytes c (tArch t) (iVersion ?i) (iBuildStamp ?i) (aKernel a) (aInitrd a) = Inr enc"
        "payloadSums (tArch t) (aKernel a) (aInitrd a) mode = Inr (ps, bs)"
        "files w2 = newGeneration (files w) (tMountpoint t) (aKernel a) (aInitrd a) cmd enc ps bs"
        using writer_atomic [OF f(2) p] f(1) by auto
      show ?thesis using r None c g(3) updated.whole [OF assms(3) g(1,2)] by simp
    next
      case (Some x)
      then have "files w2 = files w" using writer_atomic [OF f(2) p] assms(5) f(1) r by simp
      then show ?thesis using r Some c updated.stages_only by simp
    qed
  qed
qed

lemma updateBIOSTarget_cases:
  assumes "updateBIOSTarget c peOpen probe d w t a yes confirmed opts mo = (res, d', w')" "readsOnly mo"
  obtains
    (refused) e where "res = (False, Some e, [])" "content d' = content d" "history d' = history d" "quiet w w'"
  | (declined) "res = (False, None, [])" "content d' = content d" "history d' = history d" "quiet w w'"
  | (kept) e w1 where "res = (False, e, [])" "content d' = content d" "history d' = history d" "quiet w w1"
      "updateSettings peOpen w1 t opts = (e, w')" "notNewer (files w) (tMountpoint t) a" "\<not> seed mo"
  | (written) d1 w1 cmd where "updateWrite c d1 w1 t a cmd opts mo = (res, d', w')" "content d1 = content d" "history d1 = history d"
      "quiet w w1" "cmdlineFrom mo (files w) a cmd" "buildChecked c t a opts" "yes \<or> confirmed"
      "CheckSectorSize probe = None" "CheckStage2ExtentFree (Some (file_reader (content d))) = Inr ()"
      "seed mo \<or> recognized (content d)" "fsio w = [] \<Longrightarrow> seed mo \<or> \<not> notNewer (files w) (tMountpoint t) a"
proof -
  obtain e d1 where 1: "updateDiskChecks probe d (seed mo) = (e, d1)" by fastforce
  note c1 = updateDiskChecks_result [OF 1]
  obtain s up w1 where 2: "checkBIOSUpToDate w (tMountpoint t) (iBuildStamp (ParseText (aCmdline a))) = ((s, up), w1)"
    by (metis prod.exhaust)
  note c2 = checkBIOSUpToDate_result [OF 2]
  obtain r w2 where 3: "updatePreflight c w1 t a opts mo = (r, w2)" by fastforce
  note c3 = updatePreflight_result [OF 3 assms(2)]
  have f: "files w1 = files w" using c2 by (simp add: quiet_def)
  have q: "quiet w w2" using c2 c3 by (blast intro: quiet_trans)
  note eq = assms(1) [unfolded updateBIOSTarget_def 1 prod.case 2 3]
  show ?thesis
  proof (cases e)
    case (Some x)
    then show ?thesis using eq c1 refused by auto
  next
    case e: None
    show ?thesis
    proof (cases "up \<and> \<not> seed mo")
      case True
      obtain y z where y: "updateSettings peOpen w1 t opts = (y, z)" by fastforce
      then show ?thesis using eq c1 c2 e True kept [of y w1] by simp
    next
      case up: False
      show ?thesis
      proof (cases r)
        case (Inl x)
        then show ?thesis using eq c1 e up q refused [of x] by simp
      next
        case (Inr cmd)
        show ?thesis
        proof (cases "yes \<or> confirmed")
          case False
          then show ?thesis using eq c1 e up q Inr declined by simp
        next
          case True
          then have "updateWrite c d1 w2 t a cmd opts mo = (res, d', w')" using eq e up Inr by auto
          then show ?thesis
            by (rule written) (use c1 c2 c3 e up q Inr f True in auto)
        qed
      qed
    qed
  qed
qed


text \<open>Errors of the checks, as opposed to failures of a write.\<close>

definition isRefusal :: "update_error \<Rightarrow> bool" where
  "isRefusal e =
     (case e of UpdMode _ \<Rightarrow> False | UpdChunkValue _ \<Rightarrow> False | UpdChunk _ \<Rightarrow> False | UpdStages _ \<Rightarrow> False | UpdPayload _ \<Rightarrow> False | _ \<Rightarrow> True)"

lemma updateSettings_not_refusal: "updateSettings peOpen w t opts = (Some e, w') \<Longrightarrow> \<not> isRefusal e"
  by (auto simp: updateSettings_def isRefusal_def split: prod.splits option.splits if_splits sum.splits)

lemma updateWrite_not_refusal: "updateWrite c d w t a cmd opts mo = ((wrote, Some e, ev), d', w') \<Longrightarrow> \<not> isRefusal e"
  by (auto simp: updateWrite_def isRefusal_def Let_def split: prod.splits option.splits)

lemma update_refinement:
  assumes "updateBIOSTarget c peOpen probe d w t a yes confirmed opts mo = ((wrote, err, ev), d', w')" "readsOnly mo" "trace w = []"
    and "\<not> Bios_Boot.critical ev" "\<not> Esp_Store.critical w'"
  shows "updated c t a mo (content d, files w) wrote (err \<noteq> None) (content d', files w')"
  using assms(1,2)
proof (cases rule: updateBIOSTarget_cases)
  case (refused e)
  then show ?thesis using updated.left_alone by (simp add: quiet_def)
next
  case declined
  then show ?thesis using updated.left_alone by (simp add: quiet_def)
next
  case (kept e w1)
  have "files w' p = files w p" if "p \<notin> settingFiles (tMountpoint t)" for p
    using updateSettings_frame [OF kept(5) that] kept(4) by (simp add: quiet_def)
  then have "updated c t a mo (content d, files w) False (err \<noteq> None) (content d, files w')"
    by (intro updated.settings kept(6,7))
  then show ?thesis using kept by simp
next
  case (written d1 w1 cmd)
  have "files w1 = files w" "trace w1 = []" using written(4) assms(3) by (simp_all add: quiet_def)
  then show ?thesis
    using updateWrite_refines [OF written(1) _ _ assms(4,5)] written(2,5) by simp
qed

lemma update_checks_first:
  assumes "updateBIOSTarget c peOpen probe d w t a yes confirmed opts mo = ((wrote, err, ev), d', w')" "readsOnly mo"
  shows "history d' \<noteq> history d \<or> wrote \<Longrightarrow>
      CheckSectorSize probe = None \<and> CheckStage2ExtentFree (Some (file_reader (content d))) = Inr () \<and>
      (seed mo \<or> recognized (content d)) \<and> buildChecked c t a opts \<and> (yes \<or> confirmed) \<and>
      (fsio w = [] \<longrightarrow> seed mo \<or> \<not> notNewer (files w) (tMountpoint t) a)"
    "err = Some e \<Longrightarrow> isRefusal e \<Longrightarrow>
      content d' = content d \<and> history d' = history d \<and> files w' = files w \<and> trace w' = trace w"
  using assms
  by (atomize (full), cases rule: updateBIOSTarget_cases)
    (auto simp: quiet_def dest: updateSettings_not_refusal updateWrite_not_refusal)


text \<open>
  A setting changed because the build was not newer is not reported as a write, although the comment of
  \<open>updateBIOSTarget\<close> says \<open>wrote\<close> reports whether anything changed: \<open>runUpdate\<close> then does not raise the
  generation, and a mirror member that was away keeps its old setting with an equal generation.
\<close>

lemma settings_unreported:
  assumes "updateDiskChecks probe d False = (None, d')" "\<not> seed mo" "fsio w = []" "notNewer (files w) (tMountpoint t) a"
    and "files w (tMountpoint t, CmdlineFile) = Some b" "\<not> optIntegritySet opts" "optInt13chunk opts \<noteq> ''''"
    and "parseInt13Chunk (optInt13chunk opts) = Inr v" "setCmdlineInt13Chunk b v \<noteq> b" "checkCmdlineLength (setCmdlineInt13Chunk b v) = None"
  shows "\<exists>w'. updateBIOSTarget c peOpen probe d w t a yes confirmed opts mo = ((False, None, []), d', w') \<and>
    files w' (tMountpoint t, CmdlineFile) = Some (setCmdlineInt13Chunk b v) \<and> files w' \<noteq> files w"
proof -
  let ?p = "(tMountpoint t, CmdlineFile)"
  have up: "\<exists>s. checkBIOSUpToDate w (tMountpoint t) (iBuildStamp (ParseText (aCmdline a))) = ((s, True), w)"
    using assms(3-5) by (simp add: checkBIOSUpToDate_def notNewer_def calm Let_def)
  have chunk: "setInt13Chunk w (tMountpoint t) v = (None, put w ?p (Some (setCmdlineInt13Chunk b v)))"
    using assms by (simp add: setInt13Chunk_def calm Let_def mapError_def)
  have "files (put w ?p (Some (setCmdlineInt13Chunk b v))) \<noteq> files w"
    using assms(5,9) by (auto simp: fun_eq_iff)
  then show ?thesis
    using assms(1,2,3,6-8) up by (auto simp: updateBIOSTarget_def updateSettings_def chunk calm)
qed


section \<open>A sample update\<close>

definition sample_target :: target where
  "sample_target = \<lparr>tUefi = False, tArch = ''x86_64'', tMountpoint = ''/boot''\<rparr>"

definition sample_assets :: biosAssets where
  "sample_assets =
     \<lparr>aStage1 = replicate 440 (CHR 0xFA), aStage2 = sample_new, aKernel = sample_bzimage, aInitrd = sample_archive,
      aCmdline = ''alpine-zfsboot.version=1.0 alpine-zfsboot.buildstamp=2026''\<rparr>"

definition sample_opts :: biosOpts where
  "sample_opts = \<lparr>optForce = False, optIntegrity = ModeWarn, optIntegritySet = False, optInt13chunk = ''''\<rparr>"

definition sample_member :: memberOpts where
  "sample_member = \<lparr>seed = True, editCmdline = None, integrityFrom = ''''\<rparr>"

lemma update_info: "iVersion (ParseText (aCmdline sample_assets)) = ''1.0''" "iBuildStamp (ParseText (aCmdline sample_assets)) = ''2026''"
  unfolding sample_assets_def by code_simp+

lemma update_fields:
  "tArch sample_target = ''x86_64''" "tMountpoint sample_target = ''/boot''"
  "aStage1 sample_assets = replicate 440 (CHR 0xFA)" "aStage2 sample_assets = sample_new"
  "aKernel sample_assets = sample_bzimage" "aInitrd sample_assets = sample_archive"
  "optForce sample_opts = False" "optIntegrity sample_opts = ModeWarn" "\<not> optIntegritySet sample_opts" "optInt13chunk sample_opts = ''''"
  "seed sample_member" "editCmdline sample_member = None" "integrityFrom sample_member = ''''"
  by (simp_all add: sample_target_def sample_assets_def sample_opts_def sample_member_def)

lemma sample_preflight: "preflightBIOSMetadata sample_zfs_codecs ''x86_64'' ''1.0'' ''2026'' sample_bzimage sample_archive = None"
proof -
  obtain m where m: "deepMetadataFor sample_zfs_codecs ''x86_64'' ''1.0'' ''2026'' sample_bzimage sample_archive = Inr m"
    "isOk (checkMetadataEncodable m)"
    using sample_metadata by (auto simp: metadataBytes_def bindE_def isOk_def split: sum.splits)
  have "isOk (Generate sample_bzimage sample_archive ModeWarn)"
    using sample_sums by (auto simp: payloadSums_def bindE_def mapErr_def isOk_def split: sum.splits)
  then show ?thesis using m by (auto simp: preflightBIOSMetadata_def isOk_def split: sum.splits)
qed

lemma sample_gate: "gate (sample_dev []) = (Inr (), sample_dev [])"
  using sample_table_ok by (simp add: gate_def io_call_def next_io_def sample_dev_def table_ok_def)

lemma sample_update:
  "\<exists>d' w'. updateBIOSTarget sample_zfs_codecs sample_pe ProbeFile (sample_dev []) (sample_store []) sample_target sample_assets
      True False sample_opts sample_member = ((True, None, []), d', w') \<and> \<not> Esp_Store.critical w'"
proof -
  let ?w = "sample_store []"
  have calm': "fsio ?w = []" "files ?w p = None" "trace ?w = []" for p by (simp_all add: sample_store_def)
  have pair: "\<exists>d'. writeBIOSStagesWithRollback (sample_dev []) (replicate 440 (CHR 0xFA)) sample_new = ((None, []), d')"
    using pair_healthy [of "sample_dev []" "replicate 440 (CHR 0xFA)" sample_new] sample_table_ok sample_images sample_lengths
    by (auto simp: sample_dev_def layout_defs)
  then obtain d' where p: "writeBIOSStagesWithRollback (sample_dev []) (replicate 440 (CHR 0xFA)) sample_new = ((None, []), d')" ..
  let ?r = "writePayloadWithRollback sample_zfs_codecs ?w ''/boot'' ''x86_64'' ''1.0'' ''2026'' sample_bzimage sample_archive
      (aCmdline sample_assets) ModeWarn"
  obtain e w' where r: "?r = (e, w')" by fastforce
  have "fst ?r = None" by (rule writer_finishes) (simp_all add: calm' sample_metadata sample_sums)
  with r have e: "e = None" by simp
  with writer_atomic [OF calm'(3) r] have "\<not> Esp_Store.critical w'" by simp
  moreover have "updateDiskChecks ProbeFile (sample_dev []) True = (None, sample_dev [])"
    by (simp add: updateDiskChecks_def CheckSectorSize_def logicalSectorSize_def sample_gate)
  moreover have "updatePreflight sample_zfs_codecs ?w sample_target sample_assets sample_opts sample_member =
      (Inr (aCmdline sample_assets), ?w)"
    using sample_preflight sample_images
    by (simp add: updatePreflight_def update_info update_fields checkStagePair_def ValidMode_def applyInt13Chunk_def
        installedInt13Chunk_def editedCmdline_def calm calm')
  ultimately show ?thesis
    using p r e
    by (simp add: updateBIOSTarget_def checkBIOSUpToDate_def updateWrite_def updateIntegrityMode_def update_info update_fields calm calm')
qed


section \<open>Properties\<close>

text \<open>C8: an update refines its specification.  Whatever calls fail, if no failed rollback was announced, the
  disk and the partition end exactly as before, or - only when the installed build is not older - with
  changed settings files, or with the new pair of stages and the old payload (reported as a write and
  an error), or with the new pair and the whole new generation, which is what success after a write means.\<close>

theorem update_refines:
  assumes "updateBIOSTarget c peOpen probe d w t a yes confirmed opts mo = ((wrote, err, ev), d', w')" "readsOnly mo" "trace w = []"
    and "\<not> Bios_Boot.critical ev" "\<not> Esp_Store.critical w'"
  shows "updated c t a mo (content d, files w) wrote (err \<noteq> None) (content d', files w')"
  using assms by (rule update_refinement)

theorem update_refines_witness:
  "\<exists>d' w'. updateBIOSTarget sample_zfs_codecs sample_pe ProbeFile (sample_dev []) (sample_store []) sample_target sample_assets
      True False sample_opts sample_member = ((True, None, []), d', w') \<and>
    updated sample_zfs_codecs sample_target sample_assets sample_member (sample_content, \<lambda>_. None) True False (content d', files w')"
proof -
  obtain d' w' where u: "updateBIOSTarget sample_zfs_codecs sample_pe ProbeFile (sample_dev []) (sample_store []) sample_target sample_assets
      True False sample_opts sample_member = ((True, None, []), d', w')" "\<not> Esp_Store.critical w'"
    using sample_update by blast
  have "readsOnly sample_member" "trace (sample_store []) = []" "\<not> Bios_Boot.critical []"
    by (simp_all add: sample_member_def sample_store_def Bios_Boot.critical_def)
  from update_refines [OF u(1) this u(2)] u(1) show ?thesis by (auto simp: sample_dev_def sample_store_def)
qed

text \<open>C9: an update checks first.  Nothing is written to the disk, and no write is reported, unless the
  sectors are 512 bytes, no partition overlaps the stage2 extent, the disk carries this loader (or is
  a new member), the build can be described, its stage2 passes stage1's checks (or was forced), the
  integrity mode is valid and the operator agreed; and, when the installed command line can be read,
  the build is newer.  A refused update has changed nothing, not even for a moment.\<close>

theorem update_checked:
  assumes "updateBIOSTarget c peOpen probe d w t a yes confirmed opts mo = ((wrote, err, ev), d', w')" "readsOnly mo"
  shows "(history d' \<noteq> history d \<or> wrote \<longrightarrow>
      CheckSectorSize probe = None \<and> CheckStage2ExtentFree (Some (file_reader (content d))) = Inr () \<and>
      (seed mo \<or> recognized (content d)) \<and> buildChecked c t a opts \<and> (yes \<or> confirmed) \<and>
      (fsio w = [] \<longrightarrow> seed mo \<or> \<not> notNewer (files w) (tMountpoint t) a)) \<and>
    (\<forall>e. err = Some e \<and> isRefusal e \<longrightarrow>
      content d' = content d \<and> history d' = history d \<and> files w' = files w \<and> trace w' = trace w)"
  using update_checks_first [OF assms] by blast

theorem update_checked_witness:
  "buildChecked sample_zfs_codecs sample_target sample_assets sample_opts \<and>
   files (snd (snd (updateBIOSTarget sample_zfs_codecs sample_pe (ProbeDevice (Some 4096)) (sample_dev []) (sample_store []) sample_target
     sample_assets True False sample_opts sample_member))) = (\<lambda>_. None)"
proof -
  obtain d' w' where u: "updateBIOSTarget sample_zfs_codecs sample_pe ProbeFile (sample_dev []) (sample_store []) sample_target sample_assets
      True False sample_opts sample_member = ((True, None, []), d', w')"
    using sample_update by blast
  have ro: "readsOnly sample_member" by (simp add: sample_member_def)
  have "updateBIOSTarget sample_zfs_codecs sample_pe (ProbeDevice (Some 4096)) (sample_dev []) (sample_store []) sample_target
      sample_assets True False sample_opts sample_member = ((False, Some (UpdSector (Some 4096)), []), sample_dev [], sample_store [])"
    by (simp add: updateBIOSTarget_def updateDiskChecks_def CheckSectorSize_def logicalSectorSize_def layout_defs)
  from this update_checked [OF this ro] update_checked [OF u ro] show ?thesis
    by (simp add: isRefusal_def sample_store_def)
qed

end
