(* ===== verification/Mirror_Set.thy ===== *)
theory Mirror_Set
  imports Esp_Select Bios_Update
begin

text \<open>
  The partitions of a mirrored boot as \<open>src/cmd/tool/mirror.go\<close> and \<open>src/cmd/tool/espcmd.go\<close> handle them: which
  member is the source of settings, what set is recorded, when members may be written, and how one member
  is brought in line with another (\<open>syncConfig\<close>, \<open>copyBootChain\<close>, \<open>finalizeMembers\<close>).  The lemmas show that
  the source is never a stranger's and carries the highest generation, that the recorded set has no
  duplicates and loses nobody, that a rewrite never removes a setting, and that a copied member ends with
  the source's files.

  Members are compared by position in the source; here by value.  The clock, the random install id and the
  name under /dev/disk/by-id are arguments.
\<close>

section \<open>Members and the host\<close>

record mirror_member =
  mInfo :: ESPInfo
  mTarget :: "target option"
  mDisk :: string
  mForeign :: bool
  mAdded :: bool
  mMountErr :: bool
  mDiskErr :: bool

record mirror_host =
  hUefi :: bool
  hArch :: string
  hSet :: HostSet
  hMembers :: "mirror_member list"
  hInstallID :: string
  hExplicit :: "string list option"

datatype usable_error = NotMounted | OtherInstallation | DiskUnusable

definition usable :: "mirror_member \<Rightarrow> bool \<Rightarrow> bool \<Rightarrow> bool \<Rightarrow> usable_error option" where
  "usable m write forceAdopt uefi =
     (if mMountErr m then Some NotMounted
      else if \<not> write then None
      else if mForeign m \<and> \<not> forceAdopt then Some OtherInstallation
      else if \<not> uefi \<and> mDiskErr m then Some DiskUnusable
      else None)"

definition mirrored :: "mirror_host \<Rightarrow> bool" where
  "mirrored h \<longleftrightarrow> length (hMembers h) > 1 \<or> length (hostMissing (hSet h)) > 0 \<or> hostMode (hSet h) = ModeList"

definition exitFailure :: nat where "exitFailure = 1"
definition exitMemberMissing :: nat where "exitMemberMissing = 3"

definition exitCode :: "mirror_host \<Rightarrow> bool \<Rightarrow> nat" where
  "exitCode h failed =
     (if failed then exitFailure else if length (hostMissing (hSet h)) > 0 then exitMemberMissing else 0)"

fun addNew :: "string list \<Rightarrow> string list \<Rightarrow> string list" where
  "addNew out [] = out"
| "addNew out (u # us) = (if u \<in> set out then addNew out us else addNew (out @ [u]) us)"

definition expectedSet :: "mirror_host \<Rightarrow> string list" where
  "expectedSet h =
     (let out = addNew (addNew [] (hostExpected (hSet h))) (map (\<lambda>m. UUID (mInfo m)) (hMembers h))
      in if hostMode (hSet h) \<noteq> ModeList then sort out else out)"

fun sharedDisk :: "mirror_member list \<Rightarrow> (string \<times> string) list \<Rightarrow> (string \<times> string \<times> string) option" where
  "sharedDisk [] seen = None"
| "sharedDisk (m # ms) seen =
     (if mTarget m = None \<or> mDiskErr m then sharedDisk ms seen
      else
        case map_of seen (mDisk m) of
          Some other \<Rightarrow> Some (other, UUID (mInfo m), mDisk m)
        | None \<Rightarrow> sharedDisk ms ((mDisk m, UUID (mInfo m)) # seen))"

definition checkDistinctDisks :: "mirror_host \<Rightarrow> (string \<times> string \<times> string) option" where
  "checkDistinctDisks h = (if hUefi h then None else sharedDisk (hMembers h) [])"

definition bestStep :: "mirror_member option \<Rightarrow> mirror_member \<Rightarrow> mirror_member option" where
  "bestStep best m =
     (if mTarget m = None \<or> mAdded m \<or> mForeign m then best
      else
        case best of
          None \<Rightarrow> Some m
        | Some b \<Rightarrow> if espGeneration (mInfo m) > espGeneration (mInfo b) then Some m else Some b)"

definition bestSource :: "mirror_host \<Rightarrow> mirror_member option" where
  "bestSource h = foldl bestStep None (hMembers h)"

definition maxGeneration :: "mirror_host \<Rightarrow> u64" where
  "maxGeneration h =
     foldl (\<lambda>g m. if \<not> mForeign m \<and> espGeneration (mInfo m) > g then espGeneration (mInfo m) else g) 0 (hMembers h)"


section \<open>Lists of partitions in config and CMDLINE\<close>

text \<open>\<open>strings.EqualFold\<close> on the ASCII letters; the partition ids it is used with have no others.\<close>

definition equalFold :: "string \<Rightarrow> string \<Rightarrow> bool" where
  "equalFold a b \<longleftrightarrow> toLower a = toLower b"

definition addUUID :: "string \<Rightarrow> string \<Rightarrow> string" where
  "addUUID list uuid =
     (if list = '''' then uuid
      else if list_ex (\<lambda>u. equalFold (trimSpace u) uuid) (split_on (CHR '','') list) then list
      else list @ '','' @ uuid)"

definition dropUUID :: "string \<Rightarrow> string \<Rightarrow> string" where
  "dropUUID list uuid = join_with '','' (filter (\<lambda>u. \<not> equalFold (trimSpace u) uuid) (split_on (CHR '','') list))"


section \<open>Settings of a member\<close>

record memberSettings =
  sInt13chunk :: string
  sIntegrityWord :: string
  sMode :: string

definition readMemberSettings :: "world \<Rightarrow> string \<Rightarrow> memberSettings \<times> world" where
  "readMemberSettings w mp =
     (case readFile w (mp, CmdlineFile) of
        (c, w) \<Rightarrow>
          (case readFile w (mp, PayloadSumFile) of
             (raw, w) \<Rightarrow>
               (\<lparr>sInt13chunk = (case c of Content b \<Rightarrow> cmdlineValue b Int13ChunkKey | _ \<Rightarrow> ''''),
                 sIntegrityWord = (case c of Content b \<Rightarrow> cmdlineValue b ''alpine-zfsboot.integrity'' | _ \<Rightarrow> ''''),
                 sMode = (case raw of
                     Content b \<Rightarrow> (case Decode b of Inr m \<Rightarrow> if Mode m \<noteq> ModeWarn then Mode m else '''' | Inl _ \<Rightarrow> '''')
                   | _ \<Rightarrow> '''')\<rparr>, w)))"

datatype lost_setting = LostInt13 string string | LostIntegrity string string | LostMode string string

definition lostBy :: "memberSettings \<Rightarrow> memberSettings \<Rightarrow> lost_setting option" where
  "lostBy m src =
     (if sInt13chunk m \<noteq> '''' \<and> sInt13chunk m \<noteq> sInt13chunk src then Some (LostInt13 (sInt13chunk m) (sInt13chunk src))
      else if sIntegrityWord m \<noteq> '''' \<and> sIntegrityWord m \<noteq> sIntegrityWord src
      then Some (LostIntegrity (sIntegrityWord m) (sIntegrityWord src))
      else if sMode m \<noteq> '''' \<and> sMode m \<noteq> sMode src then Some (LostMode (sMode m) (sMode src))
      else None)"


section \<open>Copying from one member to another\<close>

definition syncFiles :: "string list" where
  "syncFiles = [ConfigFile, AuthorizedKeysFile, SSHHostEd25519KeyFile]"

datatype sync_error = SyncRead string | SyncRemove string | SyncWrite string write_error

text \<open>\<open>os.Remove\<close> of a file that was just read: its absence would be an error here.\<close>

definition removeExisting :: "world \<Rightarrow> path \<Rightarrow> bool \<times> world" where
  "removeExisting w p =
     (let (x, w) = next_fs w in
      case x of
        FsOk \<Rightarrow> if files w p = None then (False, w) else (True, put w p None)
      | FsFail \<Rightarrow> (False, w)
      | FsFailDone \<Rightarrow> (False, put w p None))"

fun syncLoop :: "string list \<Rightarrow> world \<Rightarrow> string \<Rightarrow> string \<Rightarrow> bool \<Rightarrow> (bool \<times> sync_error option) \<times> world" where
  "syncLoop [] w src dst wrote = ((wrote, None), w)"
| "syncLoop (rel # rels) w src dst wrote =
     (case readFile w (src, rel) of
        (want, w) \<Rightarrow>
          (case readFile w (dst, rel) of
             (got, w) \<Rightarrow>
               (case want of
                  ReadError \<Rightarrow> ((wrote, Some (SyncRead rel)), w)
                | NotExist \<Rightarrow>
                    (case got of
                       Content _ \<Rightarrow>
                         (case removeExisting w (dst, rel) of
                            (False, w) \<Rightarrow> ((wrote, Some (SyncRemove rel)), w)
                          | (True, w) \<Rightarrow> syncLoop rels w src dst True)
                     | _ \<Rightarrow> syncLoop rels w src dst wrote)
                | Content b \<Rightarrow>
                    if got = Content b then syncLoop rels w src dst wrote
                    else
                      (case WriteFile w (dst, rel) b of
                         (Some e, w) \<Rightarrow> ((wrote, Some (SyncWrite rel e)), w)
                       | (None, w) \<Rightarrow> syncLoop rels w src dst True))))"

definition syncConfig :: "world \<Rightarrow> string \<Rightarrow> string \<Rightarrow> (bool \<times> sync_error option) \<times> world" where
  "syncConfig w src dst = syncLoop syncFiles w src dst False"

datatype copy_error =
    CopyArch string
  | CopyLoader
  | CopyTemp
  | CopyUefi uefi_error
  | CopyStage1 stage_error
  | CopyStage2 stage_error
  | CopyPair stage2_error
  | CopySector "int option"
  | CopyGate gate_error
  | CopyPayload installed_error
  | CopyPreflight payload_error
  | CopyCmdline
  | CopyLength nat
  | CopyStages pair_error
  | CopyWrite payload_error
  | CopySync sync_error

definition copyUEFIChain ::
    "codecs \<Rightarrow> pe_open \<Rightarrow> world \<Rightarrow> string \<Rightarrow> target \<Rightarrow> string \<Rightarrow> copy_error option \<times> world" where
  "copyUEFIChain c peOpen w arch src dst =
     (case LoaderPath arch of
        None \<Rightarrow> (Some (CopyArch arch), w)
      | Some rel \<Rightarrow>
          (case readFile w (tMountpoint src, rel) of
             (Content loader, w) \<Rightarrow>
               (case readInstalledKernelInitrd peOpen w src of
                  (Inl e, w) \<Rightarrow> (Some (CopyPayload e), w)
                | (Inr (_, _, ki), w) \<Rightarrow>
                    thenDo (check CopyTemp (fs_call w)) (\<lambda>w.
                    thenDo (check CopyTemp (fs_call w)) (\<lambda>w.
                    (case writeUEFIGenerationWithRollback c peOpen w dst arch loader loader ki of
                       (_, e, w) \<Rightarrow> (map_option CopyUefi e, w)))))
           | (_, w) \<Rightarrow> (Some CopyLoader, w)))"

text \<open>What is copied to a BIOS member: stage1, stage2, kernel, initrd, their description and the command line.\<close>

record bios_copy =
  cStage1 :: bytes
  cStage2 :: bytes
  cKernel :: bytes
  cInitrd :: bytes
  cInfo :: Info
  cCmdline :: bytes

definition readBIOSChain ::
    "codecs \<Rightarrow> pe_open \<Rightarrow> disk_probe \<Rightarrow> dev \<Rightarrow> dev \<Rightarrow> world \<Rightarrow> string \<Rightarrow> target \<Rightarrow> string \<Rightarrow> (copy_error + bios_copy) \<times> dev \<times> dev \<times> world" where
  "readBIOSChain c peOpen probe ds dt w arch src uuid =
     (case ReadStage1 ds of
        (Inl e, ds) \<Rightarrow> (Inl (CopyStage1 e), ds, dt, w)
      | (Inr s1, ds) \<Rightarrow>
     (case ReadStage2 ds of
        (Inl e, ds) \<Rightarrow> (Inl (CopyStage2 e), ds, dt, w)
      | (Inr s2, ds) \<Rightarrow>
     (case checkStagePair s2 False of
        Some e \<Rightarrow> (Inl (CopyPair e), ds, dt, w)
      | None \<Rightarrow>
     (case CheckSectorSize probe of
        Some n \<Rightarrow> (Inl (CopySector n), ds, dt, w)
      | None \<Rightarrow>
     (case gate dt of
        (Inl e, dt) \<Rightarrow> (Inl (CopyGate e), ds, dt, w)
      | (Inr _, dt) \<Rightarrow>
     (case readInstalledKernelInitrd peOpen w src of
        (Inl e, w) \<Rightarrow> (Inl (CopyPayload e), ds, dt, w)
      | (Inr (kern, initrd, ki), w) \<Rightarrow>
     (case preflightBIOSMetadata c arch (iVersion ki) (iBuildStamp ki) kern initrd of
        Some e \<Rightarrow> (Inl (CopyPreflight e), ds, dt, w)
      | None \<Rightarrow>
     (case readFile w (tMountpoint src, CmdlineFile) of
        (Content raw, w) \<Rightarrow>
          (let cmdline = setCmdlineWord raw ESPSelfKey uuid in
           case checkCmdlineLength cmdline of
             Some n \<Rightarrow> (Inl (CopyLength n), ds, dt, w)
           | None \<Rightarrow>
               (Inr \<lparr>cStage1 = s1, cStage2 = s2, cKernel = kern, cInitrd = initrd, cInfo = ki, cCmdline = cmdline\<rparr>, ds, dt, w))
      | (_, w) \<Rightarrow> (Inl CopyCmdline, ds, dt, w)))))))))"

definition noOpts :: biosOpts where
  "noOpts = \<lparr>optForce = False, optIntegrity = '''', optIntegritySet = False, optInt13chunk = ''''\<rparr>"

definition copyBIOSChain ::
    "codecs \<Rightarrow> pe_open \<Rightarrow> disk_probe \<Rightarrow> dev \<Rightarrow> dev \<Rightarrow> world \<Rightarrow> string \<Rightarrow> target \<Rightarrow> string \<Rightarrow> string \<Rightarrow>
     (copy_error option \<times> rollback_event list) \<times> dev \<times> dev \<times> world" where
  "copyBIOSChain c peOpen probe ds dt w arch src dst uuid =
     (case readBIOSChain c peOpen probe ds dt w arch src uuid of
        (Inl e, ds, dt, w) \<Rightarrow> ((Some e, []), ds, dt, w)
      | (Inr x, ds, dt, w) \<Rightarrow>
          (case writeBIOSStagesWithRollback dt (cStage1 x) (cStage2 x) of
             ((Some e, ev), dt) \<Rightarrow> ((Some (CopyStages e), ev), ds, dt, w)
           | ((None, ev), dt) \<Rightarrow>
               (case updateIntegrityMode w (tMountpoint src) noOpts of
                  (mode, w) \<Rightarrow>
                    (case writePayloadWithRollback c w dst arch (iVersion (cInfo x)) (iBuildStamp (cInfo x)) (cKernel x) (cInitrd x)
                            (cCmdline x) mode of
                       (e, w) \<Rightarrow> ((map_option CopyWrite e, ev), ds, dt, w)))))"

definition copyBootChain ::
    "codecs \<Rightarrow> pe_open \<Rightarrow> disk_probe \<Rightarrow> dev \<Rightarrow> dev \<Rightarrow> world \<Rightarrow> string \<Rightarrow> bool \<Rightarrow> target \<Rightarrow> string \<Rightarrow> string \<Rightarrow>
     (copy_error option \<times> rollback_event list) \<times> dev \<times> dev \<times> world" where
  "copyBootChain c peOpen probe ds dt w arch uefi src dst uuid =
     (case (if uefi then (case copyUEFIChain c peOpen w arch src dst of (e, w) \<Rightarrow> ((e, []), ds, dt, w))
            else copyBIOSChain c peOpen probe ds dt w arch src dst uuid) of
        ((Some e, ev), ds, dt, w) \<Rightarrow> ((Some e, ev), ds, dt, w)
      | ((None, ev), ds, dt, w) \<Rightarrow>
          (case syncConfig w (tMountpoint src) dst of
             ((_, e), w) \<Rightarrow> ((map_option CopySync e, ev), ds, dt, w)))"


section \<open>Comparing and repairing members\<close>

text \<open>The comparable content of a member.  The text of a read error names the file, so it is represented by it.\<close>

datatype digest = DigestAbsent | DigestUnreadable path | DigestSum string

definition digestBytes :: "path \<Rightarrow> read_result \<Rightarrow> digest" where
  "digestBytes p r =
     (case r of NotExist \<Rightarrow> DigestAbsent | ReadError \<Rightarrow> DigestUnreadable p | Content b \<Rightarrow> DigestSum (hex_encode (Sum256 b)))"

definition digestStage :: "string \<Rightarrow> stage_error + bytes \<Rightarrow> digest" where
  "digestStage disk r = (case r of Inl _ \<Rightarrow> DigestUnreadable (disk, '''') | Inr b \<Rightarrow> DigestSum (hex_encode (Sum256 b)))"

fun digestFiles :: "world \<Rightarrow> string \<Rightarrow> string list \<Rightarrow> (string \<times> digest) list \<times> world" where
  "digestFiles w mp [] = ([], w)"
| "digestFiles w mp (rel # rels) =
     (case readFile w (mp, rel) of
        (r, w) \<Rightarrow> (case digestFiles w mp rels of (ds, w) \<Rightarrow> ((rel, digestBytes (mp, rel) r) # ds, w)))"

record memberDigest =
  dBuildStamp :: string
  dFiles :: "(string \<times> digest) list"

definition digestBIOS :: "dev \<Rightarrow> world \<Rightarrow> string \<Rightarrow> string \<Rightarrow> memberDigest \<times> dev \<times> world" where
  "digestBIOS d w disk mp =
     (case ReadStage1 d of (s1, d) \<Rightarrow>
      case ReadStage2 d of (s2, d) \<Rightarrow>
      case digestFiles w mp [KernelFile, InitrdFile, PayloadSumFile, BlkSumFile] of (fs, w) \<Rightarrow>
      case readFile w (mp, CmdlineFile) of (c, w) \<Rightarrow>
      case digestFiles w mp [MetadataFile, ConfigFile, AuthorizedKeysFile, SSHHostEd25519KeyFile] of (gs, w) \<Rightarrow>
        (\<lparr>dBuildStamp = (case c of Content b \<Rightarrow> iBuildStamp (ParseText b) | _ \<Rightarrow> ''''),
          dFiles =
            [(''stage1 (MBR of disk)'', digestStage disk s1), (''stage2'', digestStage disk s2)] @ fs @
            [(CmdlineFile @ '' (without esp-self/esp-uuids)'',
              digestBytes (mp, CmdlineFile) (case c of Content b \<Rightarrow> Content (stripMirrorWords b) | x \<Rightarrow> x))] @ gs\<rparr>, d, w))"

definition digestUEFI :: "pe_open \<Rightarrow> world \<Rightarrow> string \<Rightarrow> string \<Rightarrow> memberDigest \<times> world" where
  "digestUEFI peOpen w arch mp =
     (case (case LoaderPath arch of
              None \<Rightarrow> (('''', []), w)
            | Some rel \<Rightarrow>
                (case readFile w (mp, rel) of (r, w) \<Rightarrow>
                 case readPE w (mp, rel) (ReadInfo peOpen) of (i, w) \<Rightarrow>
                   ((case i of Inr ki \<Rightarrow> iBuildStamp ki | Inl _ \<Rightarrow> '''', [(''UEFI loader '' @ rel, digestBytes (mp, rel) r)]), w))) of
        ((stamp, fs), w) \<Rightarrow>
          (case digestFiles w mp [MetadataFile, ConfigFile, AuthorizedKeysFile, SSHHostEd25519KeyFile] of
             (gs, w) \<Rightarrow> (\<lparr>dBuildStamp = stamp, dFiles = fs @ gs\<rparr>, w)))"

definition digestMember :: "pe_open \<Rightarrow> bool \<Rightarrow> string \<Rightarrow> dev \<Rightarrow> world \<Rightarrow> string \<Rightarrow> string \<Rightarrow> memberDigest \<times> dev \<times> world" where
  "digestMember peOpen uefi arch d w disk mp =
     (if uefi then (case digestUEFI peOpen w arch mp of (m, w) \<Rightarrow> (m, d, w)) else digestBIOS d w disk mp)"

definition repairable :: "string \<Rightarrow> bool" where
  "repairable name \<longleftrightarrow> name \<noteq> ConfigFile \<and> name \<noteq> AuthorizedKeysFile \<and> name \<noteq> SSHHostEd25519KeyFile"

definition digestDiff :: "(string \<Rightarrow> bool) \<Rightarrow> memberDigest \<Rightarrow> memberDigest \<Rightarrow> string list" where
  "digestDiff P ref d = map fst (filter (\<lambda>(name, s). P name \<and> map_of (dFiles d) name \<noteq> Some s) (dFiles ref))"

text \<open>\<open>compareMembers\<close> on the generations and digests of the present members: the verdict on every member but the
  reference, which comes first in the order.\<close>

datatype verdict = Stale "string list" | Differs "string list" | GenerationOnly | InLine

definition digestLess :: "u64 \<times> memberDigest \<Rightarrow> u64 \<times> memberDigest \<Rightarrow> bool" where
  "digestLess a b = (if fst a \<noteq> fst b then fst a > fst b else dBuildStamp (snd b) < dBuildStamp (snd a))"

definition compareOne :: "u64 \<times> memberDigest \<Rightarrow> u64 \<times> memberDigest \<Rightarrow> verdict" where
  "compareOne ref d =
     (let diff = digestDiff (\<lambda>_. True) (snd ref) (snd d) in
      if diff \<noteq> [] \<and> (fst d < fst ref \<or> dBuildStamp (snd d) < dBuildStamp (snd ref)) then Stale (sort diff)
      else if diff \<noteq> [] then Differs (sort diff)
      else if fst d \<noteq> fst ref then GenerationOnly
      else InLine)"

definition compareMembers :: "(u64 \<times> memberDigest) list \<Rightarrow> verdict list" where
  "compareMembers ds =
     (if length ds < 2 then [] else let s = sliceStable digestLess ds in map (compareOne (hd s)) (tl s))"

definition payloadName :: "string \<Rightarrow> bool" where
  "payloadName name \<longleftrightarrow> \<not> hasPrefix name CmdlineFile \<and> name \<noteq> PayloadSumFile \<and> repairable name"

fun payloadDifference :: "memberDigest list \<Rightarrow> string list" where
  "payloadDifference (a # b # ds) =
     (let names = digestDiff payloadName a b in if names \<noteq> [] then sort names else payloadDifference (a # ds))"
| "payloadDifference _ = []"

datatype repair_error =
    RepairNoChecksum
  | RepairBadChecksum psum_error
  | RepairUnreadable installed_error
  | RepairDamaged verify_error
  | RepairLoses lost_setting
  | RepairCopy copy_error

definition sourceVerified :: "pe_open \<Rightarrow> world \<Rightarrow> target \<Rightarrow> repair_error option \<times> world" where
  "sourceVerified peOpen w src =
     (case readFile w (tMountpoint src, PayloadSumFile) of
        (Content raw, w) \<Rightarrow>
          (case Decode raw of
             Inl e \<Rightarrow> (Some (RepairBadChecksum e), w)
           | Inr man \<Rightarrow>
               (case readInstalledKernelInitrd peOpen w src of
                  (Inl e, w) \<Rightarrow> (Some (RepairUnreadable e), w)
                | (Inr (kern, initrd, _), w) \<Rightarrow>
                    (case Verify man kern initrd of [] \<Rightarrow> (None, w) | e # _ \<Rightarrow> (Some (RepairDamaged e), w))))
      | (_, w) \<Rightarrow> (Some RepairNoChecksum, w))"

definition repairMember ::
    "codecs \<Rightarrow> pe_open \<Rightarrow> bool \<Rightarrow> disk_probe \<Rightarrow> dev \<Rightarrow> dev \<Rightarrow> world \<Rightarrow> string \<Rightarrow> target \<Rightarrow> string \<Rightarrow> string \<Rightarrow> string \<Rightarrow> string \<Rightarrow>
     (bool \<times> repair_error option \<times> rollback_event list) \<times> dev \<times> dev \<times> world" where
  "repairMember c peOpen uefi probe ds dt w arch src srcDisk dst dstDisk uuid =
     (case digestMember peOpen uefi arch ds w srcDisk (tMountpoint src) of (a, ds, w) \<Rightarrow>
      case digestMember peOpen uefi arch dt w dstDisk dst of (b, dt, w) \<Rightarrow>
        if dBuildStamp a = '''' \<or> dBuildStamp a \<noteq> dBuildStamp b then ((False, None, []), ds, dt, w)
        else if digestDiff repairable a b = [] then ((False, None, []), ds, dt, w)
        else
          (case (if uefi then (None, w) else sourceVerified peOpen w src) of
             (Some e, w) \<Rightarrow> ((False, Some e, []), ds, dt, w)
           | (None, w) \<Rightarrow>
               (case readMemberSettings w dst of (mine, w) \<Rightarrow>
                case readMemberSettings w (tMountpoint src) of (theirs, w) \<Rightarrow>
                  (case lostBy mine theirs of
                     Some l \<Rightarrow> ((False, Some (RepairLoses l), []), ds, dt, w)
                   | None \<Rightarrow>
                       (case copyBootChain c peOpen probe ds dt w arch uefi src dst uuid of
                          ((Some e, ev), ds, dt, w) \<Rightarrow> ((False, Some (RepairCopy e), ev), ds, dt, w)
                        | ((None, ev), ds, dt, w) \<Rightarrow> ((True, None, ev), ds, dt, w))))))"


section \<open>Recording the membership\<close>

definition wantedMember :: "string \<Rightarrow> u64 \<Rightarrow> string \<Rightarrow> string list \<Rightarrow> string \<Rightarrow> string \<Rightarrow> string \<Rightarrow> Member" where
  "wantedMember iid gen uuid exp pool disk now =
     \<lparr>InstallID = iid, Generation = gen, ESPUUID = uuid, Members = exp, Pool = SanitizeInfo pool, Disk = SanitizeInfo disk,
      Written = now\<rparr>"

definition sameRecord :: "Member \<Rightarrow> Member \<Rightarrow> bool" where
  "sameRecord cur want \<longleftrightarrow>
     InstallID cur = InstallID want \<and> Generation cur = Generation want \<and> ESPUUID cur = ESPUUID want \<and>
     join_with '','' (Members cur) = join_with '','' (Members want)"

definition finalizeOne :: "world \<Rightarrow> string \<Rightarrow> Member \<Rightarrow> member_write_error option \<times> world" where
  "finalizeOne w mp want =
     (case memberRead w mp of
        (MemberPresent cur, w) \<Rightarrow> if sameRecord cur want then (None, w) else memberWrite w mp want
      | (_, w) \<Rightarrow> memberWrite w mp want)"

fun finalizeLoop ::
    "(mirror_member \<Rightarrow> Member) \<Rightarrow> world \<Rightarrow> (mirror_member \<times> string) list \<Rightarrow> (mirror_member \<times> member_write_error) list \<times> world" where
  "finalizeLoop want w [] = ([], w)"
| "finalizeLoop want w ((m, mp) # ms) =
     (case finalizeOne w mp (want m) of
        (e, w) \<Rightarrow>
          (case finalizeLoop want w ms of
             (errs, w) \<Rightarrow> ((case e of Some x \<Rightarrow> (m, x) # errs | None \<Rightarrow> errs), w)))"

text \<open>The members are given with their mountpoints; \<open>newID\<close> is the outcome of making a new install id.\<close>

definition finalizeMembersAt ::
    "mirror_host \<Rightarrow> world \<Rightarrow> (mirror_member \<times> string) list \<Rightarrow> (mirror_member \<Rightarrow> u64) \<Rightarrow> string \<Rightarrow> string option \<Rightarrow> (mirror_member \<Rightarrow> string) \<Rightarrow>
     string \<Rightarrow> ((mirror_member \<times> member_write_error option) list \<times> mirror_host) \<times> world" where
  "finalizeMembersAt h w oks genOf pool newID diskHint now =
     (case (if hInstallID h = '''' then newID else Some (hInstallID h)) of
        None \<Rightarrow> ((map (\<lambda>(m, _). (m, None)) oks, h), w)
      | Some iid \<Rightarrow>
          let h = h\<lparr>hInstallID := iid\<rparr>;
              want = (\<lambda>m. wantedMember iid (genOf m) (UUID (mInfo m)) (expectedSet h) pool (diskHint m) now)
          in (case finalizeLoop want w oks of (errs, w) \<Rightarrow> ((map (\<lambda>(m, e). (m, Some e)) errs, h), w)))"


section \<open>Installing\<close>

datatype install_error =
    InstallPreflight payload_error
  | InstallPair stage2_error
  | InstallIntegrity string
  | InstallInt13 string
  | InstallStages pair_error
  | InstallPayload payload_error
  | InstallUefi uefi_error
  | InstallConfig write_error

definition prepareBIOSInstall :: "codecs \<Rightarrow> world \<Rightarrow> string \<Rightarrow> biosAssets \<Rightarrow> biosOpts \<Rightarrow> (install_error + Info \<times> bytes) \<times> world" where
  "prepareBIOSInstall c w arch a opts =
     (let newCmdline = ParseText (aCmdline a) in
      case preflightBIOSMetadata c arch (iVersion newCmdline) (iBuildStamp newCmdline) (aKernel a) (aInitrd a) of
        Some e \<Rightarrow> (Inl (InstallPreflight e), w)
      | None \<Rightarrow>
          (case checkStagePair (aStage2 a) (optForce opts) of
             Some e \<Rightarrow> (Inl (InstallPair e), w)
           | None \<Rightarrow>
               if \<not> ValidMode (optIntegrity opts) then (Inl (InstallIntegrity (optIntegrity opts)), w)
               else
                 (case applyInt13Chunk w (aCmdline a) '''' opts of
                    (Inl e, w) \<Rightarrow> (Inl (InstallInt13 e), w)
                  | (Inr cmdlineTxt, w) \<Rightarrow> (Inr (newCmdline, cmdlineTxt), w))))"

definition writeBIOSInstall ::
    "codecs \<Rightarrow> dev \<Rightarrow> world \<Rightarrow> string \<Rightarrow> string \<Rightarrow> biosAssets \<Rightarrow> Info \<Rightarrow> bytes \<Rightarrow> biosOpts \<Rightarrow> Config \<Rightarrow> string \<Rightarrow> bytes \<Rightarrow>
     (install_error option \<times> rollback_event list) \<times> dev \<times> world" where
  "writeBIOSInstall c d w arch mp a ki cmdlineTxt opts cfg sshKey hostKey =
     (case writeBIOSStagesWithRollback d (aStage1 a) (aStage2 a) of
        ((Some e, ev), d) \<Rightarrow> ((Some (InstallStages e), ev), d, w)
      | ((None, ev), d) \<Rightarrow>
          (case writePayloadWithRollback c w mp arch (iVersion ki) (iBuildStamp ki) (aKernel a) (aInitrd a) cmdlineTxt (optIntegrity opts) of
             (Some e, w) \<Rightarrow> ((Some (InstallPayload e), ev), d, w)
           | (None, w) \<Rightarrow> (case writeConfig w mp cfg sshKey hostKey of (e, w) \<Rightarrow> ((map_option InstallConfig e, ev), d, w))))"

record uefiAsset =
  uBytes :: bytes
  uFile :: bytes
  uInfo :: Info

definition writeUEFIInstall ::
    "codecs \<Rightarrow> pe_open \<Rightarrow> world \<Rightarrow> string \<Rightarrow> string \<Rightarrow> uefiAsset \<Rightarrow> Config \<Rightarrow> string \<Rightarrow> bytes \<Rightarrow> install_error option \<times> world" where
  "writeUEFIInstall c peOpen w arch mp a cfg sshKey hostKey =
     (case writeUEFIGenerationWithRollback c peOpen w mp arch (uBytes a) (uFile a) (uInfo a) of
        (_, Some e, w) \<Rightarrow> (Some (InstallUefi e), w)
      | (_, None, w) \<Rightarrow> mapError InstallConfig (writeConfig w mp cfg sshKey hostKey))"

datatype uefi_update_error = UUArch string | UULocal installed_error | UUOtherArch | UUWrite uefi_error

definition writeUEFIUpdate :: "codecs \<Rightarrow> pe_open \<Rightarrow> world \<Rightarrow> target \<Rightarrow> uefiAsset \<Rightarrow> (bool \<times> uefi_update_error option) \<times> world" where
  "writeUEFIUpdate c peOpen w t a =
     (case writeUEFIGenerationWithRollback c peOpen w (tMountpoint t) (tArch t) (uBytes a) (uFile a) (uInfo a) of
        (_, Some e, w) \<Rightarrow> ((False, Some (UUWrite e)), w)
      | (_, None, w) \<Rightarrow> ((True, None), w))"

definition updateUEFITarget ::
    "codecs \<Rightarrow> pe_open \<Rightarrow> world \<Rightarrow> target \<Rightarrow> uefiAsset \<Rightarrow> bool \<Rightarrow> bool \<Rightarrow> bool \<Rightarrow> (bool \<times> uefi_update_error option) \<times> world" where
  "updateUEFITarget c peOpen w t a yes confirmed seeded =
     (case LoaderPath (tArch t) of
        None \<Rightarrow> ((False, Some (UUArch (tArch t))), w)
      | Some rel \<Rightarrow>
          if seeded then writeUEFIUpdate c peOpen w t a
          else
            (case readPE w (tMountpoint t, rel) (ReadInfo peOpen) of
               (Inl e, w) \<Rightarrow> ((False, Some (UULocal e)), w)
             | (Inr loc, w) \<Rightarrow>
                 if \<not> CheckArchMatch loc (uInfo a) then ((False, Some UUOtherArch), w)
                 else if goStrLE (iBuildStamp (uInfo a)) (iBuildStamp loc) then ((False, None), w)
                 else if \<not> yes \<and> \<not> confirmed then ((False, None), w)
                 else writeUEFIUpdate c peOpen w t a))"

definition verifyPayloadIgnoringMirrorWords ::
    "world \<Rightarrow> string \<Rightarrow> bytes \<Rightarrow> bytes \<Rightarrow> bytes \<Rightarrow> (path \<times> verify_file_error) option \<times> world" where
  "verifyPayloadIgnoringMirrorWords w mp kern initrd cmdlineBytes =
     thenDo (mapError (Pair (mp, KernelFile)) (VerifyFile w (mp, KernelFile) kern)) (\<lambda>w.
     thenDo (mapError (Pair (mp, InitrdFile)) (VerifyFile w (mp, InitrdFile) initrd)) (\<lambda>w.
     (case readFile w (mp, CmdlineFile) of
        (Content got, w) \<Rightarrow>
          (if stripMirrorWords got \<noteq> stripMirrorWords cmdlineBytes then Some ((mp, CmdlineFile), VDiffers) else None, w)
      | (_, w) \<Rightarrow> (Some ((mp, CmdlineFile), VRead), w))))"


section \<open>The source and the recorded set\<close>

text \<open>Go's string order is the library's order of strings.\<close>

lemma goStrLE_order: "goStrLE a b \<longleftrightarrow> a \<le> b"
  by (induction a b rule: goStrLE.induct) (auto simp: less_char_def)

definition candidate :: "mirror_member \<Rightarrow> bool" where
  "candidate m \<longleftrightarrow> mTarget m \<noteq> None \<and> \<not> mAdded m \<and> \<not> mForeign m"

lemma foldl_bestStep:
  "case foldl bestStep b ms of
     None \<Rightarrow> b = None \<and> (\<forall>m \<in> set ms. \<not> candidate m)
   | Some x \<Rightarrow> (b = Some x \<or> x \<in> set ms \<and> candidate x) \<and>
       (\<forall>y. b = Some y \<longrightarrow> espGeneration (mInfo y) \<le> espGeneration (mInfo x)) \<and>
       (\<forall>m \<in> set ms. candidate m \<longrightarrow> espGeneration (mInfo m) \<le> espGeneration (mInfo x))"
proof (induction ms arbitrary: b)
  case Nil
  then show ?case by (cases b) auto
next
  case (Cons m ms)
  show ?case
  proof (cases "candidate m")
    case False
    then have "bestStep b m = b" by (simp add: bestStep_def candidate_def)
    then show ?thesis using Cons.IH [of b] False by (auto split: option.splits)
  next
    case True
    then have s: "bestStep b m = (case b of None \<Rightarrow> Some m
        | Some x \<Rightarrow> if espGeneration (mInfo m) > espGeneration (mInfo x) then Some m else Some x)"
      by (auto simp: bestStep_def candidate_def)
    show ?thesis
      using Cons.IH [of "bestStep b m"] True unfolding foldl_Cons s
      by (cases b) (auto split: option.splits if_splits)
  qed
qed

text \<open>Settings and keys come from a member of this installation, and from none with an older record.\<close>

lemma bestSource_best:
  assumes "bestSource h = Some x"
  shows "x \<in> set (hMembers h)" "candidate x"
    "m \<in> set (hMembers h) \<Longrightarrow> candidate m \<Longrightarrow> espGeneration (mInfo m) \<le> espGeneration (mInfo x)"
  using foldl_bestStep [of None "hMembers h"] assms by (auto simp: bestSource_def)

lemma bestSource_None: "bestSource h = None \<longleftrightarrow> (\<forall>m \<in> set (hMembers h). \<not> candidate m)"
  using foldl_bestStep [of None "hMembers h"] by (auto simp: bestSource_def split: option.splits)

lemma foldl_generation:
  fixes g0 :: u64
  defines "step \<equiv> \<lambda>g m. if \<not> mForeign m \<and> espGeneration (mInfo m) > g then espGeneration (mInfo m) else g"
  shows "g0 \<le> foldl step g0 ms \<and> (\<forall>m \<in> set ms. \<not> mForeign m \<longrightarrow> espGeneration (mInfo m) \<le> foldl step g0 ms) \<and>
    (foldl step g0 ms = g0 \<or> (\<exists>m \<in> set ms. \<not> mForeign m \<and> foldl step g0 ms = espGeneration (mInfo m)))"
proof (induction ms arbitrary: g0)
  case (Cons m ms)
  show ?case using Cons.IH [of "step g0 m"] by (auto simp: step_def not_less split: if_splits)
qed simp

text \<open>A new generation exceeds every recorded one, unless the counter wraps.\<close>

lemma newer_generation:
  assumes "maxGeneration h \<noteq> - 1" "m \<in> set (hMembers h)" "\<not> mForeign m"
  shows "espGeneration (mInfo m) < maxGeneration h + 1"
proof -
  have "espGeneration (mInfo m) \<le> maxGeneration h"
    using foldl_generation [of 0 "hMembers h"] assms(2,3) by (simp add: maxGeneration_def)
  also have "1 + maxGeneration h \<noteq> 0" using assms(1) by (metis add.commute eq_neg_iff_add_eq_0)
  then have "maxGeneration h < maxGeneration h + 1" by (simp add: word_less_nat_alt unatSuc add.commute)
  finally show ?thesis .
qed

lemma addNew_set: "set (addNew out us) = set out \<union> set us \<and> (distinct out \<longrightarrow> distinct (addNew out us))"
  by (induction out us rule: addNew.induct) auto

text \<open>The set that is recorded has everybody once.\<close>

lemma expectedSet_complete:
  "distinct (expectedSet h)"
  "set (expectedSet h) = set (hostExpected (hSet h)) \<union> (\<lambda>m. UUID (mInfo m)) ` set (hMembers h)"
  using addNew_set [of "[]" "hostExpected (hSet h)"] addNew_set [of "addNew [] (hostExpected (hSet h))"]
  by (auto simp: expectedSet_def Let_def)

lemma sharedDisk_None:
  assumes "sharedDisk ms seen = None"
  defines "ds \<equiv> map mDisk (filter (\<lambda>m. mTarget m \<noteq> None \<and> \<not> mDiskErr m) ms)"
  shows "distinct ds \<and> set ds \<inter> dom (map_of seen) = {}"
  using assms(1) unfolding ds_def
  by (induction ms seen rule: sharedDisk.induct) (auto split: if_splits option.splits)

lemma checkDistinctDisks_ok:
  "checkDistinctDisks h = None \<Longrightarrow> \<not> hUefi h \<Longrightarrow>
   distinct (map mDisk (filter (\<lambda>m. mTarget m \<noteq> None \<and> \<not> mDiskErr m) (hMembers h)))"
  using sharedDisk_None [of "hMembers h" "[]"] by (simp add: checkDistinctDisks_def)

lemma usable_write:
  "usable m True forceAdopt uefi = None \<longleftrightarrow>
     \<not> mMountErr m \<and> (mForeign m \<longrightarrow> forceAdopt) \<and> (\<not> uefi \<longrightarrow> \<not> mDiskErr m)"
  by (auto simp: usable_def)

text \<open>A rewrite that goes ahead keeps every setting of the member it rewrites.\<close>

lemma lostBy_None:
  "lostBy m src = None \<longleftrightarrow>
     (sInt13chunk m \<in> {'''', sInt13chunk src} \<and> sIntegrityWord m \<in> {'''', sIntegrityWord src} \<and> sMode m \<in> {'''', sMode src})"
  by (auto simp: lostBy_def)


section \<open>Lists of partitions\<close>

lemma addUUID_listed:
  assumes "uuid \<noteq> ''''" "CHR '','' \<notin> set uuid" "trimSpace uuid = uuid"
  shows "list_ex (\<lambda>u. equalFold (trimSpace u) uuid) (split_on (CHR '','') (addUUID list uuid))"
  using assms split_on_sep [of "CHR '',''" list uuid] by (auto simp: addUUID_def equalFold_def split_on_no_sep)

lemma addUUID_idem:
  assumes "uuid \<noteq> ''''" "CHR '','' \<notin> set uuid" "trimSpace uuid = uuid"
  shows "addUUID (addUUID list uuid) uuid = addUUID list uuid"
proof -
  have "addUUID list uuid \<noteq> ''''" using assms(1) by (auto simp: addUUID_def)
  then show ?thesis using addUUID_listed [OF assms, of list] by (simp add: addUUID_def [of "addUUID list uuid"])
qed


section \<open>Copies\<close>

text \<open>On a disk that works, the files kept equal on all members end up equal, and a change is reported
  exactly when there was a difference.\<close>

lemma syncLoop_calm:
  assumes "fsio w = []" "src \<noteq> dst"
  shows "\<exists>w' ch. syncLoop rels w src dst wrote = ((wrote \<or> ch, None), w') \<and> fsio w' = [] \<and>
    (\<forall>p. files w' p = (if fst p = dst \<and> snd p \<in> set rels then files w (src, snd p) else files w p)) \<and>
    (ch \<longleftrightarrow> (\<exists>rel \<in> set rels. files w (dst, rel) \<noteq> files w (src, rel)))"
  using assms(1)
proof (induction rels arbitrary: w wrote)
  case Nil
  then show ?case by auto
next
  case (Cons rel rels)
  let ?s = "files w (src, rel)" and ?d = "files w (dst, rel)"
  let ?w = "if ?d = ?s then w else put w (dst, rel) ?s"
  have step: "syncLoop (rel # rels) w src dst wrote = syncLoop rels ?w src dst (wrote \<or> ?d \<noteq> ?s)"
    using Cons.prems by (cases ?s; cases ?d) (auto simp: calm removeExisting_def next_fs_def)
  have w: "fsio ?w = []" "files ?w p = (if p = (dst, rel) then ?s else files w p)" for p
    using Cons.prems by auto
  obtain w' ch where ih: "syncLoop rels ?w src dst (wrote \<or> ?d \<noteq> ?s) = (((wrote \<or> ?d \<noteq> ?s) \<or> ch, None), w')" "fsio w' = []"
    "\<And>p. files w' p = (if fst p = dst \<and> snd p \<in> set rels then files ?w (src, snd p) else files ?w p)"
    "ch \<longleftrightarrow> (\<exists>r \<in> set rels. files ?w (dst, r) \<noteq> files ?w (src, r))"
    using Cons.IH [OF w(1), of "wrote \<or> ?d \<noteq> ?s"] by blast
  have f: "files w' p = (if fst p = dst \<and> snd p \<in> set (rel # rels) then files w (src, snd p) else files w p)" for p
    using ih(3) [of p] assms(2) unfolding w(2) by (cases p) auto
  have c: "(?d \<noteq> ?s \<or> ch) \<longleftrightarrow> (\<exists>r \<in> set (rel # rels). files w (dst, r) \<noteq> files w (src, r))"
    unfolding ih(4) w(2) using assms(2) by auto
  show ?case
    by (intro exI [of _ w'] exI [of _ "?d \<noteq> ?s \<or> ch"]) (use step ih(1,2) f c in auto)
qed

lemma syncConfig_equal:
  assumes "fsio w = []" "src \<noteq> dst"
  shows "\<exists>w' wrote. syncConfig w src dst = ((wrote, None), w') \<and>
    (\<forall>rel \<in> set syncFiles. files w' (dst, rel) = files w (src, rel)) \<and>
    (wrote \<longleftrightarrow> (\<exists>rel \<in> set syncFiles. files w (dst, rel) \<noteq> files w (src, rel)))"
  using syncLoop_calm [OF assms, of syncFiles False] by (auto simp: syncConfig_def)

text \<open>A copy writes nothing before all its checks passed.\<close>

lemma ReadStage_content: "ReadStage1 d = (r, d') \<Longrightarrow> content d' = content d \<and> history d' = history d"
  "ReadStage2 d = (r, d') \<Longrightarrow> content d' = content d \<and> history d' = history d"
  by (auto simp: ReadStage1_def ReadStage2_def Let_def split: prod.splits dest: readRegionD)

lemma readBIOSChain_quiet:
  assumes "readBIOSChain c peOpen probe ds dt w arch src uuid = (r, ds', dt', w')"
  shows "content dt' = content dt \<and> history dt' = history dt \<and> quiet w w' \<and>
    (\<forall>x. r = Inr x \<longrightarrow> CheckStage2 (cStage2 x) = None \<and> CheckStage2ExtentFree (Some (file_reader (content dt))) = Inr ())"
proof -
  obtain r1 d1 where 1: "ReadStage1 ds = (r1, d1)" by fastforce
  obtain r2 d2 where 2: "ReadStage2 d1 = (r2, d2)" by fastforce
  obtain g d3 where 3: "gate dt = (g, d3)" by fastforce
  obtain i w1 where 4: "readInstalledKernelInitrd peOpen w src = (i, w1)" by fastforce
  obtain k w2 where 5: "readFile w1 (tMountpoint src, CmdlineFile) = (k, w2)" by fastforce
  note facts = gateD [OF 3] gate_accepts [of dt _ d3] readInstalled_quiet [OF 4] readFile_quiet [OF 5]
  have q: "quiet w w1" "quiet w w2" using facts by (auto intro: quiet_trans)
  show ?thesis
    using assms facts q
    by (auto simp: readBIOSChain_def 1 2 3 4 5 checkStagePair_def Let_def
        split: sum.splits option.splits read_result.splits prod.splits)
qed

text \<open>
  The message of a failed \<open>esp add\<close> says it was rolled back; when the payload could not be written, the new
  stages stay on the disk of the member.
\<close>

lemma failed_copy_keeps_stages:
  assumes "copyBIOSChain c peOpen probe ds dt w arch src dst uuid = ((Some (CopyWrite e), ev), ds', dt', w')"
  shows "\<exists>s1 s2. content dt' = overwrite (overwrite (content dt) stage2Offset (stage2_region s2)) 0 s1 \<and> CheckStage2 s2 = None"
proof -
  obtain r d1 d2 w1 where r: "readBIOSChain c peOpen probe ds dt w arch src uuid = (r, d1, d2, w1)" by (metis prod.exhaust)
  note q = readBIOSChain_quiet [OF r]
  show ?thesis
  proof (cases r)
    case (Inl x)
    then have "x = CopyWrite e" using assms by (simp add: copyBIOSChain_def r)
    then show ?thesis
      using r Inl by (auto simp: readBIOSChain_def Let_def split: sum.splits option.splits read_result.splits prod.splits)
  next
    case (Inr x)
    obtain e1 ev1 d3 where s: "writeBIOSStagesWithRollback d2 (cStage1 x) (cStage2 x) = ((e1, ev1), d3)" by (metis prod.exhaust)
    have e1: "e1 = None" "dt' = d3"
      using assms by (cases e1; auto simp: copyBIOSChain_def r Inr s split: prod.splits)+
    let ?a = "\<lparr>aStage1 = cStage1 x, aStage2 = cStage2 x, aKernel = [], aInitrd = [], aCmdline = []\<rparr>"
    have "content d3 = newStages (content d2) ?a"
      using pair_written_exactly [of d2 ?a ev1 d3] s e1(1) by simp
    then show ?thesis using q Inr e1(2) by (auto simp: newStages_def)
  qed
qed

lemma memberWrite_result:
  assumes "memberWrite w mp m = (e, w')"
  shows "(\<forall>p. p \<noteq> (mp, MemberFile) \<longrightarrow> files w' p = files w p) \<and>
    (e = None \<longrightarrow> memberValidate m = None \<and> files w' (mp, MemberFile) = Some (memberEncode m))"
proof (cases "memberValidate m")
  case (Some x)
  then show ?thesis using assms by (auto simp: memberWrite_def)
next
  case None
  obtain e' where wr: "WriteFile w (mp, MemberFile) (memberEncode m) = (e', w')" "e = map_option MemberWrite e'"
    using assms None by (cases "WriteFile w (mp, MemberFile) (memberEncode m)") (simp add: memberWrite_def mapError_def)
  then show ?thesis using wf.wr_frame [OF wr(1)] wf.wr_ok [of w _ _ w'] None by (cases e') auto
qed

text \<open>A member that was finished without an error carries the id, the generation and its own partition id.\<close>

lemma finalizeOne_records:
  assumes "finalizeOne w mp want = (None, w')"
  shows "\<exists>raw cur. files w' (mp, MemberFile) = Some raw \<and> memberDecode raw = Inr cur \<and>
    InstallID cur = InstallID want \<and> Generation cur = Generation want \<and> ESPUUID cur = ESPUUID want"
proof -
  obtain r w1 where r: "memberRead w mp = (r, w1)" by fastforce
  have wr: "\<exists>raw cur. files w' (mp, MemberFile) = Some raw \<and> memberDecode raw = Inr cur \<and>
      InstallID cur = InstallID want \<and> Generation cur = Generation want \<and> ESPUUID cur = ESPUUID want"
    if "memberWrite w1 mp want = (None, w')"
    using memberWrite_result [OF that] by (auto simp: memberValidate_def split: sum.splits if_splits)
  show ?thesis
  proof (cases "\<exists>cur. r = MemberPresent cur \<and> sameRecord cur want")
    case True
    then obtain cur where c: "r = MemberPresent cur" "sameRecord cur want" by blast
    obtain x w2 where x: "readFile w (mp, MemberFile) = (x, w2)" by fastforce
    obtain raw where raw: "x = Content raw" "memberDecode raw = Inr cur" "w1 = w2"
      using r c(1) x by (auto simp: memberRead_def split: read_result.splits sum.splits)
    have "files w1 (mp, MemberFile) = Some raw"
      using readFile_result(1) [of w "(mp, MemberFile)" raw w2] readFile_quiet [OF x] x raw by (simp add: quiet_def)
    moreover have "w' = w1" using assms r c by (simp add: finalizeOne_def)
    ultimately show ?thesis using raw(2) c(2) by (auto simp: sameRecord_def)
  next
    case False
    then have "memberWrite w1 mp want = (None, w')"
      using assms r by (auto simp: finalizeOne_def split: member_read.splits if_splits)
    then show ?thesis by (rule wr)
  qed
qed


section \<open>Installing and updating\<close>

lemma prepareBIOSInstall_checked:
  assumes "prepareBIOSInstall c w arch a opts = (Inr (ki, cmd), w')"
  shows "buildChecked c \<lparr>tUefi = False, tArch = arch, tMountpoint = mp\<rparr> a opts \<and> ki = ParseText (aCmdline a)"
  using assms
  by (auto simp: prepareBIOSInstall_def buildChecked_def checkStagePair_def Let_def split: option.splits if_splits sum.splits prod.splits)

text \<open>A UEFI loader is only ever replaced by a newer build of the same architecture.\<close>

lemma updateUEFI_newer:
  assumes "updateUEFITarget c peOpen w t a yes confirmed False = ((True, err), w')"
  shows "\<exists>rel b loc. LoaderPath (tArch t) = Some rel \<and> files w (tMountpoint t, rel) = Some b \<and> ReadInfo peOpen b = Inr loc \<and>
    iArch (uInfo a) = iArch loc \<and> iBuildStamp loc < iBuildStamp (uInfo a) \<and> (yes \<or> confirmed) \<and> err = None"
proof -
  obtain rel where rel: "LoaderPath (tArch t) = Some rel" using assms by (auto simp: updateUEFITarget_def split: option.splits)
  obtain r w1 where r: "readFile w (tMountpoint t, rel) = (r, w1)" by fastforce
  obtain b where b: "r = Content b" using assms rel r by (cases r) (auto simp: updateUEFITarget_def readPE_def)
  have f: "files w (tMountpoint t, rel) = Some b" using r b readFile_result(1) by simp
  obtain loc where loc: "ReadInfo peOpen b = Inr loc"
    using assms rel r b by (cases "ReadInfo peOpen b") (auto simp: updateUEFITarget_def readPE_def)
  have "CheckArchMatch loc (uInfo a) \<and> \<not> goStrLE (iBuildStamp (uInfo a)) (iBuildStamp loc) \<and> (yes \<or> confirmed) \<and>
      writeUEFIUpdate c peOpen w1 t a = ((True, err), w')"
    using assms rel r b loc by (auto simp: updateUEFITarget_def readPE_def split: if_splits)
  then show ?thesis
    using rel f loc by (auto simp: CheckArchMatch_def goStrLE_order writeUEFIUpdate_def split: prod.splits option.splits)
qed


section \<open>Repairs\<close>

lemma digestFiles_quiet: "digestFiles w mp rels = (ds, w') \<Longrightarrow> quiet w w'"
  by (induction w mp rels arbitrary: ds rule: digestFiles.induct)
    (auto split: prod.splits dest!: readFile_quiet intro: quiet_trans)

lemma digestBIOS_quiet:
  assumes "digestBIOS d w disk mp = (m, d', w')"
  shows "content d' = content d \<and> history d' = history d \<and> quiet w w'"
proof -
  obtain s1 d1 where 1: "ReadStage1 d = (s1, d1)" by fastforce
  obtain s2 d2 where 2: "ReadStage2 d1 = (s2, d2)" by fastforce
  obtain fs w1 where 3: "digestFiles w mp [KernelFile, InitrdFile, PayloadSumFile, BlkSumFile] = (fs, w1)" by fastforce
  obtain k w2 where 4: "readFile w1 (mp, CmdlineFile) = (k, w2)" by fastforce
  obtain gs w3 where 5: "digestFiles w2 mp [MetadataFile, ConfigFile, AuthorizedKeysFile, SSHHostEd25519KeyFile] = (gs, w3)" by fastforce
  have "quiet w w3" using digestFiles_quiet [OF 3] readFile_quiet [OF 4] digestFiles_quiet [OF 5] by (blast intro: quiet_trans)
  then show ?thesis
    using assms ReadStage_content(1) [OF 1] ReadStage_content(2) [OF 2]
    unfolding digestBIOS_def 1 2 3 4 5 prod.case by auto
qed

lemma sourceVerified_holds:
  assumes "sourceVerified peOpen w src = (e, w')" "\<not> tUefi src"
  shows "quiet w w' \<and> (e = None \<longrightarrow> checksumHolds (tMountpoint src) (files w) \<and> files w (tMountpoint src, PayloadSumFile) \<noteq> None)"
proof -
  let ?p = "(tMountpoint src, PayloadSumFile)"
  obtain r w1 where r: "readFile w ?p = (r, w1)" by fastforce
  obtain i w2 where i: "readInstalledKernelInitrd peOpen w1 src = (i, w2)" by fastforce
  have q: "quiet w w1" "quiet w w2" using readFile_quiet [OF r] readInstalled_quiet [OF i] by (auto intro: quiet_trans)
  then have f: "files w1 = files w" by (simp add: quiet_def)
  have "quiet w w'"
    using assms(1) q by (auto simp: sourceVerified_def r i split: read_result.splits sum.splits prod.splits list.splits)
  moreover have "checksumHolds (tMountpoint src) (files w) \<and> files w ?p \<noteq> None" if n: "e = None"
  proof -
    obtain raw man kern initrd ki where x: "r = Content raw" "Decode raw = Inr man" "i = Inr (kern, initrd, ki)" "Verify man kern initrd = []"
      using assms(1) n by (auto simp: sourceVerified_def r i split: read_result.splits sum.splits prod.splits list.splits)
    have "files w ?p = Some raw" using r x(1) readFile_result(1) by simp
    moreover have "files w (tMountpoint src, KernelFile) = Some kern \<and> files w (tMountpoint src, InitrdFile) = Some initrd"
      using readInstalled_files [of peOpen w1 src kern initrd ki w2] i x(3) assms(2) f by simp
    ultimately show ?thesis using x(2,4) by (simp add: checksumHolds_def)
  qed
  ultimately show ?thesis by blast
qed

lemma readMemberSettings_quiet: "readMemberSettings w mp = (s, w') \<Longrightarrow> quiet w w'"
  by (auto simp: readMemberSettings_def split: prod.splits dest!: readFile_quiet intro: quiet_trans)

text \<open>
  A member is rewritten only from a source whose CHECKSUM exists and verifies its kernel and initrd; in every
  other case neither the disk nor the partition of the member changes.
\<close>

lemma repair_from_verified_source:
  assumes "repairMember c peOpen False probe ds dt w arch src srcDisk dst dstDisk uuid = ((wrote, err, ev), ds', dt', w')" "\<not> tUefi src"
    and "\<not> (checksumHolds (tMountpoint src) (files w) \<and> files w (tMountpoint src, PayloadSumFile) \<noteq> None)"
  shows "\<not> wrote \<and> content dt' = content dt \<and> history dt' = history dt \<and> quiet w w'"
proof -
  obtain a d1 w1 where a: "digestBIOS ds w srcDisk (tMountpoint src) = (a, d1, w1)" by (metis prod.exhaust)
  obtain b d2 w2 where b: "digestBIOS dt w1 dstDisk dst = (b, d2, w2)" by (metis prod.exhaust)
  obtain e w3 where v: "sourceVerified peOpen w2 src = (e, w3)" by fastforce
  note da = digestBIOS_quiet [OF a] and db = digestBIOS_quiet [OF b] and sv = sourceVerified_holds [OF v assms(2)]
  have q: "quiet w w2" using da db by (blast intro: quiet_trans)
  then have f: "files w2 = files w" by (simp add: quiet_def)
  then obtain x where x: "e = Some x" using sv assms(3) by (cases e) auto
  have "quiet w w3" using q sv by (blast intro: quiet_trans)
  then show ?thesis
    using assms(1) q db unfolding repairMember_def digestMember_def by (auto simp: a b v x split: if_splits)
qed

text \<open>When every verdict is that a member is in line, all members agree in every part of the reference.\<close>

lemma digestDiff_empty: "digestDiff P ref d = [] \<longleftrightarrow> (\<forall>(name, s) \<in> set (dFiles ref). P name \<longrightarrow> map_of (dFiles d) name = Some s)"
  by (auto simp: digestDiff_def filter_empty_conv)

lemma sliceStable_set: "set (sliceStable lt xs) = set xs"
proof -
  have "set (foldl (\<lambda>ys x. insertBack lt x ys) zs xs) = set zs \<union> set xs" for zs
    by (induction xs arbitrary: zs) auto
  then show ?thesis by (simp add: sliceStable_def)
qed

lemma compareOne_InLine: "compareOne ref d = InLine \<longleftrightarrow> fst d = fst ref \<and> digestDiff (\<lambda>_. True) (snd ref) (snd d) = []"
  by (auto simp: compareOne_def Let_def)

lemma compareMembers_in_line:
  assumes "2 \<le> length ds" "\<forall>v \<in> set (compareMembers ds). v = InLine"
  shows "\<exists>ref \<in> set ds. \<forall>d \<in> set ds. d = ref \<or>
    fst d = fst ref \<and> (\<forall>(name, s) \<in> set (dFiles (snd ref)). map_of (dFiles (snd d)) name = Some s)"
proof -
  let ?s = "sliceStable digestLess ds"
  have ne: "?s \<noteq> []" using assms(1) sliceStable_set [of digestLess ds] by (cases ds) auto
  then have set: "set ds = insert (hd ?s) (set (tl ?s))"
    using sliceStable_set [of digestLess ds] by (metis list.collapse list.simps(15))
  have "fst d = fst (hd ?s) \<and> digestDiff (\<lambda>_. True) (snd (hd ?s)) (snd d) = []" if "d \<in> set (tl ?s)" for d
    using assms that by (simp add: compareMembers_def Let_def compareOne_InLine)
  then show ?thesis
    unfolding digestDiff_empty set by (intro bexI [of _ "hd ?s"]) auto
qed

end
