(* ===== verification/Nvlist.thy ===== *)
theory Nvlist
  imports Go_Strings "HOL-Library.Char_ord" "HOL-Library.List_Lexorder"
begin

text \<open>
  The decoder of packed OpenZFS name/value lists (\<open>internal/zfsnative/nvlist.go\<close>), with the encoder its tests
  use (\<open>nvlist_encode_test.go\<close>) as the description of the wire format.

  A Go slice or index expression that may be out of range is written with \<open>gslice\<close> or \<open>gindex\<close>, whose
  failure is the value \<open>NvPanic\<close>.  (A Go slice expression panics only past the capacity of its operand; asking
  for the length is stricter, so the absence of \<open>NvPanic\<close> is the stronger statement.)  The recursion of
  \<open>decodeBody\<close>, \<open>decodePair\<close> and the array loop runs on fuel; \<open>NvFuel\<close> is the value of a run that does not
  end.  Every round of the loop consumes input, so the length of the buffer is fuel enough.

  A Go map has no order.  It is represented by the association list that is strictly sorted by key, which
  exists once for every map, so that equal lss are equal maps.
\<close>

section \<open>Values\<close>

datatype byteOrder = LittleEndian | BigEndian

datatype nv_value =
    NvBoolean
  | NvBool bool
  | NvByte byte
  | NvByteArray bytes
  | NvUint8Array bytes
  | NvUint64 u64
  | NvInt64 u64
  | NvUint32 u32
  | NvInt32 u32
  | NvString bytes
  | NvUint64Array "u64 list"
  | NvStringArray "bytes list"
  | NvList "(bytes \<times> nv_value) list"
  | NvListArray "(bytes \<times> nv_value) list list"

type_synonym nvlist = "(bytes \<times> nv_value) list"

text \<open>Assignment \<open>out[name] = v\<close> to a map.\<close>

fun nv_put :: "bytes \<Rightarrow> nv_value \<Rightarrow> nvlist \<Rightarrow> nvlist" where
  "nv_put k v [] = [(k, v)]"
| "nv_put k v ((k', v') # l) =
     (if k = k' then (k, v) # l else if k < k' then (k, v) # (k', v') # l else (k', v') # nv_put k v l)"

datatype nv_error =
    ShortBuffer | NotNative | TruncatedHeader | Truncated | BadSize | BadNameSize | BadValueOffset
  | TooDeep | NegativeCount | CountTooLarge | CountExceedsBuffer | ValueTooShort | NoTerminator
  | ElementPastRegion | UnsupportedType

datatype nv_fault = NvPanic | NvFuel | NvError nv_error

definition gslice :: "bytes \<Rightarrow> nat \<Rightarrow> nat \<Rightarrow> nv_fault + bytes" where
  "gslice b i j = (if i \<le> j \<and> j \<le> length b then Inr (sl b i j) else Inl NvPanic)"

definition gindex :: "bytes \<Rightarrow> nat \<Rightarrow> nv_fault + byte" where
  "gindex b i = (if i < length b then Inr (b ! i) else Inl NvPanic)"

definition boVal :: "byteOrder \<Rightarrow> bytes \<Rightarrow> nat" where
  "boVal bo b = (case bo of LittleEndian \<Rightarrow> le_val b | BigEndian \<Rightarrow> be_val b)"

definition boUint16 :: "byteOrder \<Rightarrow> bytes \<Rightarrow> u16" where "boUint16 bo b = word_of_nat (boVal bo b)"
definition boUint32 :: "byteOrder \<Rightarrow> bytes \<Rightarrow> u32" where "boUint32 bo b = word_of_nat (boVal bo b)"
definition boUint64 :: "byteOrder \<Rightarrow> bytes \<Rightarrow> u64" where "boUint64 bo b = word_of_nat (boVal bo b)"

section \<open>Constants\<close>

definition nvEncodeNative :: nat where "nvEncodeNative = 0"
definition nvBigEndian :: nat where "nvBigEndian = 0"
definition nvLittleEndian :: nat where "nvLittleEndian = 1"
definition dataTypeBoolean :: int where "dataTypeBoolean = 1"
definition dataTypeByte :: int where "dataTypeByte = 2"
definition dataTypeInt32 :: int where "dataTypeInt32 = 5"
definition dataTypeUint32 :: int where "dataTypeUint32 = 6"
definition dataTypeInt64 :: int where "dataTypeInt64 = 7"
definition dataTypeUint64 :: int where "dataTypeUint64 = 8"
definition dataTypeString :: int where "dataTypeString = 9"
definition dataTypeByteArray :: int where "dataTypeByteArray = 10"
definition dataTypeUint64Array :: int where "dataTypeUint64Array = 16"
definition dataTypeStringArray :: int where "dataTypeStringArray = 17"
definition dataTypeNVList :: int where "dataTypeNVList = 19"
definition dataTypeNVListArray :: int where "dataTypeNVListArray = 20"
definition dataTypeBooleanValue :: int where "dataTypeBooleanValue = 21"
definition dataTypeUint8Array :: int where "dataTypeUint8Array = 26"

lemmas dataType_defs =
  dataTypeBoolean_def dataTypeByte_def dataTypeInt32_def dataTypeUint32_def dataTypeInt64_def
  dataTypeUint64_def dataTypeString_def dataTypeByteArray_def dataTypeUint64Array_def
  dataTypeStringArray_def dataTypeNVList_def dataTypeNVListArray_def dataTypeBooleanValue_def
  dataTypeUint8Array_def

definition nvpairHdrLen :: nat where "nvpairHdrLen = 16"
definition nvlistHdrLen :: nat where "nvlistHdrLen = 8"
definition maxDecodeElems :: int where "maxDecodeElems = 2 ^ 20"
definition maxNVListDepth :: nat where "maxNVListDepth = 64"

definition nvAlign8 :: "nat \<Rightarrow> nat" where "nvAlign8 n = (n + 7) div 8 * 8"

definition hostOrderFor :: "nat \<Rightarrow> byteOrder \<times> nat" where
  "hostOrderFor lowByte = (if lowByte = 1 then (LittleEndian, nvLittleEndian) else (BigEndian, nvBigEndian))"

section \<open>The decoder\<close>

definition checkElemCount :: "int \<Rightarrow> nat \<Rightarrow> nat \<Rightarrow> nv_fault + unit" where
  "checkElemCount nelem elemSize available =
     (if nelem < 0 then Inl (NvError NegativeCount)
      else if nelem > maxDecodeElems then Inl (NvError CountTooLarge)
      else if elemSize > 0 \<and> nelem > int (available div elemSize) then Inl (NvError CountExceedsBuffer)
      else Inr ())"

definition requireBytes :: "bytes \<Rightarrow> nat \<Rightarrow> nv_fault + unit" where
  "requireBytes val n = (if length val < n then Inl (NvError ValueTooShort) else Inr ())"

definition cstr :: "bytes \<Rightarrow> nv_fault + bytes" where
  "cstr b = (if CHR 0x00 \<in> set b then Inr (takeWhile (\<lambda>c. c \<noteq> CHR 0x00) b) else Inl (NvError NoTerminator))"

fun uint64Loop :: "byteOrder \<Rightarrow> bytes \<Rightarrow> nat \<Rightarrow> nat \<Rightarrow> nv_fault + u64 list" where
  "uint64Loop bo val i 0 = Inr []"
| "uint64Loop bo val i (Suc n) =
     bindE (gslice val (i * 8) (i * 8 + 8)) (\<lambda>b.
     bindE (uint64Loop bo val (Suc i) n) (\<lambda>us. Inr (boUint64 bo b # us)))"

fun stringLoop :: "bytes \<Rightarrow> nat \<Rightarrow> nat \<Rightarrow> nv_fault + bytes list" where
  "stringLoop val off 0 = Inr []"
| "stringLoop val off (Suc n) =
     (if off > length val then Inl (NvError ElementPastRegion)
      else bindE (gslice val off (length val)) (\<lambda>b.
           bindE (cstr b) (\<lambda>s.
           bindE (stringLoop val (off + length s + 1) n) (\<lambda>ss. Inr (s # ss)))))"

definition decodeScalar :: "byteOrder \<Rightarrow> int \<Rightarrow> int \<Rightarrow> bytes \<Rightarrow> nv_fault + nv_value" where
  "decodeScalar bo typ nelem val =
     (if typ = dataTypeBoolean then Inr NvBoolean
      else if typ = dataTypeBooleanValue then
        bindE (requireBytes val 4) (\<lambda>_. bindE (gslice val 0 4) (\<lambda>b. Inr (NvBool (boUint32 bo b \<noteq> 0))))
      else if typ = dataTypeByte then
        bindE (requireBytes val 1) (\<lambda>_. bindE (gindex val 0) (\<lambda>c. Inr (NvByte c)))
      else if typ = dataTypeByteArray then
        bindE (checkElemCount nelem 1 (length val)) (\<lambda>_. bindE (gslice val 0 (nat nelem)) (\<lambda>b. Inr (NvByteArray b)))
      else if typ = dataTypeUint8Array then
        bindE (checkElemCount nelem 1 (length val)) (\<lambda>_. bindE (gslice val 0 (nat nelem)) (\<lambda>b. Inr (NvUint8Array b)))
      else if typ = dataTypeUint64 then
        bindE (requireBytes val 8) (\<lambda>_. bindE (gslice val 0 8) (\<lambda>b. Inr (NvUint64 (boUint64 bo b))))
      else if typ = dataTypeInt64 then
        bindE (requireBytes val 8) (\<lambda>_. bindE (gslice val 0 8) (\<lambda>b. Inr (NvInt64 (boUint64 bo b))))
      else if typ = dataTypeUint32 then
        bindE (requireBytes val 4) (\<lambda>_. bindE (gslice val 0 4) (\<lambda>b. Inr (NvUint32 (boUint32 bo b))))
      else if typ = dataTypeInt32 then
        bindE (requireBytes val 4) (\<lambda>_. bindE (gslice val 0 4) (\<lambda>b. Inr (NvInt32 (boUint32 bo b))))
      else if typ = dataTypeString then
        bindE (cstr val) (\<lambda>s. Inr (NvString s))
      else if typ = dataTypeUint64Array then
        bindE (checkElemCount nelem 8 (length val)) (\<lambda>_.
        bindE (uint64Loop bo val 0 (nat nelem)) (\<lambda>us. Inr (NvUint64Array us)))
      else if typ = dataTypeStringArray then
        bindE (checkElemCount nelem 8 (length val)) (\<lambda>_.
        bindE (stringLoop val (nat nelem * 8) (nat nelem)) (\<lambda>ss. Inr (NvStringArray ss)))
      else Inl (NvError UnsupportedType))"

text \<open>The fixed part of a pair: its name, type, element count and value region.\<close>

definition pairHeader :: "byteOrder \<Rightarrow> bytes \<Rightarrow> nat \<Rightarrow> nat \<Rightarrow> nv_fault + bytes \<times> int \<times> int \<times> bytes" where
  "pairHeader bo buf pos psize =
     bindE (gslice buf pos (pos + psize)) (\<lambda>b.
     bindE (gslice b 4 6) (\<lambda>nsz.
     bindE (gslice b 8 12) (\<lambda>ne.
     bindE (gslice b 12 16) (\<lambda>ty.
     let nameSz = unat (boUint16 bo nsz);
         nelem = sint (boUint32 bo ne);
         typ = sint (boUint32 bo ty)
     in if nameSz < 1 \<or> nvpairHdrLen + nameSz > psize then Inl (NvError BadNameSize)
        else bindE (gslice b 16 (16 + nameSz - 1)) (\<lambda>name.
             let valOff = nvAlign8 (nvpairHdrLen + nameSz)
             in if valOff > psize then Inl (NvError BadValueOffset)
                else bindE (gslice b valOff psize) (\<lambda>val. Inr (name, typ, nelem, val)))))))"

text \<open>\<open>decodePair\<close> calls \<open>decodeBody\<close> for nested lss; \<open>nested depth pos\<close> is that call.\<close>

fun decodeLists :: "(nat \<Rightarrow> nv_fault + nvlist \<times> nat) \<Rightarrow> nat \<Rightarrow> nat \<Rightarrow> nv_fault + nvlist list \<times> nat" where
  "decodeLists nested pos 0 = Inr ([], pos)"
| "decodeLists nested pos (Suc n) =
     bindE (nested pos) (\<lambda>(l, pos').
     bindE (decodeLists nested pos' n) (\<lambda>(ls, pos''). Inr (l # ls, pos'')))"

definition decodePair :: "(nat \<Rightarrow> nat \<Rightarrow> nv_fault + nvlist \<times> nat) \<Rightarrow> byteOrder \<Rightarrow> bytes \<Rightarrow> nat \<Rightarrow> nat \<Rightarrow> nat
    \<Rightarrow> nv_fault + bytes \<times> nv_value \<times> nat" where
  "decodePair nested bo buf depth pos psize =
     bindE (pairHeader bo buf pos psize) (\<lambda>(name, typ, nelem, val).
     let pos' = pos + psize
     in if typ = dataTypeNVList then
          (if depth + 1 > maxNVListDepth then Inl (NvError TooDeep)
           else bindE (nested (depth + 1) pos') (\<lambda>(l, pos''). Inr (name, NvList l, pos'')))
        else if typ = dataTypeNVListArray then
          bindE (checkElemCount nelem 4 (length buf - pos')) (\<lambda>_.
          if depth + 1 > maxNVListDepth then Inl (NvError TooDeep)
          else bindE (decodeLists (nested (depth + 1)) pos' (nat nelem)) (\<lambda>(ls, pos''). Inr (name, NvListArray ls, pos'')))
        else bindE (decodeScalar bo typ nelem val) (\<lambda>v. Inr (name, v, pos')))"

primrec decodeBody :: "nat \<Rightarrow> byteOrder \<Rightarrow> bytes \<Rightarrow> nvlist \<Rightarrow> nat \<Rightarrow> nat \<Rightarrow> nv_fault + nvlist \<times> nat" where
  "decodeBody 0 bo buf out depth pos = Inl NvFuel"
| "decodeBody (Suc fuel) bo buf out depth pos =
     (if pos + 4 > length buf then Inl (NvError Truncated)
      else bindE (gslice buf pos (pos + 4)) (\<lambda>szb.
        let psize = sint (boUint32 bo szb)
        in if psize = 0 then Inr (out, pos + 4)
           else if psize < int nvpairHdrLen \<or> int pos + psize > int (length buf) then Inl (NvError BadSize)
           else bindE (decodePair (decodeBody fuel bo buf []) bo buf depth pos (nat psize)) (\<lambda>(name, v, pos').
                decodeBody fuel bo buf (nv_put name v out) depth pos')))"

definition decodeList :: "byteOrder \<Rightarrow> bytes \<Rightarrow> nat \<Rightarrow> nv_fault + nvlist" where
  "decodeList bo buf pos =
     (if pos + nvlistHdrLen > length buf then Inl (NvError TruncatedHeader)
      else bindE (decodeBody (length buf) bo buf [] 0 (pos + nvlistHdrLen)) (\<lambda>(l, _). Inr l))"

definition DecodeNative :: "bytes \<Rightarrow> nv_fault + nvlist" where
  "DecodeNative b =
     (if length b < 4 then Inl (NvError ShortBuffer)
      else bindE (gindex b 0) (\<lambda>enc. bindE (gindex b 1) (\<lambda>endian.
           if of_char enc \<noteq> nvEncodeNative then Inl (NvError NotNative)
           else decodeList (if of_char endian = nvBigEndian then BigEndian else LittleEndian) b 4)))"

section \<open>The encoder\<close>

definition boBytes :: "byteOrder \<Rightarrow> nat \<Rightarrow> nat \<Rightarrow> bytes" where
  "boBytes bo n v = (case bo of LittleEndian \<Rightarrow> le_bytes n v | BigEndian \<Rightarrow> be_bytes n v)"

definition zeros :: "nat \<Rightarrow> bytes" where "zeros n = replicate n (CHR 0x00)"

definition packedNvlistT :: "byteOrder \<Rightarrow> bytes" where
  "packedNvlistT bo = boBytes bo 4 0 @ boBytes bo 4 1 @ zeros 16"

text \<open>\<open>encodePair\<close>, given what \<open>encodeValue\<close> made of the value: the bytes in the pair, the bytes after it, the
  type and the element count.\<close>

definition encodePair :: "byteOrder \<Rightarrow> bytes \<Rightarrow> bytes \<times> bytes \<times> int \<times> nat \<Rightarrow> bytes" where
  "encodePair bo name enc =
     (case enc of (val, trailer, typ, nelem) \<Rightarrow>
        let nameSz = length name + 1;
            valOff = nvAlign8 (nvpairHdrLen + nameSz);
            psize = valOff + nvAlign8 (length val)
        in boBytes bo 4 psize @ boBytes bo 2 nameSz @ boBytes bo 2 0 @ boBytes bo 4 nelem @ boBytes bo 4 (nat typ)
           @ name @ zeros (valOff - 16 - length name) @ val @ zeros (nvAlign8 (length val) - length val) @ trailer)"

function encodeValue :: "byteOrder \<Rightarrow> nv_value \<Rightarrow> bytes \<times> bytes \<times> int \<times> nat" where
  "encodeValue bo NvBoolean = ([], [], dataTypeBoolean, 0)"
| "encodeValue bo (NvBool x) = (boBytes bo 4 (if x then 1 else 0), [], dataTypeBooleanValue, 1)"
| "encodeValue bo (NvByte x) = ([x], [], dataTypeByte, 1)"
| "encodeValue bo (NvByteArray x) = (x, [], dataTypeByteArray, length x)"
| "encodeValue bo (NvUint8Array x) = (x, [], dataTypeUint8Array, length x)"
| "encodeValue bo (NvUint64 x) = (boBytes bo 8 (unat x), [], dataTypeUint64, 1)"
| "encodeValue bo (NvInt64 x) = (boBytes bo 8 (unat x), [], dataTypeInt64, 1)"
| "encodeValue bo (NvUint32 x) = (boBytes bo 4 (unat x), [], dataTypeUint32, 1)"
| "encodeValue bo (NvInt32 x) = (boBytes bo 4 (unat x), [], dataTypeInt32, 1)"
| "encodeValue bo (NvString x) = (x @ [CHR 0x00], [], dataTypeString, 1)"
| "encodeValue bo (NvUint64Array x) = (concat (map (\<lambda>u. boBytes bo 8 (unat u)) x), [], dataTypeUint64Array, length x)"
| "encodeValue bo (NvStringArray x) =
     (zeros (length x * 8) @ concat (map (\<lambda>s. s @ [CHR 0x00]) x), [], dataTypeStringArray, length x)"
| "encodeValue bo (NvList nv) =
     (packedNvlistT bo, concat (map (\<lambda>p. encodePair bo (fst p) (encodeValue bo (snd p))) nv) @ zeros 4, dataTypeNVList, 1)"
| "encodeValue bo (NvListArray lss) =
     (zeros (length lss * 8) @ concat (map (\<lambda>_. packedNvlistT bo) lss),
      concat (map (\<lambda>nv. concat (map (\<lambda>p. encodePair bo (fst p) (encodeValue bo (snd p))) nv) @ zeros 4) lss),
      dataTypeNVListArray, length lss)"
  by pat_completeness auto

lemma size_in_list: "p \<in> set nv \<Longrightarrow> size (snd p) < Suc (size_list (size_prod (\<lambda>_. 0) size) nv)"
  by (induction nv) (auto simp: less_Suc_eq_le)

lemma size_in_lists:
  "nv \<in> set lss \<Longrightarrow> p \<in> set nv \<Longrightarrow> size (snd p) < Suc (size_list (size_list (size_prod (\<lambda>_. 0) size)) lss)"
  by (induction lss) (auto dest: size_in_list)

termination encodeValue
  by (relation "measure (\<lambda>(_, v). size v)") (auto simp: size_in_list size_in_lists)

definition encodeBody :: "byteOrder \<Rightarrow> nvlist \<Rightarrow> bytes" where
  "encodeBody bo nv = concat (map (\<lambda>p. encodePair bo (fst p) (encodeValue bo (snd p))) nv) @ zeros 4"

definition EncodeNative :: "byteOrder \<times> nat \<Rightarrow> nvlist \<Rightarrow> bytes" where
  "EncodeNative host nv =
     [char_of nvEncodeNative, char_of (snd host), CHR 0x00, CHR 0x00]
     @ boBytes (fst host) 4 0 @ boBytes (fst host) 4 1 @ encodeBody (fst host) nv"

section \<open>Well-formed lists\<close>

definition sortedKeys :: "nvlist \<Rightarrow> bool" where
  "sortedKeys nv \<longleftrightarrow> sorted_wrt (<) (map fst nv)"

definition maxName :: nat where "maxName = 65535"

text \<open>\<open>wf_nv d v\<close>: \<open>v\<close> nests at most \<open>d\<close> lists deep, its maps are maps, its arrays have at most the
  permitted number of elements and its strings hold no NUL.\<close>

function wf_nv :: "nat \<Rightarrow> nv_value \<Rightarrow> bool" where
  "wf_nv d NvBoolean \<longleftrightarrow> True"
| "wf_nv d (NvBool x) \<longleftrightarrow> True"
| "wf_nv d (NvByte x) \<longleftrightarrow> True"
| "wf_nv d (NvByteArray x) \<longleftrightarrow> int (length x) \<le> maxDecodeElems"
| "wf_nv d (NvUint8Array x) \<longleftrightarrow> int (length x) \<le> maxDecodeElems"
| "wf_nv d (NvUint64 x) \<longleftrightarrow> True"
| "wf_nv d (NvInt64 x) \<longleftrightarrow> True"
| "wf_nv d (NvUint32 x) \<longleftrightarrow> True"
| "wf_nv d (NvInt32 x) \<longleftrightarrow> True"
| "wf_nv d (NvString x) \<longleftrightarrow> CHR 0x00 \<notin> set x"
| "wf_nv d (NvUint64Array x) \<longleftrightarrow> int (length x) \<le> maxDecodeElems"
| "wf_nv d (NvStringArray x) \<longleftrightarrow> int (length x) \<le> maxDecodeElems \<and> (\<forall>s \<in> set x. CHR 0x00 \<notin> set s)"
| "wf_nv d (NvList nv) \<longleftrightarrow>
     d > 0 \<and> sortedKeys nv \<and> (\<forall>p \<in> set nv. length (fst p) < maxName \<and> wf_nv (d - 1) (snd p))"
| "wf_nv d (NvListArray lss) \<longleftrightarrow>
     d > 0 \<and> int (length lss) \<le> maxDecodeElems \<and>
     (\<forall>nv \<in> set lss. sortedKeys nv \<and> (\<forall>p \<in> set nv. length (fst p) < maxName \<and> wf_nv (d - 1) (snd p)))"
  by pat_completeness auto

termination wf_nv
  by (relation "measure (\<lambda>(_, v). size v)") (auto simp: size_in_list size_in_lists)

definition wf_nvlist :: "nat \<Rightarrow> nvlist \<Rightarrow> bool" where
  "wf_nvlist d nv \<longleftrightarrow> sortedKeys nv \<and> (\<forall>p \<in> set nv. length (fst p) < maxName \<and> wf_nv d (snd p))"

lemma wf_nv_NvList: "wf_nv (Suc d) (NvList nv) \<longleftrightarrow> wf_nvlist d nv"
  by (auto simp: wf_nvlist_def)

lemma wf_nv_NvListArray:
  "wf_nv (Suc d) (NvListArray lss) \<longleftrightarrow> int (length lss) \<le> maxDecodeElems \<and> (\<forall>nv \<in> set lss. wf_nvlist d nv)"
  by (auto simp: wf_nvlist_def)

lemma set_nv_put: "set (nv_put k v l) \<subseteq> insert (k, v) (set l)"
  by (induction k v l rule: nv_put.induct) auto

lemma sortedKeys_put: "sortedKeys l \<Longrightarrow> sortedKeys (nv_put k v l)"
proof (induction k v l rule: nv_put.induct)
  case (2 k v k' v' l)
  have "\<And>p. p \<in> set (nv_put k v l) \<Longrightarrow> p = (k, v) \<or> p \<in> set l"
    using set_nv_put [of k v l] by blast
  with 2 show ?case by (force simp: sortedKeys_def)
qed (simp add: sortedKeys_def)

lemma wf_nvlist_put: "wf_nvlist d l \<Longrightarrow> length k < maxName \<Longrightarrow> wf_nv d v \<Longrightarrow> wf_nvlist d (nv_put k v l)"
  using set_nv_put [of k v l] by (fastforce simp: wf_nvlist_def sortedKeys_put)

lemma nv_put_last:
  "\<forall>p \<in> set l. fst p < k \<Longrightarrow> nv_put k v l = l @ [(k, v)]"
  by (induction l) (auto split: prod.splits)

section \<open>The decoder never panics and always ends\<close>

definition decodes :: "nv_fault + 'a \<Rightarrow> ('a \<Rightarrow> bool) \<Rightarrow> bool" where
  "decodes m P \<longleftrightarrow> (case m of Inl NvPanic \<Rightarrow> False | Inl NvFuel \<Rightarrow> False | Inl (NvError _) \<Rightarrow> True | Inr x \<Rightarrow> P x)"

named_theorems decodes_intros

lemma decodes_simps [simp]:
  "decodes (Inr x) P = P x" "decodes (Inl (NvError e)) P" "\<not> decodes (Inl NvPanic) P" "\<not> decodes (Inl NvFuel) P"
  by (simp_all add: decodes_def)

lemma decodes_bind: "decodes m Q \<Longrightarrow> (\<And>x. Q x \<Longrightarrow> decodes (f x) P) \<Longrightarrow> decodes (bindE m f) P"
  by (cases m) (auto simp: decodes_def split: nv_fault.splits)

lemma decodes_mono: "decodes m Q \<Longrightarrow> (\<And>x. Q x \<Longrightarrow> P x) \<Longrightarrow> decodes m P"
  by (auto simp: decodes_def split: nv_fault.splits sum.splits)

lemma decodes_gslice: "i \<le> j \<Longrightarrow> j \<le> length b \<Longrightarrow> gslice b i j = Inr (sl b i j)"
  by (simp add: gslice_def)

lemma decodes_checkElemCount:
  "decodes (checkElemCount nelem k avail) (\<lambda>_. 0 \<le> nelem \<and> nelem \<le> maxDecodeElems \<and> (k > 0 \<longrightarrow> nat nelem * k \<le> avail))"
proof (cases "0 \<le> nelem \<and> 0 < k \<and> nelem \<le> int (avail div k)")
  case True
  then have "nat nelem \<le> avail div k" by arith
  then have "nat nelem * k \<le> avail div k * k" by simp
  also have "\<dots> \<le> avail" by simp
  finally show ?thesis using True by (simp add: checkElemCount_def)
qed (auto simp: checkElemCount_def)

lemma decodes_requireBytes: "decodes (requireBytes val n) (\<lambda>_. n \<le> length val)"
  by (simp add: requireBytes_def)

lemma decodes_cstr: "decodes (cstr b) (\<lambda>s. CHR 0x00 \<notin> set s \<and> length s < length b)"
  using length_takeWhile_inside [of "CHR 0x00" b "\<lambda>c. c \<noteq> CHR 0x00"]
  by (auto simp: cstr_def dest: set_takeWhileD)

lemma decodes_uint64Loop:
  "(i + n) * 8 \<le> length val \<Longrightarrow> decodes (uint64Loop bo val i n) (\<lambda>us. length us = n)"
proof (induction bo val i n rule: uint64Loop.induct)
  case (2 bo val i n)
  have "decodes (uint64Loop bo val (Suc i) n) (\<lambda>us. length us = n)" using 2 by simp
  then show ?case using 2(2) by (auto simp: decodes_gslice intro: decodes_bind)
qed simp

lemma decodes_stringLoop:
  "decodes (stringLoop val off n) (\<lambda>ss. length ss = n \<and> (\<forall>s \<in> set ss. CHR 0x00 \<notin> set s))"
proof (induction n arbitrary: off)
  case (Suc n)
  have "decodes (bindE (cstr b) (\<lambda>s. bindE (stringLoop val (off + length s + 1) n) (\<lambda>ss. Inr (s # ss))))
      (\<lambda>ss. length ss = Suc n \<and> (\<forall>s \<in> set ss. CHR 0x00 \<notin> set s))" for b
    by (rule decodes_bind [OF decodes_cstr], rule decodes_bind [OF Suc.IH]) auto
  then show ?case by (simp add: decodes_gslice)
qed simp

lemma decodes_required:
  "(n \<le> length val \<Longrightarrow> decodes m P) \<Longrightarrow> decodes (bindE (requireBytes val n) (\<lambda>_. m)) P"
  by (rule decodes_bind [OF decodes_requireBytes])

lemma decodes_counted:
  "(0 \<le> nelem \<Longrightarrow> nelem \<le> maxDecodeElems \<Longrightarrow> nat nelem * k \<le> avail \<Longrightarrow> decodes m P) \<Longrightarrow> 0 < k \<Longrightarrow>
     decodes (bindE (checkElemCount nelem k avail) (\<lambda>_. m)) P"
  by (rule decodes_bind [OF decodes_checkElemCount]) simp

lemma decodes_if: "(c \<Longrightarrow> decodes m P) \<Longrightarrow> (\<not> c \<Longrightarrow> decodes m' P) \<Longrightarrow> decodes (if c then m else m') P"
  by simp

lemma decodes_decodeScalar: "decodes (decodeScalar bo ty nelem val) (wf_nv d)"
proof -
  have "decodes (bindE (cstr val) (\<lambda>s. Inr (NvString s))) (wf_nv d)"
    by (rule decodes_bind [OF decodes_cstr]) simp
  moreover have "decodes (bindE (uint64Loop bo val 0 (nat nelem)) (\<lambda>us. Inr (NvUint64Array us))) (wf_nv d)"
    if "0 \<le> nelem" "nelem \<le> maxDecodeElems" "nat nelem * 8 \<le> length val"
    by (rule decodes_bind [OF decodes_uint64Loop]) (use that in simp_all)
  moreover have "decodes (bindE (stringLoop val (nat nelem * 8) (nat nelem)) (\<lambda>ss. Inr (NvStringArray ss))) (wf_nv d)"
    if "0 \<le> nelem" "nelem \<le> maxDecodeElems"
    by (rule decodes_bind [OF decodes_stringLoop]) (use that in simp)
  ultimately show ?thesis
    unfolding decodeScalar_def
    by (intro decodes_if decodes_required decodes_counted) (simp_all add: decodes_gslice gindex_def Suc_le_eq)
qed

lemma nvAlign8_ge: "n \<le> nvAlign8 n" "nvAlign8 n < n + 8"
  unfolding nvAlign8_def by arith+

lemma name_length: "n < 65536 \<Longrightarrow> n - Suc 0 < 65535"
  by arith

lemma decodes_pairHeader:
  assumes "16 \<le> psize" "pos + psize \<le> length buf"
  shows "decodes (pairHeader bo buf pos psize) (\<lambda>(name, typ, nelem, val). length name < maxName)"
proof -
  have "unat (w :: u16) < 65536" for w
    using unsigned_less [where 'a = nat, of w] by simp
  then have w: "unat (w :: u16) - Suc 0 < 65535" for w
    by (rule name_length)
  show ?thesis using assms
    by (auto simp: pairHeader_def decodes_gslice Let_def nvpairHdrLen_def maxName_def w)
qed

lemma decodes_decodeLists:
  assumes "\<And>p. lo \<le> p \<Longrightarrow> p \<le> len \<Longrightarrow> decodes (nested p) (\<lambda>(l, p'). W l \<and> p + 4 \<le> p' \<and> p' \<le> len)"
  shows "lo \<le> pos \<Longrightarrow> pos \<le> len \<Longrightarrow>
    decodes (decodeLists nested pos n) (\<lambda>(ls, p'). length ls = n \<and> (\<forall>l \<in> set ls. W l) \<and> pos \<le> p' \<and> p' \<le> len)"
proof (induction n arbitrary: pos)
  case (Suc n)
  show ?case using Suc.prems
    by (auto intro!: decodes_bind [OF assms] decodes_bind [OF Suc.IH])
qed simp

lemma decodes_decodePair:
  assumes nested: "\<And>p. pos + psize \<le> p \<Longrightarrow> p \<le> length buf \<Longrightarrow> depth < maxNVListDepth \<Longrightarrow>
      decodes (nested (Suc depth) p) (\<lambda>(l, p'). wf_nvlist (maxNVListDepth - Suc depth) l \<and> p + 4 \<le> p' \<and> p' \<le> length buf)"
    and k: "16 \<le> psize" "pos + psize \<le> length buf"
  shows "decodes (decodePair nested bo buf depth pos psize)
    (\<lambda>(name, v, p'). length name < maxName \<and> wf_nv (maxNVListDepth - depth) v \<and> pos + psize \<le> p' \<and> p' \<le> length buf)"
  unfolding decodePair_def
proof (rule decodes_bind [OF decodes_pairHeader [OF k]], goal_cases)
  case (1 x)
  obtain name ty nelem val where x: "x = (name, ty, nelem, val)" by (cases x)
  let ?P = "\<lambda>(name, v, p'). length name < maxName \<and> wf_nv (maxNVListDepth - depth) v \<and> pos + psize \<le> p' \<and> p' \<le> length buf"
  have name: "length name < maxName" using 1 x by simp
  have wf: "wf_nv (maxNVListDepth - depth) (NvList l) = wf_nvlist (maxNVListDepth - Suc depth) l"
    "wf_nv (maxNVListDepth - depth) (NvListArray ls) \<longleftrightarrow> int (length ls) \<le> maxDecodeElems
      \<and> (\<forall>nv \<in> set ls. wf_nvlist (maxNVListDepth - Suc depth) nv)" if "depth < maxNVListDepth" for l ls
    using that wf_nv_NvList [of "maxNVListDepth - Suc depth" l] wf_nv_NvListArray [of "maxNVListDepth - Suc depth" ls]
    by (simp_all add: Suc_diff_Suc del: wf_nv.simps)
  have one: "decodes (bindE (nested (Suc depth) (pos + psize)) (\<lambda>(l, pos''). Inr (name, NvList l, pos''))) ?P"
    if "depth < maxNVListDepth"
    by (rule decodes_bind [OF nested]) (use that k name in \<open>auto simp: wf simp del: wf_nv.simps\<close>)
  have many: "decodes (bindE (decodeLists (nested (Suc depth)) (pos + psize) (nat nelem)) (\<lambda>(ls, pos''). Inr (name, NvListArray ls, pos''))) ?P"
    if "depth < maxNVListDepth" "0 \<le> nelem" "nelem \<le> maxDecodeElems"
    by (rule decodes_bind [OF decodes_decodeLists [OF nested]])
      (use that k name in \<open>auto simp: wf simp del: wf_nv.simps\<close>)
  have scalar: "decodes (bindE (decodeScalar bo ty nelem val) (\<lambda>v. Inr (name, v, pos + psize))) ?P"
    by (rule decodes_bind [OF decodes_decodeScalar]) (use k name in auto)
  have count: "decodes (bindE (checkElemCount nelem 4 avail) (\<lambda>_. if maxNVListDepth < Suc depth then Inl (NvError TooDeep)
      else bindE (decodeLists (nested (Suc depth)) (pos + psize) (nat nelem)) (\<lambda>(ls, pos''). Inr (name, NvListArray ls, pos'')))) ?P" for avail
    by (rule decodes_bind [OF decodes_checkElemCount]) (use many in auto)
  consider "ty = dataTypeNVList" | "ty = dataTypeNVListArray" | "ty \<noteq> dataTypeNVList" "ty \<noteq> dataTypeNVListArray" by blast
  then show ?case
  proof cases
    case 1
    with one show ?thesis by (simp add: x Let_def cong: if_cong)
  next
    case 2
    with count [of "length buf - (pos + psize)"] show ?thesis by (simp add: x dataType_defs Let_def cong: if_cong)
  next
    case 3
    with scalar show ?thesis by (simp add: x Let_def)
  qed
qed

lemma decodes_decodeBody:
  "length buf < fuel + pos \<Longrightarrow> pos \<le> length buf \<Longrightarrow> wf_nvlist (maxNVListDepth - depth) out \<Longrightarrow>
     decodes (decodeBody fuel bo buf out depth pos)
       (\<lambda>(l, p'). wf_nvlist (maxNVListDepth - depth) l \<and> pos + 4 \<le> p' \<and> p' \<le> length buf)"
proof (induction fuel arbitrary: depth pos out)
  case (Suc fuel)
  have nested: "decodes (decodeBody fuel bo buf [] (Suc depth) p)
      (\<lambda>(l, p'). wf_nvlist (maxNVListDepth - Suc depth) l \<and> p + 4 \<le> p' \<and> p' \<le> length buf)"
    if "pos + k \<le> p" "16 \<le> k" "p \<le> length buf" for p k
    by (rule Suc.IH) (use that Suc.prems in \<open>simp_all add: wf_nvlist_def sortedKeys_def\<close>)
  show ?case
  proof (cases "pos + 4 \<le> length buf")
    case True
    define psize where "psize = sint (boUint32 bo (sl buf pos (pos + 4)))"
    show ?thesis
    proof (cases "psize = 0 \<or> psize < 16 \<or> int pos + psize > int (length buf)")
      case True
      then show ?thesis using \<open>pos + 4 \<le> length buf\<close> Suc.prems
        by (auto simp: decodes_gslice Let_def psize_def nvpairHdrLen_def)
    next
      case False
      then have k: "16 \<le> nat psize" "pos + nat psize \<le> length buf" by auto
      have "decodes (bindE (decodePair (decodeBody fuel bo buf []) bo buf depth pos (nat psize)) (\<lambda>(name, v, pos').
            decodeBody fuel bo buf (nv_put name v out) depth pos'))
          (\<lambda>(l, p'). wf_nvlist (maxNVListDepth - depth) l \<and> pos + 4 \<le> p' \<and> p' \<le> length buf)"
      proof (rule decodes_bind [OF decodes_decodePair [OF _ k]], goal_cases)
        case (1 p)
        then show ?case using nested [of "nat psize" p] k by simp
      next
        case (2 x)
        obtain name v p where x: "x = (name, v, p)" by (cases x)
        show ?case unfolding x prod.case
          by (rule decodes_mono [OF Suc.IH [of p]])
            (use 2 x Suc.prems k in \<open>auto intro: wf_nvlist_put\<close>)
      qed
      moreover have "decodeBody (Suc fuel) bo buf out depth pos =
          bindE (decodePair (decodeBody fuel bo buf []) bo buf depth pos (nat psize)) (\<lambda>(name, v, pos').
            decodeBody fuel bo buf (nv_put name v out) depth pos')"
        using \<open>pos + 4 \<le> length buf\<close> False by (simp add: decodes_gslice Let_def psize_def [symmetric] nvpairHdrLen_def)
      ultimately show ?thesis by simp
    qed
  next
    case False
    then show ?thesis by (simp add: not_le)
  qed
next
  case 0
  from 0(1,2) have False by simp
  then show ?case ..
qed

lemma decodes_DecodeNative: "decodes (DecodeNative b) (wf_nvlist maxNVListDepth)"
proof -
  have body: "decodes (bindE (decodeBody (length b) bo b [] 0 12) (\<lambda>(l, _). Inr l)) (wf_nvlist maxNVListDepth)"
    if "12 \<le> length b" for bo
    by (rule decodes_bind [OF decodes_decodeBody [of b "length b" 12 0 "[]" bo]])
      (use that in \<open>auto simp: wf_nvlist_def sortedKeys_def\<close>)
  show ?thesis
  proof (cases "12 \<le> length b")
    case True
    with body show ?thesis by (auto simp: DecodeNative_def decodeList_def gindex_def nvlistHdrLen_def)
  next
    case False
    then have "\<And>bo. decodeList bo b 4 = Inl (NvError TruncatedHeader)" by (simp add: decodeList_def nvlistHdrLen_def)
    then show ?thesis by (simp add: DecodeNative_def gindex_def)
  qed
qed

section \<open>The decoder inverts the encoder\<close>

lemma length_boBytes [simp]: "length (boBytes bo n v) = n"
  by (simp add: boBytes_def split: byteOrder.split)

lemma boVal_boBytes: "boVal bo (boBytes bo n v) = v mod 256 ^ n"
  by (simp add: boVal_def boBytes_def le_val_le_bytes split: byteOrder.split)

lemma boUint_boBytes:
  "v < 65536 \<Longrightarrow> unat (boUint16 bo (boBytes bo 2 v)) = v"
  "v < 2 ^ 31 \<Longrightarrow> sint (boUint32 bo (boBytes bo 4 v)) = int v"
  "boUint32 bo (boBytes bo 4 (unat (x :: u32))) = x"
  "boUint64 bo (boBytes bo 8 (unat (y :: u64))) = y"
proof -
  show "unat (boUint16 bo (boBytes bo 2 v)) = v" if "v < 65536"
    using that by (simp add: boUint16_def boVal_boBytes unsigned_of_nat take_bit_eq_mod)
  show "sint (boUint32 bo (boBytes bo 4 v)) = int v" if "v < 2 ^ 31"
  proof -
    have "boUint32 bo (boBytes bo 4 v) = word_of_int (int v)"
      using that by (simp add: boUint32_def boVal_boBytes)
    then show ?thesis using that by (simp add: signed_of_nat signed_take_bit_int_eq_self)
  qed
  show "boUint32 bo (boBytes bo 4 (unat (x :: u32))) = x"
    using unat_u32_less [of x] by (simp add: boUint32_def boVal_boBytes)
  show "boUint64 bo (boBytes bo 8 (unat (y :: u64))) = y"
    using unat_u64_less [of y] by (simp add: boUint64_def boVal_boBytes)
qed

lemma length_zeros [simp]: "length (zeros n) = n"
  by (simp add: zeros_def)

lemma length_packedNvlistT [simp]: "length (packedNvlistT bo) = 24"
  by (simp add: packedNvlistT_def)

lemma sl_prefix: "drop pos buf = x @ r \<Longrightarrow> pos \<le> length buf \<Longrightarrow> n = length x \<Longrightarrow> gslice buf pos (pos + n) = Inr x"
  by (auto simp: gslice_def sl_def dest: arg_cong [where f = length])

definition pairSize :: "bytes \<Rightarrow> bytes \<Rightarrow> nat" where
  "pairSize name val = nvAlign8 (nvpairHdrLen + (length name + 1)) + nvAlign8 (length val)"

definition pairFixed :: "byteOrder \<Rightarrow> bytes \<Rightarrow> bytes \<Rightarrow> int \<Rightarrow> nat \<Rightarrow> bytes" where
  "pairFixed bo name val ty nelem =
     boBytes bo 4 (pairSize name val) @ boBytes bo 2 (length name + 1) @ boBytes bo 2 0 @ boBytes bo 4 nelem @ boBytes bo 4 (nat ty)
     @ name @ zeros (nvAlign8 (nvpairHdrLen + (length name + 1)) - 16 - length name) @ val @ zeros (nvAlign8 (length val) - length val)"

lemma encodePair_fixed: "encodePair bo name (val, trailer, ty, nelem) = pairFixed bo name val ty nelem @ trailer"
  by (simp add: encodePair_def pairFixed_def pairSize_def Let_def)

lemma valOff_room: "nvAlign8 (nvpairHdrLen + (length name + 1)) = 17 + length name + (nvAlign8 (17 + length name) - (17 + length name))"
  using nvAlign8_ge(1) [of "17 + length name"] by (simp add: nvpairHdrLen_def)

lemma length_pairFixed: "length (pairFixed bo name val ty nelem) = pairSize name val" "17 \<le> pairSize name val"
  using nvAlign8_ge(1) [of "17 + length name"] nvAlign8_ge(1) [of "length val"]
  by (simp_all add: pairFixed_def pairSize_def nvpairHdrLen_def)

lemma pairHeader_encoded:
  assumes "drop pos buf = pairFixed bo name val ty nelem @ r" "pos \<le> length buf"
    "length name < maxName" "nelem < 2 ^ 31" "0 \<le> ty" "ty < 2 ^ 31"
  shows "pairHeader bo buf pos (pairSize name val) = Inr (name, ty, int nelem, val @ zeros (nvAlign8 (length val) - length val))"
proof -
  let ?b = "pairFixed bo name val ty nelem" and ?off = "nvAlign8 (17 + length name)"
  have b: "gslice buf pos (pos + pairSize name val) = Inr ?b"
    using assms(1,2) length_pairFixed(1) [symmetric] by (rule sl_prefix)
  have off: "17 + length name \<le> ?off" "?off \<le> pairSize name val"
    using nvAlign8_ge(1) [of "17 + length name"] by (simp_all add: pairSize_def nvpairHdrLen_def)
  have len: "length ?b = pairSize name val" by (rule length_pairFixed)
  have fixed: "?b = boBytes bo 4 (pairSize name val) @ boBytes bo 2 (length name + 1) @ boBytes bo 2 0 @ boBytes bo 4 nelem
      @ boBytes bo 4 (nat ty) @ name @ zeros (?off - 16 - length name) @ val @ zeros (nvAlign8 (length val) - length val)"
    by (simp add: pairFixed_def nvpairHdrLen_def)
  have s1: "gslice ?b 4 6 = Inr (boBytes bo 2 (length name + 1))"
    "gslice ?b 8 12 = Inr (boBytes bo 4 nelem)"
    "gslice ?b 12 16 = Inr (boBytes bo 4 (nat ty))"
    using len length_pairFixed(2) [of name val] by (simp_all add: gslice_def) (simp_all add: fixed sl_def)
  have s2: "gslice ?b 16 (16 + length name) = Inr name"
    using len off by (simp add: gslice_def) (simp add: fixed sl_def)
  have s3: "gslice ?b ?off (pairSize name val) = Inr (val @ zeros (nvAlign8 (length val) - length val))"
  proof -
    have "drop ?off ?b = val @ zeros (nvAlign8 (length val) - length val)"
      using off by (simp add: fixed)
    moreover have "length (val @ zeros (nvAlign8 (length val) - length val)) = pairSize name val - ?off"
      using len calculation by (metis length_drop)
    ultimately show ?thesis using off len by (simp add: gslice_def sl_def)
  qed
  have t: "nat ty < 2 ^ 31" using assms(6) by simp
  show ?thesis
    using assms(3-5) off t by (simp add: pairHeader_def b s1 s2 s3 boUint_boBytes Let_def maxName_def nvpairHdrLen_def)
qed

lemma cstr_encoded: "CHR 0x00 \<notin> set x \<Longrightarrow> cstr (x @ CHR 0x00 # r) = Inr x"
  by (simp add: cstr_def takeWhile_upto)

lemma uint64Loop_encoded:
  "drop (i * 8) val = concat (map (\<lambda>u. boBytes bo 8 (unat u)) us) @ r \<Longrightarrow> i * 8 \<le> length val \<Longrightarrow>
     uint64Loop bo val i (length us) = Inr us"
proof (induction us arbitrary: i)
  case (Cons u us)
  have "gslice val (i * 8) (i * 8 + 8) = Inr (boBytes bo 8 (unat u))"
    by (rule sl_prefix) (use Cons.prems in auto)
  moreover have "uint64Loop bo val (Suc i) (length us) = Inr us"
  proof (rule Cons.IH)
    have "drop (Suc i * 8) val = drop 8 (drop (i * 8) val)" by (simp add: add.commute)
    also have "\<dots> = concat (map (\<lambda>u. boBytes bo 8 (unat u)) us) @ r" by (simp add: Cons.prems(1))
    finally show "drop (Suc i * 8) val = \<dots>" .
    have "length (drop (i * 8) val) \<ge> 8" by (simp only: Cons.prems(1)) simp
    then show "Suc i * 8 \<le> length val" by simp
  qed
  ultimately show ?case by (simp add: boUint_boBytes)
qed simp

lemma stringLoop_encoded:
  "drop off val = concat (map (\<lambda>s. s @ [CHR 0x00]) ss) @ r \<Longrightarrow> off \<le> length val \<Longrightarrow> \<forall>s \<in> set ss. CHR 0x00 \<notin> set s \<Longrightarrow>
     stringLoop val off (length ss) = Inr ss"
proof (induction ss arbitrary: off)
  case (Cons s ss)
  let ?tail = "concat (map (\<lambda>s. s @ [CHR 0x00]) ss) @ r"
  have d: "drop off val = s @ CHR 0x00 # ?tail" using Cons.prems(1) by simp
  have "gslice val off (length val) = Inr (s @ CHR 0x00 # ?tail)"
    using Cons.prems(2) unfolding d [symmetric] by (simp add: gslice_def sl_def)
  moreover have "stringLoop val (off + length s + 1) (length ss) = Inr ss"
  proof (rule Cons.IH)
    have "drop (off + length s + 1) val = drop (length s + 1) (drop off val)" by (simp add: add.commute add.left_commute)
    then show "drop (off + length s + 1) val = ?tail" by (simp add: d)
    have "length (drop off val) = length s + 1 + length ?tail" by (simp only: d) simp
    then show "off + length s + 1 \<le> length val" using Cons.prems(2) by simp
  qed (use Cons.prems in simp)
  ultimately show ?case using Cons.prems by (simp add: cstr_encoded)
qed simp

lemma checkElemCount_ok: "int n \<le> maxDecodeElems \<Longrightarrow> n * k \<le> avail \<Longrightarrow> 0 < k \<Longrightarrow> checkElemCount (int n) k avail = Inr ()"
  by (simp add: checkElemCount_def less_eq_div_iff_mult_less_eq not_less)

definition scalar :: "nv_value \<Rightarrow> bool" where
  "scalar v \<longleftrightarrow> (\<forall>l. v \<noteq> NvList l) \<and> (\<forall>ls. v \<noteq> NvListArray ls)"

lemma length_concat_const: "\<forall>x \<in> set xs. length (f x) = k \<Longrightarrow> length (concat (map f xs)) = length xs * k"
  by (induction xs) auto

lemma gslice_0: "n = length x \<Longrightarrow> gslice (x @ r) 0 n = Inr x"
  by (simp add: gslice_def sl_def)

lemma decodeScalar_encoded:
  assumes "scalar v" "wf_nv d v" "encodeValue bo v = (val, trailer, ty, nelem)"
  shows "decodeScalar bo ty (int nelem) (val @ zeros k) = Inr v"
proof (cases v)
  case (NvUint64Array us)
  have "length (concat (map (\<lambda>u. boBytes bo 8 (unat u)) us)) = length us * 8"
    by (rule length_concat_const) simp
  moreover have "uint64Loop bo (concat (map (\<lambda>u. boBytes bo 8 (unat u)) us) @ zeros k) 0 (length us) = Inr us"
    by (rule uint64Loop_encoded) auto
  ultimately show ?thesis using assms NvUint64Array
    by (auto simp: decodeScalar_def dataType_defs checkElemCount_ok)
next
  case (NvBool x)
  then show ?thesis using assms
    by (auto simp: decodeScalar_def dataType_defs requireBytes_def gslice_0 boUint32_def boVal_boBytes)
next
  case (NvStringArray ss)
  have "stringLoop (zeros (length ss * 8) @ concat (map (\<lambda>s. s @ [CHR 0x00]) ss) @ zeros k) (length ss * 8) (length ss) = Inr ss"
    by (rule stringLoop_encoded) (use assms NvStringArray in auto)
  then show ?thesis using assms NvStringArray
    by (auto simp: decodeScalar_def dataType_defs checkElemCount_ok)
qed (use assms in \<open>auto simp: scalar_def decodeScalar_def dataType_defs requireBytes_def checkElemCount_ok gslice_0 gindex_def
      boUint_boBytes cstr_encoded\<close>)

lemma encodeValue_parts:
  assumes "encodeValue bo v = (val, trailer, ty, nelem)" "wf_nv d v"
  shows "0 \<le> ty" "ty < 2 ^ 31" "nelem < 2 ^ 31"
proof -
  have "0 \<le> ty \<and> ty < 2 ^ 31 \<and> int nelem \<le> maxDecodeElems"
    using assms by (cases v) (auto simp: dataType_defs maxDecodeElems_def)
  then show "0 \<le> ty" "ty < 2 ^ 31" "nelem < 2 ^ 31" by (auto simp: maxDecodeElems_def)
qed

text \<open>What the induction over values shows of every value: the decoder reads the pair back and stops right
  after it.\<close>

definition reads :: "byteOrder \<Rightarrow> bytes \<Rightarrow> nv_value \<Rightarrow> bool" where
  "reads bo buf v \<longleftrightarrow> (\<forall>d depth pos fuel name r. wf_nv d v \<longrightarrow> depth + d \<le> maxNVListDepth \<longrightarrow> length name < maxName \<longrightarrow>
     pos \<le> length buf \<longrightarrow> length buf < Suc fuel + pos \<longrightarrow> drop pos buf = encodePair bo name (encodeValue bo v) @ r \<longrightarrow>
     decodePair (decodeBody fuel bo buf []) bo buf depth pos (pairSize name (fst (encodeValue bo v)))
       = Inr (name, v, pos + length (encodePair bo name (encodeValue bo v))))"

lemma drop_after: "drop pos buf = x @ r \<Longrightarrow> drop (pos + length x) buf = r"
  by (metis append_eq_conv_conj drop_drop add.commute)

lemma after_inside: "drop pos buf = x @ r \<Longrightarrow> pos \<le> length buf \<Longrightarrow> pos + length x \<le> length buf"
  by (auto dest: arg_cong [where f = length])

lemma decodeBody_encoded:
  assumes small: "length buf < 2 ^ 31"
  shows "\<lbrakk> \<forall>p \<in> set nv. reads bo buf (snd p); wf_nvlist d nv; depth + d \<le> maxNVListDepth; sortedKeys (out @ nv);
      drop pos buf = encodeBody bo nv @ r; pos \<le> length buf; length buf < fuel + pos \<rbrakk> \<Longrightarrow>
    decodeBody fuel bo buf out depth pos = Inr (out @ nv, pos + length (encodeBody bo nv))"
proof (induction nv arbitrary: out pos fuel)
  case Nil
  then obtain f where f: "fuel = Suc f" by (cases fuel) auto
  have "gslice buf pos (pos + 4) = Inr (zeros 4)"
    by (rule sl_prefix) (use Nil in \<open>auto simp: encodeBody_def\<close>)
  moreover have "boUint32 bo (zeros 4) = 0"
    by (simp add: boUint32_def boVal_def zeros_def be_val_def numeral_eq_Suc split: byteOrder.split)
  moreover have "pos + 4 \<le> length buf"
    using after_inside [OF Nil(5,6)] by (simp add: encodeBody_def)
  ultimately show ?case by (simp add: f encodeBody_def Let_def)
next
  case (Cons p nv)
  obtain name v where p: "p = (name, v)" by (cases p)
  obtain val trailer ty nelem where enc: "encodeValue bo v = (val, trailer, ty, nelem)" by (cases "encodeValue bo v")
  obtain f where f: "fuel = Suc f" using Cons.prems(6,7) by (cases fuel) auto
  let ?pair = "encodePair bo name (encodeValue bo v)" and ?n = "pairSize name val"
  have at: "drop pos buf = ?pair @ encodeBody bo nv @ r" using Cons.prems(5) by (simp add: encodeBody_def p)
  have fixed: "?pair = pairFixed bo name val ty nelem @ trailer" by (simp add: enc encodePair_fixed)
  have len: "length ?pair = ?n + length trailer" by (simp add: fixed length_pairFixed)
  have inside: "pos + length ?pair \<le> length buf" using at Cons.prems(6) by (rule after_inside)
  have n: "17 \<le> ?n" by (rule length_pairFixed)
  have "gslice buf pos (pos + 4) = Inr (boBytes bo 4 ?n)"
    by (rule sl_prefix [where r = "drop 4 (?pair @ encodeBody bo nv @ r)"])
      (use at Cons.prems(6) in \<open>auto simp: fixed pairFixed_def\<close>)
  moreover have "sint (boUint32 bo (boBytes bo 4 ?n)) = int ?n"
    by (rule boUint_boBytes) (use inside len small in simp)
  moreover have "decodePair (decodeBody f bo buf []) bo buf depth pos ?n = Inr (name, v, pos + length ?pair)"
  proof -
    have "reads bo buf v" "wf_nv d v" "length name < maxName"
      using Cons.prems(1,2) by (auto simp: p wf_nvlist_def)
    moreover have "length buf < Suc f + pos" using Cons.prems(7) f by simp
    ultimately show ?thesis
      using Cons.prems(3,6) at enc unfolding reads_def by (metis fst_conv)
  qed
  moreover have "decodeBody f bo buf (nv_put name v out) depth (pos + length ?pair) =
      Inr (nv_put name v out @ nv, pos + length ?pair + length (encodeBody bo nv))"
  proof (rule Cons.IH)
    have "nv_put name v out = out @ [(name, v)]"
      by (rule nv_put_last) (use Cons.prems(4) in \<open>force simp: sortedKeys_def p sorted_wrt_append\<close>)
    then show "sortedKeys (nv_put name v out @ nv)" using Cons.prems(4) by (simp add: p)
    show "drop (pos + length ?pair) buf = encodeBody bo nv @ r" using at by (rule drop_after)
    show "wf_nvlist d nv" using Cons.prems(2) by (auto simp: wf_nvlist_def sortedKeys_def)
  qed (use Cons.prems f len n inside in auto)
  moreover have "nv_put name v out = out @ [(name, v)]"
    by (rule nv_put_last) (use Cons.prems(4) in \<open>force simp: sortedKeys_def p sorted_wrt_append\<close>)
  moreover have "pos + 4 \<le> length buf" "int pos + int ?n \<le> int (length buf)" using inside len n by auto
  moreover have "encodeBody bo (p # nv) = ?pair @ encodeBody bo nv" by (simp add: encodeBody_def p)
  ultimately show ?case using n
    by (simp add: f Let_def nvpairHdrLen_def p)
qed

lemma reads_scalar:
  assumes "scalar v"
  shows "reads bo buf v"
  unfolding reads_def
proof (intro allI impI)
  fix d depth pos fuel name r
  assume wf: "wf_nv d v" "length name < maxName" "pos \<le> length buf" and at: "drop pos buf = encodePair bo name (encodeValue bo v) @ r"
  obtain val trailer ty nelem where enc: "encodeValue bo v = (val, trailer, ty, nelem)" by (cases "encodeValue bo v")
  have ty: "ty \<noteq> dataTypeNVList" "ty \<noteq> dataTypeNVListArray" and tr: "trailer = []"
    using assms enc by (cases v; auto simp: scalar_def dataType_defs)+
  have "pairHeader bo buf pos (pairSize name val) = Inr (name, ty, int nelem, val @ zeros (nvAlign8 (length val) - length val))"
    by (rule pairHeader_encoded) (use at wf enc encodeValue_parts [OF enc wf(1)] in \<open>auto simp: encodePair_fixed\<close>)
  with decodeScalar_encoded [OF assms wf(1) enc] ty
  show "decodePair (decodeBody fuel bo buf []) bo buf depth pos (pairSize name (fst (encodeValue bo v)))
       = Inr (name, v, pos + length (encodePair bo name (encodeValue bo v)))"
    by (simp add: enc decodePair_def encodePair_fixed tr length_pairFixed)
qed

lemma decodeLists_encoded:
  assumes small: "length buf < 2 ^ 31" and depth: "depth + d \<le> maxNVListDepth"
  shows "\<lbrakk> \<forall>nv \<in> set lss. wf_nvlist d nv \<and> (\<forall>p \<in> set nv. reads bo buf (snd p));
      drop pos buf = concat (map (encodeBody bo) lss) @ r; pos \<le> length buf; length buf < fuel + pos \<rbrakk> \<Longrightarrow>
    decodeLists (decodeBody fuel bo buf [] depth) pos (length lss) = Inr (lss, pos + length (concat (map (encodeBody bo) lss)))"
proof (induction lss arbitrary: pos)
  case (Cons nv lss)
  have at: "drop pos buf = encodeBody bo nv @ concat (map (encodeBody bo) lss) @ r" using Cons.prems(2) by simp
  have "decodeBody fuel bo buf [] depth pos = Inr ([] @ nv, pos + length (encodeBody bo nv))"
    by (rule decodeBody_encoded [OF small, where d = d, OF _ _ depth _ at])
      (use Cons.prems in \<open>auto simp: wf_nvlist_def\<close>)
  moreover have "decodeLists (decodeBody fuel bo buf [] depth) (pos + length (encodeBody bo nv)) (length lss)
      = Inr (lss, pos + length (encodeBody bo nv) + length (concat (map (encodeBody bo) lss)))"
    by (rule Cons.IH) (use Cons.prems drop_after [OF at] after_inside [OF at] in auto)
  ultimately show ?case by simp
qed simp

lemma reads_NvList:
  assumes small: "length buf < 2 ^ 31" and nv: "\<forall>p \<in> set nv. reads bo buf (snd p)"
  shows "reads bo buf (NvList nv)"
  unfolding reads_def
proof (intro allI impI)
  fix d depth pos fuel name r
  let ?v = "NvList nv" and ?val = "packedNvlistT bo"
  assume wf: "wf_nv d ?v" and depth: "depth + d \<le> maxNVListDepth" and name: "length name < maxName"
    and pos: "pos \<le> length buf" and fuel: "length buf < Suc fuel + pos"
    and at: "drop pos buf = encodePair bo name (encodeValue bo ?v) @ r"
  have enc: "encodeValue bo ?v = (?val, encodeBody bo nv, dataTypeNVList, 1)" by (simp add: encodeBody_def)
  obtain e where e: "d = Suc e" using wf by (cases d) auto
  let ?fixed = "pairFixed bo name ?val dataTypeNVList 1"
  have at': "drop pos buf = ?fixed @ encodeBody bo nv @ r" using at by (simp add: enc encodePair_fixed del: encodeValue.simps)
  have "pairHeader bo buf pos (pairSize name ?val) = Inr (name, dataTypeNVList, int 1, ?val @ zeros (nvAlign8 (length ?val) - length ?val))"
    using at' pos name by (rule pairHeader_encoded) (simp_all add: dataType_defs)
  moreover have "decodeBody fuel bo buf [] (depth + 1) (pos + length ?fixed) = Inr ([] @ nv, pos + length ?fixed + length (encodeBody bo nv))"
  proof (rule decodeBody_encoded [OF small nv])
    show "wf_nvlist e nv" using wf e wf_nv_NvList by simp
    then show "sortedKeys ([] @ nv)" by (simp add: wf_nvlist_def)
    show "drop (pos + length ?fixed) buf = encodeBody bo nv @ r" using at' by (rule drop_after)
    show "pos + length ?fixed \<le> length buf" using at' pos by (rule after_inside)
    show "length buf < fuel + (pos + length ?fixed)" using fuel length_pairFixed(2) [of name ?val] by (simp add: length_pairFixed(1))
  qed (use depth e in simp)
  moreover have "depth + 1 \<le> maxNVListDepth" using depth e by simp
  ultimately show "decodePair (decodeBody fuel bo buf []) bo buf depth pos (pairSize name (fst (encodeValue bo ?v)))
       = Inr (name, ?v, pos + length (encodePair bo name (encodeValue bo ?v)))"
    by (simp add: enc decodePair_def encodePair_fixed length_pairFixed del: encodeValue.simps)
qed

lemma reads_NvListArray:
  assumes small: "length buf < 2 ^ 31" and lss: "\<forall>nv \<in> set lss. \<forall>p \<in> set nv. reads bo buf (snd p)"
  shows "reads bo buf (NvListArray lss)"
  unfolding reads_def
proof (intro allI impI)
  fix d depth pos fuel name r
  let ?v = "NvListArray lss" and ?val = "zeros (length lss * 8) @ concat (map (\<lambda>_. packedNvlistT bo) lss)"
    and ?body = "concat (map (encodeBody bo) lss)"
  assume wf: "wf_nv d ?v" and depth: "depth + d \<le> maxNVListDepth" and name: "length name < maxName"
    and pos: "pos \<le> length buf" and fuel: "length buf < Suc fuel + pos"
    and at: "drop pos buf = encodePair bo name (encodeValue bo ?v) @ r"
  have enc: "encodeValue bo ?v = (?val, ?body, dataTypeNVListArray, length lss)"
    by (simp add: encodeBody_def [abs_def])
  obtain e where e: "d = Suc e" using wf by (cases d) auto
  have count: "int (length lss) \<le> maxDecodeElems" and wfs: "\<forall>nv \<in> set lss. wf_nvlist e nv"
    using wf e wf_nv_NvListArray by blast+
  let ?fixed = "pairFixed bo name ?val dataTypeNVListArray (length lss)"
  have at': "drop pos buf = ?fixed @ ?body @ r" using at by (simp add: enc encodePair_fixed del: encodeValue.simps)
  have at2: "drop (pos + length ?fixed) buf = ?body @ r" using at' by (rule drop_after)
  have in2: "pos + length ?fixed \<le> length buf" using at' pos by (rule after_inside)
  have "length lss < 2 ^ 31" using count by (simp add: maxDecodeElems_def)
  then have "pairHeader bo buf pos (pairSize name ?val) =
      Inr (name, dataTypeNVListArray, int (length lss), ?val @ zeros (nvAlign8 (length ?val) - length ?val))"
    using at' pos name by (intro pairHeader_encoded) (simp_all add: dataType_defs)
  moreover have "checkElemCount (int (length lss)) 4 (length buf - (pos + length ?fixed)) = Inr ()"
  proof (rule checkElemCount_ok [OF count])
    have "length lss * 4 \<le> length ?body"
      by (induction lss) (auto simp: encodeBody_def)
    also have "\<dots> \<le> length buf - (pos + length ?fixed)"
      using at2 by (metis length_append length_drop le_add1)
    finally show "length lss * 4 \<le> length buf - (pos + length ?fixed)" .
  qed simp
  moreover have "decodeLists (decodeBody fuel bo buf [] (depth + 1)) (pos + length ?fixed) (length lss)
      = Inr (lss, pos + length ?fixed + length ?body)"
    by (rule decodeLists_encoded [OF small, where d = e, OF _ _ at2 in2])
      (use depth e wfs lss fuel length_pairFixed(2) [of name ?val] in \<open>auto simp: length_pairFixed(1)\<close>)
  moreover have "depth + 1 \<le> maxNVListDepth" using depth e by simp
  ultimately show "decodePair (decodeBody fuel bo buf []) bo buf depth pos (pairSize name (fst (encodeValue bo ?v)))
       = Inr (name, ?v, pos + length (encodePair bo name (encodeValue bo ?v)))"
    by (simp add: enc decodePair_def encodePair_fixed length_pairFixed dataType_defs Let_def del: encodeValue.simps)
qed

lemma reads_all: "length buf < 2 ^ 31 \<Longrightarrow> reads bo buf v"
proof (induction v)
  case (NvList nv)
  then show ?case by (intro reads_NvList) (auto simp: snds.simps)
next
  case (NvListArray lss)
  then show ?case by (intro reads_NvListArray) (auto simp: snds.simps)
qed (rule reads_scalar, simp add: scalar_def)+

lemma DecodeNative_EncodeNative:
  assumes "wf_nvlist maxNVListDepth nv" "length (EncodeNative (hostOrderFor lowByte) nv @ junk) < 2 ^ 31"
  shows "DecodeNative (EncodeNative (hostOrderFor lowByte) nv @ junk) = Inr nv"
proof -
  obtain bo endian where host: "hostOrderFor lowByte = (bo, endian)" by (cases "hostOrderFor lowByte")
  let ?b = "EncodeNative (bo, endian) nv @ junk"
  let ?hdr = "[char_of nvEncodeNative, char_of endian, CHR 0x00, CHR 0x00] @ boBytes bo 4 0 @ boBytes bo 4 1"
  have b: "?b = ?hdr @ encodeBody bo nv @ junk" and hdr: "length ?hdr = 12" by (simp_all add: EncodeNative_def)
  have "decodeBody (length ?b) bo ?b [] 0 12 = Inr ([] @ nv, 12 + length (encodeBody bo nv))"
  proof (rule decodeBody_encoded [where d = maxNVListDepth])
    show "length ?b < 2 ^ 31" using assms(2) host by simp
    then show "\<forall>p \<in> set nv. reads bo ?b (snd p)" by (blast intro: reads_all)
    show "drop 12 ?b = encodeBody bo nv @ junk" unfolding b using hdr by (metis append_eq_conv_conj)
    show "12 \<le> length ?b" unfolding b by (simp only: length_append hdr) simp
  qed (use assms(1) in \<open>simp_all add: wf_nvlist_def\<close>)
  moreover have "12 \<le> length ?b" unfolding b by (simp only: length_append hdr) simp
  ultimately have "decodeList bo ?b 4 = Inr nv" by (simp add: decodeList_def nvlistHdrLen_def)
  moreover have "gindex ?b 0 = Inr (char_of nvEncodeNative)" "gindex ?b 1 = Inr (char_of endian)" "\<not> length ?b < 4"
    by (simp_all add: gindex_def EncodeNative_def)
  moreover have "(if of_char (char_of endian) = nvBigEndian then BigEndian else LittleEndian) = bo"
    using host by (auto simp: hostOrderFor_def nvBigEndian_def nvLittleEndian_def split: if_splits)
  ultimately show ?thesis
    unfolding host by (simp only: DecodeNative_def bindE_simps if_False) (simp add: nvEncodeNative_def)
qed

section \<open>Properties\<close>

definition sample_pool :: nvlist where
  "sample_pool = [(''feature_stats'', NvList [(''com.delphix:hole_birth'', NvUint64 5)]), (''name'', NvString ''rpool'')]"

lemma sample_pool_wf: "wf_nvlist maxNVListDepth sample_pool"
proof -
  have "sortedKeys sample_pool" "sortedKeys [(''com.delphix:hole_birth'', NvUint64 5)]" by code_simp+
  then show ?thesis by (simp add: wf_nvlist_def sample_pool_def maxNVListDepth_def maxName_def)
qed

lemma sample_pool_length: "length (EncodeNative (hostOrderFor 1) sample_pool @ zeros 8) < 2 ^ 31"
  by (simp add: EncodeNative_def encodeBody_def sample_pool_def encodePair_def nvAlign8_def nvpairHdrLen_def)

text \<open>C35: decoding a kernel response always ends, in an error or in a well-formed list.  Whatever the bytes,
  the decoder does not index out of range and does not run on; a list it returns nests at most 64 deep,
  has at most 2 to the 20 elements in every array, and maps every name to one value.\<close>

theorem nvlist_decoder_total:
  "(\<exists>e. DecodeNative b = Inl (NvError e)) \<or> (\<exists>nv. DecodeNative b = Inr nv \<and> wf_nvlist maxNVListDepth nv)"
  using decodes_DecodeNative [of b] by (auto simp: decodes_def split: sum.splits nv_fault.splits)

text \<open>C36: the decoder inverts the encoder, in both byte orders, whatever follows the list in the buffer.\<close>

theorem nvlist_round_trip:
  assumes "wf_nvlist maxNVListDepth nv" "length (EncodeNative (hostOrderFor lowByte) nv @ junk) < 2 ^ 31"
  shows "DecodeNative (EncodeNative (hostOrderFor lowByte) nv @ junk) = Inr nv"
  using assms by (rule DecodeNative_EncodeNative)

theorem nvlist_round_trip_witness:
  "DecodeNative (EncodeNative (hostOrderFor 1) sample_pool @ zeros 8) = Inr sample_pool"
  using sample_pool_wf sample_pool_length by (rule nvlist_round_trip)

end
