(* ===== verification/Zfs_Compat.thy ===== *)
theory Zfs_Compat
  imports Nvlist
begin

text \<open>
  The question whether the boot environment can import the pool it boots from: the read-only client of
  \<open>/dev/zfs\<close> (\<open>internal/zfsnative\<close>), the interpretation of the pool's feature counts
  (\<open>cmd/tool/zfsnative.go\<close>), the comparison with the feature lists of an OpenZFS release line
  (\<open>zfscompat.go\<close>) and the verdict of \<open>status\<close> and \<open>verify\<close> (\<open>cmd/tool/main.go\<close>).

  The kernel is a parameter: \<open>ioctl attempt request cmd dst\<close> gives the error number, if any, and the contents
  of the \<open>zfs_cmd_t\<close> and of the destination buffer after the call.  The address of the destination buffer is
  the parameter \<open>addr\<close>.
\<close>

section \<open>The ioctl client\<close>

definition zfsIocFirst :: nat where "zfsIocFirst = 0x5a00"
definition ZFS_IOC_POOL_CONFIGS :: nat where "ZFS_IOC_POOL_CONFIGS = zfsIocFirst + 4"
definition ZFS_IOC_POOL_STATS :: nat where "ZFS_IOC_POOL_STATS = zfsIocFirst + 5"
definition sizeofZfsCmd :: nat where "sizeofZfsCmd = 13744"
definition offZcName :: nat where "offZcName = 0"
definition offZcNvlistDst :: nat where "offZcNvlistDst = 4112"
definition offZcNvlistDstSize :: nat where "offZcNvlistDstSize = 4120"
definition offZcCookie :: nat where "offZcCookie = 12616"
definition maxPathLen :: nat where "maxPathLen = 4096"
definition maxDstGrowSize :: nat where "maxDstGrowSize = 16 * 1024 * 1024"

datatype errno = ENOMEM | Errno nat

datatype zfs_error =
    OpenFailed
  | NameTooLong
  | Ioctl errno
  | Undecodable nv_fault
  | KeptGrowing
  | NotAConfig bytes
  | Untrusted u64
  | NoFeatureStats
  | FeatureStatsType
  | RefcountType bytes
  | UnknownGUIDs "bytes list"
  | NoPool
  | BootPoolUnknown
  | BootPoolNotImported
  | BadVersion
  | Recovered

type_synonym zfs_kernel = "nat \<Rightarrow> nat \<Rightarrow> bytes \<Rightarrow> bytes \<Rightarrow> errno option \<times> bytes \<times> bytes"

definition setU64 :: "byteOrder \<Rightarrow> nat \<Rightarrow> u64 \<Rightarrow> bytes \<Rightarrow> bytes" where
  "setU64 host off v cmd = overwrite cmd off (boBytes host 8 (unat v))"

definition getU64 :: "byteOrder \<Rightarrow> nat \<Rightarrow> bytes \<Rightarrow> u64" where
  "getU64 host off cmd = boUint64 host (sl cmd off (off + 8))"

definition setName :: "bytes \<Rightarrow> bytes \<Rightarrow> zfs_error + bytes" where
  "setName s cmd =
     (if length s + 1 > maxPathLen then Inl NameTooLong
      else Inr (overwrite (overwrite cmd offZcName (zeros maxPathLen)) offZcName s))"

text \<open>One round of the loop of \<open>callWithDst\<close> per attempt; after two the call is given up.\<close>

fun callLoop :: "byteOrder \<Rightarrow> u64 \<Rightarrow> zfs_kernel \<Rightarrow> nat \<Rightarrow> (bytes \<Rightarrow> zfs_error + bytes) \<Rightarrow> nat \<Rightarrow> nat \<Rightarrow> nat
    \<Rightarrow> zfs_error + nvlist \<times> u64" where
  "callLoop host addr ioctl req build attempt dstSize 0 = Inl KeptGrowing"
| "callLoop host addr ioctl req build attempt dstSize (Suc left) =
     bindE (build (zeros sizeofZfsCmd)) (\<lambda>cmd.
     let cmd = setU64 host offZcNvlistDst addr cmd;
         cmd = setU64 host offZcNvlistDstSize (word_of_nat dstSize) cmd
     in case ioctl attempt req cmd (zeros dstSize) of (err, cmd', dst) \<Rightarrow>
        let need = unat (getU64 host offZcNvlistDstSize cmd')
        in if err = Some ENOMEM \<and> need > dstSize \<and> need < maxDstGrowSize
           then callLoop host addr ioctl req build (Suc attempt) need left
           else case err of
             Some e \<Rightarrow> Inl (Ioctl e)
           | None \<Rightarrow> bindE (mapErr Undecodable (DecodeNative dst)) (\<lambda>nv. Inr (nv, getU64 host offZcCookie cmd')))"

definition callWithDst :: "byteOrder \<Rightarrow> u64 \<Rightarrow> zfs_kernel \<Rightarrow> nat \<Rightarrow> (bytes \<Rightarrow> zfs_error + bytes) \<Rightarrow> nat \<Rightarrow> zfs_error + nvlist \<times> u64" where
  "callWithDst host addr ioctl req build dstSize = callLoop host addr ioctl req build 0 dstSize 2"

fun configs :: "nvlist \<Rightarrow> zfs_error + (bytes \<times> nvlist) list" where
  "configs [] = Inr []"
| "configs ((name, v) # nv) =
     (case v of
        NvList sub \<Rightarrow> bindE (configs nv) (\<lambda>out. Inr ((name, sub) # out))
      | _ \<Rightarrow> Inl (NotAConfig name))"

definition PoolConfigs :: "byteOrder \<Rightarrow> u64 \<Rightarrow> zfs_kernel \<Rightarrow> zfs_error + (bytes \<times> nvlist) list" where
  "PoolConfigs host addr ioctl =
     bindE (callWithDst host addr ioctl ZFS_IOC_POOL_CONFIGS (\<lambda>c. Inr (setU64 host offZcCookie 0 c)) (64 * 1024))
       (\<lambda>(nv, _). configs nv)"

definition PoolNames :: "byteOrder \<Rightarrow> u64 \<Rightarrow> zfs_kernel \<Rightarrow> zfs_error + bytes list" where
  "PoolNames host addr ioctl = bindE (PoolConfigs host addr ioctl) (\<lambda>cfgs. Inr (map fst cfgs))"

definition PoolStats :: "byteOrder \<Rightarrow> u64 \<Rightarrow> zfs_kernel \<Rightarrow> bytes \<Rightarrow> zfs_error + nvlist" where
  "PoolStats host addr ioctl pool =
     bindE (callWithDst host addr ioctl ZFS_IOC_POOL_STATS (setName pool) (256 * 1024))
       (\<lambda>(nv, cookie). if cookie \<noteq> 0 then Inl (Untrusted cookie) else Inr nv)"

text \<open>\<open>recoverZFSCall\<close>: a panic in the decoder becomes an ordinary error.\<close>

definition recoverZFSCall :: "zfs_error + 'a \<Rightarrow> zfs_error + 'a" where
  "recoverZFSCall m = mapErr (\<lambda>e. if e = Undecodable NvPanic then Recovered else e) m"

definition liveZFSPoolNames :: "bool \<Rightarrow> byteOrder \<Rightarrow> u64 \<Rightarrow> zfs_kernel \<Rightarrow> zfs_error + bytes list" where
  "liveZFSPoolNames opens host addr ioctl =
     (if \<not> opens then Inl OpenFailed else recoverZFSCall (PoolNames host addr ioctl))"

definition liveZFSFeatureStats :: "bool \<Rightarrow> byteOrder \<Rightarrow> u64 \<Rightarrow> zfs_kernel \<Rightarrow> bytes \<Rightarrow> zfs_error + nvlist" where
  "liveZFSFeatureStats opens host addr ioctl pool =
     (if \<not> opens then Inl OpenFailed
      else bindE (recoverZFSCall (PoolStats host addr ioctl pool)) (\<lambda>cfg.
        case map_of cfg ''feature_stats'' of
          None \<Rightarrow> Inl NoFeatureStats
        | Some (NvList nv) \<Rightarrow> Inr nv
        | Some _ \<Rightarrow> Inl FeatureStatsType))"

section \<open>Feature counts\<close>

definition zfsFeatureGUIDToShortName :: "(bytes \<times> bytes) list" where
  "zfsFeatureGUIDToShortName =
    [(''org.zfsonlinux:allocation_classes'', ''allocation_classes''),
     (''com.delphix:async_destroy'', ''async_destroy''),
     (''org.openzfs:blake3'', ''blake3''),
     (''com.fudosecurity:block_cloning'', ''block_cloning''),
     (''com.truenas:block_cloning_endian'', ''block_cloning_endian''),
     (''com.datto:bookmark_v2'', ''bookmark_v2''),
     (''com.delphix:bookmark_written'', ''bookmark_written''),
     (''com.delphix:bookmarks'', ''bookmarks''),
     (''org.openzfs:device_rebuild'', ''device_rebuild''),
     (''com.delphix:device_removal'', ''device_removal''),
     (''org.openzfs:draid'', ''draid''),
     (''com.seagate:draid_failure_domains'', ''draid_failure_domains''),
     (''com.klarasystems:dynamic_gang_header'', ''dynamic_gang_header''),
     (''org.illumos:edonr'', ''edonr''),
     (''com.delphix:embedded_data'', ''embedded_data''),
     (''com.delphix:empty_bpobj'', ''empty_bpobj''),
     (''com.delphix:enabled_txg'', ''enabled_txg''),
     (''com.datto:encryption'', ''encryption''),
     (''com.delphix:extensible_dataset'', ''extensible_dataset''),
     (''com.klarasystems:fast_dedup'', ''fast_dedup''),
     (''com.joyent:filesystem_limits'', ''filesystem_limits''),
     (''com.delphix:head_errlog'', ''head_errlog''),
     (''com.delphix:hole_birth'', ''hole_birth''),
     (''org.open-zfs:large_blocks'', ''large_blocks''),
     (''org.zfsonlinux:large_dnode'', ''large_dnode''),
     (''com.klarasystems:large_microzap'', ''large_microzap''),
     (''com.delphix:livelist'', ''livelist''),
     (''com.delphix:log_spacemap'', ''log_spacemap''),
     (''org.zfsonlinux:longname'', ''longname''),
     (''org.illumos:lz4_compress'', ''lz4_compress''),
     (''com.joyent:multi_vdev_crash_dump'', ''multi_vdev_crash_dump''),
     (''com.delphix:obsolete_counts'', ''obsolete_counts''),
     (''com.truenas:physical_rewrite'', ''physical_rewrite''),
     (''org.zfsonlinux:project_quota'', ''project_quota''),
     (''org.openzfs:raidz_expansion'', ''raidz_expansion''),
     (''com.delphix:redacted_datasets'', ''redacted_datasets''),
     (''com.delphix:redaction_bookmarks'', ''redaction_bookmarks''),
     (''com.delphix:redaction_list_spill'', ''redaction_list_spill''),
     (''com.datto:resilver_defer'', ''resilver_defer''),
     (''org.illumos:sha512'', ''sha512''),
     (''org.illumos:skein'', ''skein''),
     (''com.delphix:spacemap_histogram'', ''spacemap_histogram''),
     (''com.delphix:spacemap_v2'', ''spacemap_v2''),
     (''org.zfsonlinux:userobj_accounting'', ''userobj_accounting''),
     (''com.klarasystems:vdev_zaps_v2'', ''vdev_zaps_v2''),
     (''org.openzfs:zilsaxattr'', ''zilsaxattr''),
     (''com.delphix:zpool_checkpoint'', ''zpool_checkpoint''),
     (''org.freebsd:zstd_compress'', ''zstd_compress'')]"

text \<open>The loop of \<open>parseFeatureStats\<close> over the entries of the map, in whatever order they come: display strings,
  active features and unknown identifiers so far.\<close>

fun featureLoop :: "nvlist \<Rightarrow> bytes list \<Rightarrow> bytes list \<Rightarrow> bytes list \<Rightarrow> zfs_error + bytes list \<times> bytes list \<times> bytes list" where
  "featureLoop [] pool active unknown = Inr (pool, active, unknown)"
| "featureLoop ((guid, v) # stats) pool active unknown =
     (case v of
        NvUint64 refcount \<Rightarrow>
          (case map_of zfsFeatureGUIDToShortName guid of
             None \<Rightarrow> featureLoop stats pool active (unknown @ [guid])
           | Some name \<Rightarrow>
               let state = (if refcount > 0 then ''active'' else ''enabled'')
               in featureLoop stats (pool @ [name @ ''='' @ state])
                    (if state = ''active'' then active @ [name] else active) unknown)
      | _ \<Rightarrow> Inl (RefcountType guid))"

definition parseFeatureStats :: "nvlist \<Rightarrow> zfs_error + bytes list \<times> bytes list" where
  "parseFeatureStats stats =
     bindE (featureLoop stats [] [] []) (\<lambda>(pool, active, unknown).
     if unknown \<noteq> [] then Inl (UnknownGUIDs (sort unknown)) else Inr (sort pool, sort active))"

section \<open>Release lines\<close>

text \<open>The feature lists compiled into the tool (\<open>zfs-compatibility.d\<close>).\<close>

definition openzfs_2_0 :: bytes where
  "openzfs_2_0 = concat (map (\<lambda>l. l @ [NL])
    [''# Features supported by OpenZFS 2.0 on Linux'', ''allocation_classes'', ''async_destroy'',
     ''bookmark_v2'', ''bookmark_written'', ''bookmarks'', ''device_rebuild'', ''device_removal'',
     ''edonr'', ''embedded_data'', ''empty_bpobj'', ''enabled_txg'', ''encryption'', ''extensible_dataset'',
     ''filesystem_limits'', ''hole_birth'', ''large_blocks'', ''large_dnode'', ''livelist'',
     ''log_spacemap'', ''lz4_compress'', ''multi_vdev_crash_dump'', ''obsolete_counts'', ''project_quota'',
     ''redacted_datasets'', ''redaction_bookmarks'', ''resilver_defer'', ''sha512'', ''skein'',
     ''spacemap_histogram'', ''spacemap_v2'', ''userobj_accounting'', ''zpool_checkpoint'',
     ''zstd_compress''])"

definition openzfs_2_1 :: bytes where
  "openzfs_2_1 = concat (map (\<lambda>l. l @ [NL])
    [''# Features supported by OpenZFS 2.1 on Linux'', ''allocation_classes'', ''async_destroy'',
     ''bookmark_v2'', ''bookmark_written'', ''bookmarks'', ''device_rebuild'', ''device_removal'',
     ''draid'', ''edonr'', ''embedded_data'', ''empty_bpobj'', ''enabled_txg'', ''encryption'',
     ''extensible_dataset'', ''filesystem_limits'', ''hole_birth'', ''large_blocks'', ''large_dnode'',
     ''livelist'', ''log_spacemap'', ''lz4_compress'', ''multi_vdev_crash_dump'', ''obsolete_counts'',
     ''project_quota'', ''redacted_datasets'', ''redaction_bookmarks'', ''resilver_defer'', ''sha512'',
     ''skein'', ''spacemap_histogram'', ''spacemap_v2'', ''userobj_accounting'', ''zpool_checkpoint'',
     ''zstd_compress''])"

definition openzfs_2_2 :: bytes where
  "openzfs_2_2 = concat (map (\<lambda>l. l @ [NL])
    [''# Features supported by OpenZFS 2.2 on Linux and FreeBSD'', ''allocation_classes'',
     ''async_destroy'', ''blake3'', ''block_cloning'', ''bookmark_v2'', ''bookmark_written'', ''bookmarks'',
     ''device_rebuild'', ''device_removal'', ''draid'', ''edonr'', ''embedded_data'', ''empty_bpobj'',
     ''enabled_txg'', ''encryption'', ''extensible_dataset'', ''filesystem_limits'', ''head_errlog'',
     ''hole_birth'', ''large_blocks'', ''large_dnode'', ''livelist'', ''log_spacemap'', ''lz4_compress'',
     ''multi_vdev_crash_dump'', ''obsolete_counts'', ''project_quota'', ''redacted_datasets'',
     ''redaction_bookmarks'', ''resilver_defer'', ''sha512'', ''skein'', ''spacemap_histogram'',
     ''spacemap_v2'', ''userobj_accounting'', ''vdev_zaps_v2'', ''zilsaxattr'', ''zpool_checkpoint'',
     ''zstd_compress''])"

definition openzfs_2_3 :: bytes where
  "openzfs_2_3 = concat (map (\<lambda>l. l @ [NL])
    [''# Features supported by OpenZFS 2.3 on Linux and FreeBSD'', ''allocation_classes'',
     ''async_destroy'', ''blake3'', ''block_cloning'', ''bookmark_v2'', ''bookmark_written'', ''bookmarks'',
     ''device_rebuild'', ''device_removal'', ''draid'', ''edonr'', ''embedded_data'', ''empty_bpobj'',
     ''enabled_txg'', ''encryption'', ''extensible_dataset'', ''fast_dedup'', ''filesystem_limits'',
     ''head_errlog'', ''hole_birth'', ''large_blocks'', ''large_dnode'', ''large_microzap'', ''livelist'',
     ''log_spacemap'', ''longname'', ''lz4_compress'', ''multi_vdev_crash_dump'', ''obsolete_counts'',
     ''project_quota'', ''raidz_expansion'', ''redacted_datasets'', ''redaction_bookmarks'',
     ''redaction_list_spill'', ''resilver_defer'', ''sha512'', ''skein'', ''spacemap_histogram'',
     ''spacemap_v2'', ''userobj_accounting'', ''vdev_zaps_v2'', ''zilsaxattr'', ''zpool_checkpoint'',
     ''zstd_compress''])"

definition openzfs_2_4 :: bytes where
  "openzfs_2_4 = concat (map (\<lambda>l. l @ [NL])
    [''# Features supported by OpenZFS 2.4 on Linux and FreeBSD'', ''allocation_classes'',
     ''async_destroy'', ''blake3'', ''block_cloning'', ''block_cloning_endian'', ''bookmark_v2'',
     ''bookmark_written'', ''bookmarks'', ''device_rebuild'', ''device_removal'', ''draid'',
     ''dynamic_gang_header'', ''edonr'', ''embedded_data'', ''empty_bpobj'', ''enabled_txg'',
     ''encryption'', ''extensible_dataset'', ''fast_dedup'', ''filesystem_limits'', ''head_errlog'',
     ''hole_birth'', ''large_blocks'', ''large_dnode'', ''large_microzap'', ''livelist'', ''log_spacemap'',
     ''longname'', ''lz4_compress'', ''multi_vdev_crash_dump'', ''obsolete_counts'', ''physical_rewrite'',
     ''project_quota'', ''raidz_expansion'', ''redacted_datasets'', ''redaction_bookmarks'',
     ''redaction_list_spill'', ''resilver_defer'', ''sha512'', ''skein'', ''spacemap_histogram'',
     ''spacemap_v2'', ''userobj_accounting'', ''vdev_zaps_v2'', ''zilsaxattr'', ''zpool_checkpoint'',
     ''zstd_compress''])"

definition zfsCompatFS :: "bytes \<Rightarrow> bytes option" where
  "zfsCompatFS = map_of
    [(''zfs-compatibility.d/openzfs-2.0-linux'', openzfs_2_0),
     (''zfs-compatibility.d/openzfs-2.1-linux'', openzfs_2_1),
     (''zfs-compatibility.d/openzfs-2.2'', openzfs_2_2),
     (''zfs-compatibility.d/openzfs-2.3'', openzfs_2_3),
     (''zfs-compatibility.d/openzfs-2.4'', openzfs_2_4)]"

definition zfsCompatReleaseLineFile :: "(bytes \<times> bytes) list" where
  "zfsCompatReleaseLineFile =
    [(''2.0'', ''zfs-compatibility.d/openzfs-2.0-linux''),
     (''2.1'', ''zfs-compatibility.d/openzfs-2.1-linux''),
     (''2.2'', ''zfs-compatibility.d/openzfs-2.2''),
     (''2.3'', ''zfs-compatibility.d/openzfs-2.3''),
     (''2.4'', ''zfs-compatibility.d/openzfs-2.4'')]"

text \<open>The pattern \<open>^(\d+)\.(\d+)\<close>.\<close>

definition zfsReleaseLine :: "bytes \<Rightarrow> zfs_error + bytes" where
  "zfsReleaseLine raw =
     (let major = takeWhile is_digit raw; rest = drop (length major) raw
      in if major = [] \<or> rest = [] \<or> hd rest \<noteq> CHR ''.'' then Inl BadVersion
         else let minor = takeWhile is_digit (tl rest)
              in if minor = [] then Inl BadVersion else Inr (major @ ''.'' @ minor))"

text \<open>The outer option is the panic for a listed file that is not embedded, the inner one \<open>ok\<close>.\<close>

definition zfsSupportedFeatures :: "bytes \<Rightarrow> bytes list option option" where
  "zfsSupportedFeatures releaseLine =
     (case map_of zfsCompatReleaseLineFile releaseLine of
        None \<Rightarrow> Some None
      | Some path \<Rightarrow>
          (case zfsCompatFS path of
             None \<Rightarrow> None
           | Some content \<Rightarrow>
               Some (Some (filter (\<lambda>l. \<not> (l = [] \<or> hasPrefix l ''#'')) (map trimSpace (split_on NL content))))))"

record ZFSCompatResult =
  ReleaseLine :: bytes
  KnownReleaseLine :: bool
  Unsupported :: "bytes list"

definition Compatible :: "ZFSCompatResult \<Rightarrow> bool" where
  "Compatible r \<longleftrightarrow> KnownReleaseLine r \<and> Unsupported r = []"

definition CheckZFSCompat :: "bytes \<Rightarrow> bytes list \<Rightarrow> zfs_error + ZFSCompatResult" where
  "CheckZFSCompat version active =
     bindE (zfsReleaseLine version) (\<lambda>line.
     case zfsSupportedFeatures line of
       None \<Rightarrow> Inl Recovered
     | Some None \<Rightarrow> Inr \<lparr>ReleaseLine = line, KnownReleaseLine = False, Unsupported = []\<rparr>
     | Some (Some supported) \<Rightarrow>
         Inr \<lparr>ReleaseLine = line, KnownReleaseLine = True, Unsupported = filter (\<lambda>f. f \<notin> set supported) active\<rparr>)"

section \<open>The verdict\<close>

record zfsCompat =
  poolName :: bytes
  poolFeatures :: "bytes list"
  activeFeatures :: "bytes list"
  poolErr :: "zfs_error option"

definition selectBootPool :: "bytes \<Rightarrow> bytes list \<Rightarrow> zfs_error + bytes" where
  "selectBootPool bootPool imported =
     (if bootPool = [] then (case imported of [n] \<Rightarrow> Inr n | _ \<Rightarrow> Inl BootPoolUnknown)
      else if bootPool \<in> set imported then Inr bootPool
      else Inl BootPoolNotImported)"

definition inspectZFSCompat :: "bool \<Rightarrow> byteOrder \<Rightarrow> u64 \<Rightarrow> zfs_kernel \<Rightarrow> bytes \<Rightarrow> zfsCompat" where
  "inspectZFSCompat opens host addr ioctl bootPool =
     (let z = \<lparr>poolName = [], poolFeatures = [], activeFeatures = [], poolErr = None\<rparr>
      in case liveZFSPoolNames opens host addr ioctl of
           Inl e \<Rightarrow> z\<lparr>poolErr := Some e\<rparr>
         | Inr names \<Rightarrow>
             if names = [] then z\<lparr>poolErr := Some NoPool\<rparr>
             else case selectBootPool bootPool names of
               Inl e \<Rightarrow> z\<lparr>poolErr := Some e\<rparr>
             | Inr pool \<Rightarrow>
                 let z = z\<lparr>poolName := pool\<rparr>
                 in case liveZFSFeatureStats opens host addr ioctl pool of
                      Inl e \<Rightarrow> z\<lparr>poolErr := Some e\<rparr>
                    | Inr stats \<Rightarrow>
                        case parseFeatureStats stats of
                          Inl e \<Rightarrow> z\<lparr>poolErr := Some e\<rparr>
                        | Inr (pf, af) \<Rightarrow> z\<lparr>poolFeatures := pf, activeFeatures := af\<rparr>)"

datatype compat_status = UNKNOWN | VERIFIED | NO

text \<open>The verdict on a report with the OpenZFS version \<open>version\<close>, none if reading it failed.\<close>

definition bootCompatVerdict :: "bytes option \<Rightarrow> zfsCompat \<Rightarrow> compat_status \<times> bytes list" where
  "bootCompatVerdict version z =
     (case version of
        None \<Rightarrow> (UNKNOWN, [])
      | Some v \<Rightarrow>
          if poolErr z \<noteq> None then (UNKNOWN, [])
          else case CheckZFSCompat v (activeFeatures z) of
            Inl _ \<Rightarrow> (UNKNOWN, [])
          | Inr result \<Rightarrow>
              if \<not> KnownReleaseLine result then (UNKNOWN, [])
              else if Compatible result then (VERIFIED, [])
              else (NO, Unsupported result))"

definition appendCompatErr :: "bytes list list \<Rightarrow> bytes option \<Rightarrow> zfsCompat \<Rightarrow> bytes list list" where
  "appendCompatErr errs version z =
     (case bootCompatVerdict version z of (status, detail) \<Rightarrow> if status = NO then errs @ [detail] else errs)"

section \<open>What the verdict rests on\<close>

definition countedFeature :: "bytes list \<Rightarrow> bytes \<times> nv_value \<Rightarrow> bool" where
  "countedFeature feats e \<longleftrightarrow>
     (\<exists>n name. snd e = NvUint64 n \<and> map_of zfsFeatureGUIDToShortName (fst e) = Some name \<and> (n > 0 \<longrightarrow> name \<in> set feats))"

definition activeName :: "bytes \<times> nv_value \<Rightarrow> bytes list" where
  "activeName e = (case (snd e, map_of zfsFeatureGUIDToShortName (fst e)) of
     (NvUint64 n, Some name) \<Rightarrow> if n > 0 then [name] else [] | _ \<Rightarrow> [])"

lemma featureLoop_Inr:
  "featureLoop stats p a u = Inr (p', a', u') \<Longrightarrow>
     (\<forall>e \<in> set stats. \<exists>n. snd e = NvUint64 n) \<and> a' = a @ concat (map activeName stats) \<and>
     u' = u @ filter (\<lambda>g. map_of zfsFeatureGUIDToShortName g = None) (map fst stats)"
proof (induction stats arbitrary: p a u)
  case (Cons e stats)
  obtain guid v where e: "e = (guid, v)" by (cases e)
  with Cons.prems obtain n where v: "v = NvUint64 n" by (cases v) auto
  show ?case
  proof (cases "map_of zfsFeatureGUIDToShortName guid")
    case None
    with Cons.prems have "featureLoop stats p a (u @ [guid]) = Inr (p', a', u')" by (simp add: e v)
    from Cons.IH [OF this] show ?thesis using None by (simp add: e v activeName_def)
  next
    case (Some name)
    with Cons.prems have "featureLoop stats (p @ [name @ ''='' @ (if n > 0 then ''active'' else ''enabled'')])
        (if n > 0 then a @ [name] else a) u = Inr (p', a', u')"
      by (simp add: e v split: if_splits)
    from Cons.IH [OF this] show ?thesis using Some by (auto simp: e v activeName_def)
  qed
qed simp

lemma featureLoop_total: "\<forall>e \<in> set stats. \<exists>n. snd e = NvUint64 n \<Longrightarrow> \<exists>r. featureLoop stats p a u = Inr r"
proof (induction stats arbitrary: p a u)
  case (Cons e stats)
  then obtain guid n where e: "e = (guid, NvUint64 n)" by (cases e) auto
  have "\<exists>r. featureLoop stats q b w = Inr r" for q b w using Cons by simp
  then show ?case by (simp add: e Let_def split: option.split)
qed simp

text \<open>Every entry is a count, of a feature the table knows.\<close>

definition knownStats :: "nvlist \<Rightarrow> bool" where
  "knownStats stats \<longleftrightarrow> (\<forall>e \<in> set stats. (\<exists>n. snd e = NvUint64 n) \<and> map_of zfsFeatureGUIDToShortName (fst e) \<noteq> None)"

lemma parseFeatureStats_Inr:
  "(\<exists>pf. parseFeatureStats stats = Inr (pf, af)) \<longleftrightarrow>
     knownStats stats \<and>
     af = sort (concat (map activeName stats))"
  (is "?L \<longleftrightarrow> ?R")
proof
  assume ?L
  then obtain p a u where run: "featureLoop stats [] [] [] = Inr (p, a, u)" "u = []" "af = sort a"
    by (auto simp: parseFeatureStats_def split: if_splits)
  have r: "(\<forall>e \<in> set stats. \<exists>n. snd e = NvUint64 n) \<and> a = concat (map activeName stats) \<and>
      filter (\<lambda>g. map_of zfsFeatureGUIDToShortName g = None) (map fst stats) = []"
    using featureLoop_Inr [OF run(1)] run(2) by simp
  then have "\<forall>e \<in> set stats. map_of zfsFeatureGUIDToShortName (fst e) \<noteq> None"
    by (auto simp: filter_empty_conv)
  with r run(3) show ?R by (auto simp: knownStats_def)
next
  assume R: ?R
  then obtain p a u where run: "featureLoop stats [] [] [] = Inr (p, a, u)"
    using featureLoop_total [of stats "[]" "[]" "[]"] by (auto simp: knownStats_def)
  have "a = concat (map activeName stats)" "u = []"
    using featureLoop_Inr [OF run] R by (auto simp: filter_empty_conv knownStats_def)
  with run R show ?L by (simp add: parseFeatureStats_def)
qed

lemma activeName_set: "snd e = NvUint64 n \<Longrightarrow> map_of zfsFeatureGUIDToShortName (fst e) = Some name \<Longrightarrow>
    set (activeName e) \<subseteq> F \<longleftrightarrow> (n > 0 \<longrightarrow> name \<in> F)"
  by (auto simp: activeName_def)

lemma active_counted:
  assumes "knownStats stats"
  shows "set (concat (map activeName stats)) \<subseteq> set feats \<longleftrightarrow> (\<forall>e \<in> set stats. countedFeature feats e)"
proof -
  have "set (activeName e) \<subseteq> set feats \<longleftrightarrow> countedFeature feats e" if "e \<in> set stats" for e
  proof -
    note e = bspec [OF assms [unfolded knownStats_def] that]
    from e obtain n where a: "snd e = NvUint64 n" by (elim conjE exE)
    from e obtain name where b: "map_of zfsFeatureGUIDToShortName (fst e) = Some name" by (cases "map_of zfsFeatureGUIDToShortName (fst e)") simp_all
    show ?thesis unfolding countedFeature_def activeName_set [OF a b] by (simp add: a b)
  qed
  then show ?thesis by (simp add: UN_subset_iff)
qed

text \<open>The facts a verdict other than UNKNOWN rests on.\<close>

definition examined :: "bool \<Rightarrow> byteOrder \<Rightarrow> u64 \<Rightarrow> zfs_kernel \<Rightarrow> bytes \<Rightarrow> bytes \<Rightarrow> nvlist \<Rightarrow> bytes list \<Rightarrow> bool" where
  "examined opens host addr ioctl bootPool version stats feats \<longleftrightarrow>
     (\<exists>names pool line. liveZFSPoolNames opens host addr ioctl = Inr names \<and> selectBootPool bootPool names = Inr pool \<and>
        liveZFSFeatureStats opens host addr ioctl pool = Inr stats \<and>
        zfsReleaseLine version = Inr line \<and> zfsSupportedFeatures line = Some (Some feats)) \<and>
     knownStats stats"

lemma selectBootPool_nonempty: "selectBootPool bootPool names = Inr pool \<Longrightarrow> names \<noteq> []"
  by (auto simp: selectBootPool_def split: if_splits list.splits)

lemma inspectZFSCompat_ok:
  "poolErr (inspectZFSCompat opens host addr ioctl bootPool) = None \<and>
     activeFeatures (inspectZFSCompat opens host addr ioctl bootPool) = af \<longleftrightarrow>
   (\<exists>names pool stats. liveZFSPoolNames opens host addr ioctl = Inr names \<and> selectBootPool bootPool names = Inr pool \<and>
      liveZFSFeatureStats opens host addr ioctl pool = Inr stats \<and> (\<exists>pf. parseFeatureStats stats = Inr (pf, af)))"
  by (auto simp: inspectZFSCompat_def Let_def split: sum.splits dest: selectBootPool_nonempty)

lemma CheckZFSCompat_known:
  "(\<exists>r. CheckZFSCompat version af = Inr r \<and> KnownReleaseLine r \<and> Unsupported r = un) \<longleftrightarrow>
     (\<exists>line feats. zfsReleaseLine version = Inr line \<and> zfsSupportedFeatures line = Some (Some feats) \<and> un = filter (\<lambda>f. f \<notin> set feats) af)"
  by (cases "zfsReleaseLine version") (auto simp: CheckZFSCompat_def split: option.splits)

lemma verdict_cases:
  "fst (bootCompatVerdict (Some version) z) = (if un = [] then VERIFIED else NO) \<and> snd (bootCompatVerdict (Some version) z) = un \<longleftrightarrow>
     poolErr z = None \<and> (\<exists>r. CheckZFSCompat version (activeFeatures z) = Inr r \<and> KnownReleaseLine r \<and> Unsupported r = un)"
  by (cases "CheckZFSCompat version (activeFeatures z)") (auto simp: bootCompatVerdict_def Compatible_def)

lemma verdict_examined:
  "fst (bootCompatVerdict (Some version) (inspectZFSCompat opens host addr ioctl bootPool)) = (if un = [] then VERIFIED else NO) \<and>
     snd (bootCompatVerdict (Some version) (inspectZFSCompat opens host addr ioctl bootPool)) = un \<longleftrightarrow>
   (\<exists>stats feats. examined opens host addr ioctl bootPool version stats feats \<and>
      un = filter (\<lambda>f. f \<notin> set feats) (sort (concat (map activeName stats))))"
proof -
  let ?z = "inspectZFSCompat opens host addr ioctl bootPool"
  have "poolErr ?z = None \<and> (\<exists>r. CheckZFSCompat version (activeFeatures ?z) = Inr r \<and> KnownReleaseLine r \<and> Unsupported r = un) \<longleftrightarrow>
      (\<exists>af. (poolErr ?z = None \<and> activeFeatures ?z = af) \<and>
        (\<exists>line feats. zfsReleaseLine version = Inr line \<and> zfsSupportedFeatures line = Some (Some feats) \<and> un = filter (\<lambda>f. f \<notin> set feats) af))"
    unfolding CheckZFSCompat_known by blast
  also have "\<dots> \<longleftrightarrow> (\<exists>stats feats. examined opens host addr ioctl bootPool version stats feats \<and>
      un = filter (\<lambda>f. f \<notin> set feats) (sort (concat (map activeName stats))))"
    unfolding inspectZFSCompat_ok parseFeatureStats_Inr examined_def by blast
  finally show ?thesis unfolding verdict_cases .
qed

lemma verdict_snd:
  "fst (bootCompatVerdict version z) = VERIFIED \<Longrightarrow> snd (bootCompatVerdict version z) = []"
  "fst (bootCompatVerdict version z) = NO \<Longrightarrow> snd (bootCompatVerdict version z) \<noteq> []"
  by (auto simp: bootCompatVerdict_def Compatible_def split: sum.splits option.splits if_splits)

lemma unsupported_none:
  "examined opens host addr ioctl bootPool version stats feats \<Longrightarrow>
     filter (\<lambda>f. f \<notin> set feats) (sort (concat (map activeName stats))) = [] \<longleftrightarrow> (\<forall>e \<in> set stats. countedFeature feats e)"
  using active_counted [of stats feats] by (auto simp: examined_def filter_empty_conv)

lemma status_iff:
  assumes run: "\<And>un. fst v = (if un = [] then VERIFIED else NO) \<and> snd v = un \<longleftrightarrow> (\<exists>stats feats. E stats feats \<and> un = U stats feats)"
    and snd: "fst v = VERIFIED \<Longrightarrow> snd v = []" "fst v = NO \<Longrightarrow> snd v \<noteq> []"
    and none: "\<And>stats feats. E stats feats \<Longrightarrow> U stats feats = [] \<longleftrightarrow> C stats feats"
  shows "(fst v = VERIFIED \<longleftrightarrow> (\<exists>stats feats. E stats feats \<and> C stats feats)) \<and>
    (fst v = NO \<longleftrightarrow> (\<exists>stats feats. E stats feats \<and> \<not> C stats feats))"
proof (intro conjI iffI)
  assume "fst v = VERIFIED"
  with snd(1) have "\<exists>stats feats. E stats feats \<and> [] = U stats feats" using run [of "[]"] by simp
  then show "\<exists>stats feats. E stats feats \<and> C stats feats" using none by metis
next
  assume "\<exists>stats feats. E stats feats \<and> C stats feats"
  then have "\<exists>stats feats. E stats feats \<and> [] = U stats feats" using none by metis
  then show "fst v = VERIFIED" using run [of "[]"] by simp
next
  assume NO: "fst v = NO"
  with snd(2) have "\<exists>stats feats. E stats feats \<and> snd v = U stats feats" using run [of "snd v"] by simp
  then show "\<exists>stats feats. E stats feats \<and> \<not> C stats feats" using none snd(2) [OF NO] by metis
next
  assume "\<exists>stats feats. E stats feats \<and> \<not> C stats feats"
  then obtain stats feats where "E stats feats" "U stats feats \<noteq> []" using none by metis
  then show "fst v = NO" using run [of "U stats feats"] by auto
qed

text \<open>The vendored data.  Every release line that is listed has its file, and every feature of the newest one
  is in the table of identifiers.\<close>

definition lineFeatures :: "bytes \<Rightarrow> bytes list" where
  "lineFeatures line = (case zfsSupportedFeatures line of Some (Some feats) \<Rightarrow> feats | _ \<Rightarrow> [])"

lemma release_lines_known: "line \<in> fst ` set zfsCompatReleaseLineFile \<Longrightarrow> zfsSupportedFeatures line = Some (Some (lineFeatures line))"
  by (auto simp: lineFeatures_def zfsSupportedFeatures_def zfsCompatReleaseLineFile_def zfsCompatFS_def)

lemma table_covers_newest:
  "list_all (\<lambda>f. f \<in> snd ` set zfsFeatureGUIDToShortName) (lineFeatures ''2.4'') \<and> ''hole_birth'' \<in> set (lineFeatures ''2.4'')"
  by code_simp

section \<open>A sample kernel\<close>

definition sample_kernel :: zfs_kernel where
  "sample_kernel attempt req cmd dst =
     (None, cmd, overwrite dst 0 (EncodeNative (hostOrderFor 1)
        (if req = ZFS_IOC_POOL_CONFIGS then [(''rpool'', NvList [])] else sample_pool)))"

lemma overwrite_zeros: "length x \<le> n \<Longrightarrow> overwrite (zeros n) 0 x = x @ zeros (n - length x)"
  by (simp add: overwrite_def zeros_def)

lemma sl_zeros: "e \<le> n \<Longrightarrow> sl (zeros n) a e = zeros (e - a)"
  by (simp add: sl_def zeros_def)

lemma le_bytes_zero: "le_bytes n 0 = zeros n"
proof (induction n)
  case (Suc n)
  have "char_of (0 :: nat) = CHR 0x00" by code_simp
  with Suc show ?case by (simp add: zeros_def)
qed (simp add: zeros_def)

lemma le_val_zeros: "le_val (zeros n) = 0"
  by (induction n) (simp_all add: zeros_def)

lemma boUint64_zeros: "boUint64 bo (zeros 8) = 0"
proof -
  have "be_val (zeros 8) = 0" using le_val_zeros by (simp add: be_val_def zeros_def)
  then show ?thesis by (simp add: boUint64_def boVal_def le_val_zeros split: byteOrder.split)
qed

lemma sample_call:
  assumes "wf_nvlist maxNVListDepth nv" "length (EncodeNative (hostOrderFor 1) nv) \<le> dstSize" "dstSize < 2 ^ 31"
    "build (zeros sizeofZfsCmd) = Inr cmd" "length cmd = sizeofZfsCmd" "sl cmd offZcCookie (offZcCookie + 8) = zeros 8"
    "\<And>cmd dst. sample_kernel 0 req cmd dst = (None, cmd, overwrite dst 0 (EncodeNative (hostOrderFor 1) nv))"
  shows "callWithDst LittleEndian addr sample_kernel req build dstSize = Inr (nv, 0)"
proof -
  have dec: "DecodeNative (overwrite (zeros dstSize) 0 (EncodeNative (hostOrderFor 1) nv)) = Inr nv"
    using assms(1-3) by (simp add: overwrite_zeros DecodeNative_EncodeNative)
  have "getU64 LittleEndian offZcCookie (setU64 LittleEndian offZcNvlistDstSize x (setU64 LittleEndian offZcNvlistDst y cmd)) = 0" for x y
    using assms(5,6) by (simp add: getU64_def setU64_def sl_overwrite_other offZcCookie_def offZcNvlistDstSize_def
        offZcNvlistDst_def sizeofZfsCmd_def boUint64_zeros)
  then show ?thesis
    by (simp add: callWithDst_def numeral_2_eq_2 assms(4,7) dec del: One_nat_def)
qed

lemma sample_names: "liveZFSPoolNames True LittleEndian addr sample_kernel = Inr [''rpool'']"
proof -
  have "wf_nvlist maxNVListDepth [(''rpool'', NvList [])]"
    by (simp add: wf_nvlist_def sortedKeys_def maxNVListDepth_def maxName_def)
  moreover have "length (EncodeNative (hostOrderFor 1) [(''rpool'', NvList [])]) \<le> 65536"
    by (simp add: EncodeNative_def encodeBody_def encodePair_def nvAlign8_def nvpairHdrLen_def)
  moreover have "sl (setU64 LittleEndian offZcCookie 0 (zeros sizeofZfsCmd)) offZcCookie (offZcCookie + 8) = zeros 8"
  proof -
    have "boBytes LittleEndian 8 (unat (0 :: u64)) = zeros 8" by (simp add: boBytes_def le_bytes_zero)
    then show ?thesis
      by (simp add: setU64_def sl_overwrite_same offZcCookie_def sizeofZfsCmd_def)
  qed
  ultimately have "callWithDst LittleEndian addr sample_kernel ZFS_IOC_POOL_CONFIGS (\<lambda>c. Inr (setU64 LittleEndian offZcCookie 0 c)) 65536
      = Inr ([(''rpool'', NvList [])], 0)"
    by (intro sample_call [where cmd = "setU64 LittleEndian offZcCookie 0 (zeros sizeofZfsCmd)"])
      (simp_all add: sample_kernel_def setU64_def offZcCookie_def sizeofZfsCmd_def del: One_nat_def)
  then show ?thesis by (simp add: liveZFSPoolNames_def PoolNames_def PoolConfigs_def recoverZFSCall_def)
qed

lemma sample_stats: "liveZFSFeatureStats True LittleEndian addr sample_kernel ''rpool'' = Inr [(''com.delphix:hole_birth'', NvUint64 5)]"
proof -
  have "length (EncodeNative (hostOrderFor 1) sample_pool) \<le> 262144"
    by (simp add: sample_pool_def EncodeNative_def encodeBody_def encodePair_def nvAlign8_def nvpairHdrLen_def)
  moreover have "setName ''rpool'' (zeros sizeofZfsCmd) = Inr (overwrite (overwrite (zeros sizeofZfsCmd) 0 (zeros 4096)) 0 ''rpool'')"
    by (simp add: setName_def maxPathLen_def offZcName_def)
  moreover have "sl (overwrite (overwrite (zeros sizeofZfsCmd) 0 (zeros 4096)) 0 ''rpool'') offZcCookie (offZcCookie + 8) = zeros 8"
    by (simp add: sl_overwrite_other sl_zeros sizeofZfsCmd_def offZcCookie_def)
  ultimately have "callWithDst LittleEndian addr sample_kernel ZFS_IOC_POOL_STATS (setName ''rpool'') 262144 = Inr (sample_pool, 0)"
    using sample_pool_wf by (intro sample_call [where cmd = "overwrite (overwrite (zeros sizeofZfsCmd) 0 (zeros 4096)) 0 ''rpool''"])
      (simp_all del: One_nat_def add: sample_kernel_def sizeofZfsCmd_def ZFS_IOC_POOL_CONFIGS_def ZFS_IOC_POOL_STATS_def)
  then show ?thesis
    by (simp add: liveZFSFeatureStats_def PoolStats_def recoverZFSCall_def) (simp add: sample_pool_def)
qed

lemma sample_examined:
  "examined True LittleEndian addr sample_kernel [] ''2.4.1-1'' [(''com.delphix:hole_birth'', NvUint64 5)] (lineFeatures ''2.4'')"
proof -
  have "zfsReleaseLine ''2.4.1-1'' = Inr ''2.4''" by code_simp
  moreover have "zfsSupportedFeatures ''2.4'' = Some (Some (lineFeatures ''2.4''))"
    by (rule release_lines_known) (simp add: zfsCompatReleaseLineFile_def)
  moreover have "knownStats [(''com.delphix:hole_birth'', NvUint64 5)]" by (simp add: knownStats_def zfsFeatureGUIDToShortName_def)
  ultimately show ?thesis
    unfolding examined_def using sample_names sample_stats by (simp add: selectBootPool_def)
qed

lemma sample_counted: "countedFeature (lineFeatures ''2.4'') (''com.delphix:hole_birth'', NvUint64 5)"
  using table_covers_newest by (simp add: countedFeature_def zfsFeatureGUIDToShortName_def)

section \<open>Properties\<close>

text \<open>C37: the boot compatibility verdict is exact.  VERIFIED is said exactly when the boot pool's feature counts
  were read from the kernel in full, each is a count of a feature the tool knows, and every feature in use is
  one the release line of the boot environment's OpenZFS supports; NO is said exactly when all of that was
  examined and some feature in use is not supported; everything else is UNKNOWN.\<close>

theorem boot_compat_exact:
  "(fst (bootCompatVerdict (Some version) (inspectZFSCompat opens host addr ioctl bootPool)) = VERIFIED \<longleftrightarrow>
      (\<exists>stats feats. examined opens host addr ioctl bootPool version stats feats \<and> (\<forall>e \<in> set stats. countedFeature feats e))) \<and>
   (fst (bootCompatVerdict (Some version) (inspectZFSCompat opens host addr ioctl bootPool)) = NO \<longleftrightarrow>
      (\<exists>stats feats. examined opens host addr ioctl bootPool version stats feats \<and> \<not> (\<forall>e \<in> set stats. countedFeature feats e)))"
  by (rule status_iff [OF verdict_examined verdict_snd unsupported_none])

theorem boot_compat_exact_witness:
  "fst (bootCompatVerdict (Some ''2.4.1-1'') (inspectZFSCompat True LittleEndian 0 sample_kernel [])) = VERIFIED"
proof -
  have "\<exists>stats feats. examined True LittleEndian 0 sample_kernel [] ''2.4.1-1'' stats feats \<and> (\<forall>e \<in> set stats. countedFeature feats e)"
    using sample_examined sample_counted by (intro exI conjI) auto
  then show ?thesis by (rule conjunct1 [OF boot_compat_exact, THEN iffD2])
qed

end
