(* ===== verification/Spec2Isabelle.thy ===== *)
theory Spec2Isabelle
  imports Mirror_Set Zfs_Compat
begin

text \<open>
  Verification of the alpine-zfsboot tool.
\<close>

end
